(* ===== verification/Sabos_Prelude.thy ===== *)
theory Sabos_Prelude
  imports Main "HOL-Library.Word" "HOL-Library.Code_Target_Nat"
begin

text \<open>
  Shared vocabulary of the development: machine integers, the result of a Rust computation
  (a value, an error value, or a panic), checked arithmetic, the byte orders of the on-disk and
  on-wire formats, slot tables (\<^verbatim>\<open>Vec<Option<T>>\<close> with first-free insertion) and the
  string operations of the standard library that the kernel uses.
\<close>

unbundle bit_operations_syntax

named_theorems arith_defs \<open>checked and saturating machine arithmetic\<close>
named_theorems slot_simps \<open>looking up slots after a table operation\<close>

section \<open>Types\<close>

type_synonym u8 = "8 word"
type_synonym u16 = "16 word"
type_synonym u32 = "32 word"
type_synonym u64 = "64 word"
type_synonym bytes = "u8 list"

text \<open>
  The outcome of a fallible Rust function. \<open>Panic\<close> is an arithmetic overflow, an index out of
  range or an explicit \<^verbatim>\<open>panic!\<close>: the kernel is built with the dev profile
  (\<^verbatim>\<open>cargo build\<close> in the Makefile), in which overflow checks are on.
\<close>

datatype ('e, 'a) res = is_Ok: Ok (ok_val: 'a) | is_Err: Err 'e | is_Panic: Panic

definition res_bind :: "('e, 'a) res \<Rightarrow> ('a \<Rightarrow> ('e, 'b) res) \<Rightarrow> ('e, 'b) res" where
  "res_bind m f = (case m of Ok a \<Rightarrow> f a | Err e \<Rightarrow> Err e | Panic \<Rightarrow> Panic)"

definition map_err :: "('e \<Rightarrow> 'f) \<Rightarrow> ('e, 'a) res \<Rightarrow> ('f, 'a) res" where
  "map_err g m = (case m of Ok a \<Rightarrow> Ok a | Err e \<Rightarrow> Err (g e) | Panic \<Rightarrow> Panic)"

lemma res_bind_simps [simp]:
  "res_bind (Ok a) f = f a"
  "res_bind (Err e) f = Err e"
  "res_bind Panic f = Panic"
  by (simp_all add: res_bind_def)

lemma map_err_simps [simp]:
  "map_err g (Ok a) = Ok a"
  "map_err g (Err e) = Err (g e)"
  "map_err g Panic = Panic"
  by (simp_all add: map_err_def)

lemma res_bind_Ok_iff: "res_bind m f = Ok b \<longleftrightarrow> (\<exists>a. m = Ok a \<and> f a = Ok b)"
  by (cases m) auto

text \<open>The \<^verbatim>\<open>?\<close> operator inside a function that changes state \<open>s\<close>: errors and panics leave it at once.\<close>

definition ok_then :: "('e, 'a) res \<Rightarrow> 's \<Rightarrow> ('a \<Rightarrow> ('e, 'b) res \<times> 's) \<Rightarrow> ('e, 'b) res \<times> 's" where
  "ok_then r s f = (case r of Ok a \<Rightarrow> f a | Err e \<Rightarrow> (Err e, s) | Panic \<Rightarrow> (Panic, s))"

lemma ok_then_simps [simp]:
  "ok_then (Ok a) s f = f a"
  "ok_then (Err e) s f = (Err e, s)"
  "ok_then Panic s f = (Panic, s)"
  by (simp_all add: ok_then_def)

lemma ok_then_Ok_iff: "ok_then r s f = (Ok b, t) \<longleftrightarrow> (\<exists>a. r = Ok a \<and> f a = (Ok b, t))"
  by (cases r) auto

section \<open>Checked arithmetic\<close>

text \<open>Plain \<^verbatim>\<open>+\<close>, \<^verbatim>\<open>*\<close> and \<^verbatim>\<open>-\<close> of the dev profile: \<open>None\<close> is the overflow panic.\<close>

definition cadd :: "'a::len word \<Rightarrow> 'a word \<Rightarrow> 'a word option" where
  "cadd a b = (if unat a + unat b < 2 ^ LENGTH('a) then Some (a + b) else None)"

definition cmul :: "'a::len word \<Rightarrow> 'a word \<Rightarrow> 'a word option" where
  "cmul a b = (if unat a * unat b < 2 ^ LENGTH('a) then Some (a * b) else None)"

definition csub :: "'a::len word \<Rightarrow> 'a word \<Rightarrow> 'a word option" where
  "csub a b = (if b \<le> a then Some (a - b) else None)"

definition saturating_sub :: "'a::len word \<Rightarrow> 'a word \<Rightarrow> 'a word" where
  "saturating_sub a b = (if b \<le> a then a - b else 0)"

definition saturating_add :: "'a::len word \<Rightarrow> 'a word \<Rightarrow> 'a word" where
  "saturating_add a b = (if unat a + unat b < 2 ^ LENGTH('a) then a + b else - 1)"

lemmas [arith_defs] = cadd_def cmul_def csub_def saturating_sub_def saturating_add_def

definition or_panic :: "'a option \<Rightarrow> ('e, 'a) res" where
  "or_panic x = (case x of None \<Rightarrow> Panic | Some a \<Rightarrow> Ok a)"

lemma or_panic_simps [simp]: "or_panic None = Panic" "or_panic (Some a) = Ok a"
  by (simp_all add: or_panic_def)

lemma or_panic_eq_iff:
  "or_panic x = Ok a \<longleftrightarrow> x = Some a"
  "or_panic x = Panic \<longleftrightarrow> x = None"
  "or_panic x \<noteq> Err e"
  by (auto simp: or_panic_def split: option.splits)

lemma unat_cadd: "cadd a b = Some c \<Longrightarrow> unat c = unat a + unat b"
  for a b c :: "'a::len word"
  by (auto simp: cadd_def unat_word_ariths split: if_splits)

lemma unat_cmul: "cmul a b = Some c \<Longrightarrow> unat c = unat a * unat b"
  for a b c :: "'a::len word"
  by (auto simp: cmul_def unat_word_ariths split: if_splits)

lemma unat_csub: "csub a b = Some c \<Longrightarrow> unat c = unat a - unat b"
  for a b c :: "'a::len word"
  by (auto simp: csub_def unat_sub word_le_nat_alt split: if_splits)

lemma cadd_None_iff: "cadd a b = None \<longleftrightarrow> 2 ^ LENGTH('a) \<le> unat a + unat b"
  for a b :: "'a::len word"
  by (auto simp: cadd_def)

section \<open>Positions and slices\<close>

text \<open>\<^verbatim>\<open>iter().position(p)\<close>: the index of the first element satisfying \<open>p\<close>.\<close>

fun position :: "('a \<Rightarrow> bool) \<Rightarrow> 'a list \<Rightarrow> nat option" where
  "position p [] = None"
| "position p (x # xs) = (if p x then Some 0 else map_option Suc (position p xs))"

lemma position_None_iff: "position p xs = None \<longleftrightarrow> (\<forall>x\<in>set xs. \<not> p x)"
  by (induction xs) auto

lemma position_SomeD:
  "position p xs = Some i \<Longrightarrow> i < length xs \<and> p (xs ! i) \<and> (\<forall>j<i. \<not> p (xs ! j))"
proof (induction xs arbitrary: i)
  case Nil
  then show ?case by simp
next
  case (Cons x xs)
  then show ?case
    by (fastforce simp: less_Suc_eq_0_disj split: if_splits)
qed

text \<open>\<^verbatim>\<open>Vec::remove(i)\<close> for an index in range.\<close>

definition remove_nth :: "nat \<Rightarrow> 'a list \<Rightarrow> 'a list" where
  "remove_nth i xs = take i xs @ drop (Suc i) xs"

lemma length_remove_nth: "i < length xs \<Longrightarrow> length (remove_nth i xs) = length xs - 1"
  by (simp add: remove_nth_def)

lemma mset_split_nth: "i < length xs \<Longrightarrow> xs = take i xs @ xs ! i # drop (Suc i) xs"
  by (rule id_take_nth_drop)

lemma set_remove_nth_subset: "set (remove_nth i xs) \<subseteq> set xs"
  by (auto simp: remove_nth_def dest: in_set_takeD in_set_dropD)

lemma nth_update_any: "j < length xs \<Longrightarrow> xs[i := u] ! j = (if i = j then u else xs ! j)"
  by (cases "i = j") simp_all

text \<open>Overwriting the range \<open>[off, off + length ys)\<close> of a buffer.\<close>

definition blit :: "nat \<Rightarrow> 'a list \<Rightarrow> 'a list \<Rightarrow> 'a list" where
  "blit off ys xs = take off xs @ ys @ drop (off + length ys) xs"

lemma length_blit [simp]: "off + length ys \<le> length xs \<Longrightarrow> length (blit off ys xs) = length xs"
  by (simp add: blit_def)

lemma nth_blit:
  assumes "off + length ys \<le> length xs" and "i < length xs"
  shows "blit off ys xs ! i =
    (if off \<le> i \<and> i < off + length ys then ys ! (i - off) else xs ! i)"
  using assms by (auto simp: blit_def nth_append min_def)

lemma take_drop_blit:
  "off + length ys \<le> length xs \<Longrightarrow> take (length ys) (drop off (blit off ys xs)) = ys"
  by (simp add: blit_def)

section \<open>Byte order\<close>

text \<open>\<^verbatim>\<open>from_le_bytes\<close> and \<^verbatim>\<open>to_le_bytes\<close> of the unsigned integers, and their big-endian counterparts.\<close>

fun nat_of_le :: "bytes \<Rightarrow> nat" where
  "nat_of_le [] = 0"
| "nat_of_le (b # bs) = unat b + 256 * nat_of_le bs"

fun le_of_nat :: "nat \<Rightarrow> nat \<Rightarrow> bytes" where
  "le_of_nat 0 n = []"
| "le_of_nat (Suc k) n = of_nat n # le_of_nat k (n div 256)"

definition from_le :: "bytes \<Rightarrow> 'a::len word" where
  "from_le bs = of_nat (nat_of_le bs)"

definition from_be :: "bytes \<Rightarrow> 'a::len word" where
  "from_be bs = of_nat (nat_of_le (rev bs))"

definition le16 :: "u16 \<Rightarrow> bytes" where "le16 w = le_of_nat 2 (unat w)"
definition le32 :: "u32 \<Rightarrow> bytes" where "le32 w = le_of_nat 4 (unat w)"
definition le64 :: "u64 \<Rightarrow> bytes" where "le64 w = le_of_nat 8 (unat w)"
definition be16 :: "u16 \<Rightarrow> bytes" where "be16 w = rev (le_of_nat 2 (unat w))"
definition be32 :: "u32 \<Rightarrow> bytes" where "be32 w = rev (le_of_nat 4 (unat w))"

lemma length_le_of_nat [simp]: "length (le_of_nat k n) = k"
  by (induction k arbitrary: n) auto

lemma nat_of_le_of_nat: "nat_of_le (le_of_nat k n) = n mod 256 ^ k"
  by (induction k arbitrary: n) (simp_all add: unat_of_nat mod_mult2_eq)

lemma unat_lt: "unat (w :: 'a::len word) < 2 ^ LENGTH('a)"
  by (rule unsigned_less)

lemma unat_u8_less: "unat (b :: u8) < 256"
  using unat_lt [of b] by simp

lemma nat_of_le_bound: "nat_of_le bs < 256 ^ length bs"
proof (induction bs)
  case (Cons b bs)
  then have "nat_of_le bs + 1 \<le> 256 ^ length bs" by simp
  then have "256 * (nat_of_le bs + 1) \<le> 256 * 256 ^ length bs" by (rule mult_le_mono2)
  with unat_u8_less [of b] show ?case by simp
qed simp

lemma le_of_nat_of_le: "le_of_nat (length bs) (nat_of_le bs) = bs"
proof (induction bs)
  case (Cons b bs)
  have "(of_nat (unat b + 256 * nat_of_le bs) :: u8) = b"
    using unat_u8_less [of b] by (simp add: word_unat_eq_iff unat_of_nat del: of_nat_add of_nat_mult)
  moreover have "(unat b + 256 * nat_of_le bs) div 256 = nat_of_le bs"
    using unat_u8_less [of b] by simp
  ultimately show ?case using Cons by simp
qed simp

lemma length_le [simp]:
  "length (le16 a) = 2" "length (le32 b) = 4" "length (le64 c) = 8" "length (be16 a) = 2" "length (be32 b) = 4"
  by (simp_all add: le16_def le32_def le64_def be16_def be32_def)

lemma from_le_to_le [simp]:
  "from_le (le16 a) = a" "from_le (le32 b) = b" "from_le (le64 c) = c" "from_be (be16 a) = a" "from_be (be32 b) = b"
  using unat_lt [of a] unat_lt [of b] unat_lt [of c]
  by (simp_all add: from_le_def from_be_def le16_def le32_def le64_def be16_def be32_def nat_of_le_of_nat)

section \<open>Slot tables\<close>

text \<open>
  The handle table and the pipe table are both \<^verbatim>\<open>Vec<Option<T>>\<close>: an insertion reuses the
  first empty slot and otherwise pushes a new one, a lookup out of range finds nothing, and a
  removal stores \<^verbatim>\<open>None\<close>.
\<close>

definition slot_get :: "'a option list \<Rightarrow> nat \<Rightarrow> 'a option" where
  "slot_get t i = (if i < length t then t ! i else None)"

definition slot_insert :: "'a \<Rightarrow> 'a option list \<Rightarrow> nat \<times> 'a option list" where
  "slot_insert x t =
     (case position (\<lambda>s. s = None) t of
        Some i \<Rightarrow> (i, t[i := Some x])
      | None \<Rightarrow> (length t, t @ [Some x]))"

lemma slot_get_insert [slot_simps]:
  "slot_get (snd (slot_insert x t)) j =
     (if j = fst (slot_insert x t) then Some x else slot_get t j)"
  by (auto simp: slot_insert_def slot_get_def nth_append nth_list_update
      split: option.splits dest: position_SomeD)

lemma slot_insert_fresh [slot_simps]: "slot_get t (fst (slot_insert x t)) = None"
  by (auto simp: slot_insert_def slot_get_def split: option.splits dest: position_SomeD)

lemma slot_get_update [slot_simps]:
  "slot_get t i \<noteq> None \<Longrightarrow> slot_get (t[i := v]) j = (if j = i then v else slot_get t j)"
  by (auto simp: slot_get_def split: if_splits)

lemma slot_get_SomeD: "slot_get t i = Some x \<Longrightarrow> i < length t \<and> t ! i = Some x"
  by (auto simp: slot_get_def split: if_splits)

lemma slot_get_clear [slot_simps]:
  "slot_get (t[i := None]) j = (if j = i then None else slot_get t j)"
  by (auto simp: slot_get_def)

text \<open>
  The interface the two tables offer their clients: what a lookup returns after an insertion,
  an update and a removal, and that an insertion never lands on a live slot.
\<close>

locale slot_store =
  fixes look :: "'t \<Rightarrow> nat \<Rightarrow> 'v option"
    and insert_new :: "'v \<Rightarrow> 't \<Rightarrow> nat \<times> 't"
    and store :: "nat \<Rightarrow> 'v \<Rightarrow> 't \<Rightarrow> 't"
    and clear :: "nat \<Rightarrow> 't \<Rightarrow> 't"
  assumes look_insert: "look (snd (insert_new v t)) j = (if j = fst (insert_new v t) then Some v else look t j)"
    and insert_fresh: "look t (fst (insert_new v t)) = None"
    and look_store: "look t i \<noteq> None \<Longrightarrow> look (store i v t) j = (if j = i then Some v else look t j)"
    and look_clear: "look (clear i t) j = (if j = i then None else look t j)"
begin

lemma insert_keeps: "look t j = Some w \<Longrightarrow> look (snd (insert_new v t)) j = Some w"
  using insert_fresh [of t v] by (auto simp: look_insert)

lemma insert_all:
  assumes "\<And>i w. look t i = Some w \<Longrightarrow> P i w" and "P (fst (insert_new v t)) v"
    and "look (snd (insert_new v t)) j = Some w"
  shows "P j w"
  using assms by (auto simp: look_insert split: if_splits)

lemma store_all:
  assumes "\<And>i w. look t i = Some w \<Longrightarrow> P i w" and "look t k \<noteq> None" and "P k v"
    and "look (store k v t) j = Some w"
  shows "P j w"
  using assms by (auto simp: look_store split: if_splits)

lemma clear_all:
  assumes "\<And>i w. look t i = Some w \<Longrightarrow> P i w" and "look (clear k t) j = Some w"
  shows "P j w"
  using assms by (auto simp: look_clear split: if_splits)

lemma insert_then_clear: "look (clear (fst (insert_new v t)) (snd (insert_new v t))) = look t"
  using insert_fresh [of t v] by (auto simp: look_clear look_insert fun_eq_iff)

end

interpretation slots: slot_store slot_get slot_insert "\<lambda>i v t. t[i := Some v]" "\<lambda>i t. t[i := None]"
  by unfold_locales (simp_all add: slot_simps)

end
