(* ===== verification/User_Ptr.thy ===== *)
theory User_Ptr
  imports Sabos_Prelude
begin

text \<open>
  \<^verbatim>\<open>kernel/src/user_ptr.rs\<close>: the error codes of the system call interface and the validation of
  user-space pointers and slices, and the conversion of a handler's result to the value returned
  in \<^verbatim>\<open>rax\<close> (\<^verbatim>\<open>syscall_dispatch\<close> in \<^verbatim>\<open>kernel/src/syscall/mod.rs\<close>).
\<close>

section \<open>Errors\<close>

datatype SyscallError =
    NullPointer | InvalidAddress | MisalignedPointer | InvalidArgument | ReadOnly
  | BufferOverflow | InvalidUtf8 | FileNotFound | InvalidHandle | Timeout | Cancelled
  | UnknownSyscall | NotSupported | PermissionDenied | PathTraversal | WouldBlock
  | BrokenPipe | Other

definition errno_code :: "SyscallError \<Rightarrow> int" where
  "errno_code e = (case e of
      NullPointer \<Rightarrow> - 1 | InvalidAddress \<Rightarrow> - 2 | MisalignedPointer \<Rightarrow> - 3 | BufferOverflow \<Rightarrow> - 4
    | InvalidArgument \<Rightarrow> - 10 | InvalidUtf8 \<Rightarrow> - 11
    | FileNotFound \<Rightarrow> - 20 | InvalidHandle \<Rightarrow> - 21 | ReadOnly \<Rightarrow> - 22
    | PermissionDenied \<Rightarrow> - 30 | PathTraversal \<Rightarrow> - 31
    | UnknownSyscall \<Rightarrow> - 40 | NotSupported \<Rightarrow> - 41 | Timeout \<Rightarrow> - 42
    | Cancelled \<Rightarrow> - 50
    | WouldBlock \<Rightarrow> - 60 | BrokenPipe \<Rightarrow> - 61
    | Other \<Rightarrow> - 99)"

definition to_errno :: "SyscallError \<Rightarrow> u64" where
  "to_errno e = word_of_int (errno_code e)"

text \<open>The value a system call leaves in \<^verbatim>\<open>rax\<close>; a panicking handler returns nothing.\<close>

definition syscall_dispatch :: "(SyscallError, u64) res \<Rightarrow> u64 option" where
  "syscall_dispatch r = (case r of Ok v \<Rightarrow> Some v | Err e \<Rightarrow> Some (to_errno e) | Panic \<Rightarrow> None)"

lemma errno_code_range: "- 99 \<le> errno_code e \<and> errno_code e \<le> - 1"
  by (cases e) (simp_all add: errno_code_def)

lemma errno_code_inj: "errno_code e = errno_code f \<Longrightarrow> e = f"
  by (cases e; cases f) (simp_all add: errno_code_def)

lemma sint_to_errno: "sint (to_errno e) = errno_code e"
proof -
  have "sint (word_of_int (errno_code e) :: u64) = signed_take_bit 63 (errno_code e)"
    by (simp add: sint_sbintrunc')
  also have "\<dots> = errno_code e"
    using errno_code_range [of e] by (intro signed_take_bit_int_eq_self) auto
  finally show ?thesis by (simp add: to_errno_def)
qed

lemma to_errno_inj: "to_errno e = to_errno f \<Longrightarrow> e = f"
  using sint_to_errno [of e] sint_to_errno [of f] errno_code_inj by metis

lemma to_errno_large: "2 ^ 63 \<le> unat (to_errno e)"
  by (cases e) (simp_all add: to_errno_def errno_code_def unsigned_minus_1_eq_mask mask_eq_exp_minus_1)

section \<open>Pointers and slices\<close>

definition USER_SPACE_START :: u64 where "USER_SPACE_START = 0"
definition USER_SPACE_END :: u64 where "USER_SPACE_END = 0x7FFFFFFFFFFF"

text \<open>
  \<^verbatim>\<open>UserPtr<T>::from_raw\<close> and \<^verbatim>\<open>UserSlice<T>::from_raw\<close>; the type \<^verbatim>\<open>T\<close> enters through its size
  and its alignment.
\<close>

definition user_ptr_from_raw :: "u64 \<Rightarrow> u64 \<Rightarrow> (SyscallError, u64) res" where
  "user_ptr_from_raw align addr =
     (if addr = 0 then Err NullPointer
      else if addr < USER_SPACE_START \<or> addr > USER_SPACE_END then Err InvalidAddress
      else if addr mod align \<noteq> 0 then Err MisalignedPointer
      else Ok addr)"

record user_slice =
  us_addr :: u64
  us_len :: u64

definition user_slice_from_raw :: "u64 \<Rightarrow> u64 \<Rightarrow> u64 \<Rightarrow> u64 \<Rightarrow> (SyscallError, user_slice) res" where
  "user_slice_from_raw sz align addr len =
     (if len = 0 then Ok \<lparr>us_addr = 0, us_len = 0\<rparr>
      else if addr = 0 then Err NullPointer
      else if addr < USER_SPACE_START \<or> addr > USER_SPACE_END then Err InvalidAddress
      else case cmul sz len of
        None \<Rightarrow> Err BufferOverflow
      | Some total_size \<Rightarrow>
          (case cadd addr total_size of
             None \<Rightarrow> Err BufferOverflow
           | Some end_addr \<Rightarrow>
               if end_addr > USER_SPACE_END + 1 then Err BufferOverflow
               else if addr mod align \<noteq> 0 then Err MisalignedPointer
               else Ok \<lparr>us_addr = addr, us_len = len\<rparr>))"

text \<open>\<^verbatim>\<open>user_slice_from_args\<close>: every syscall buffer is a byte slice; \<^verbatim>\<open>usize\<close> is 64 bits wide.\<close>

definition user_slice_from_args :: "u64 \<Rightarrow> u64 \<Rightarrow> (SyscallError, user_slice) res" where
  "user_slice_from_args arg_ptr arg_len = user_slice_from_raw 1 1 arg_ptr arg_len"

text \<open>\<^verbatim>\<open>as_slice\<close> for bytes, over a flat memory.\<close>

definition as_slice :: "(u64 \<Rightarrow> u8) \<Rightarrow> user_slice \<Rightarrow> bytes" where
  "as_slice mem s =
     (if us_len s = 0 then []
      else map (\<lambda>i. mem (us_addr s + of_nat i)) [0..<unat (us_len s)])"

lemma user_slice_from_raw_Ok_iff:
  "user_slice_from_raw sz align addr len = Ok s \<longleftrightarrow>
     (len = 0 \<and> s = \<lparr>us_addr = 0, us_len = 0\<rparr>) \<or>
     (len \<noteq> 0 \<and> addr \<noteq> 0 \<and> unat addr < 2 ^ 47 \<and>
      unat addr + unat sz * unat len \<le> 2 ^ 47 \<and> addr mod align = 0 \<and>
      s = \<lparr>us_addr = addr, us_len = len\<rparr>)"
proof (cases "unat sz * unat len < 2 ^ 64 \<and> unat addr + unat sz * unat len < 2 ^ 64")
  case True
  then have u: "unat (sz * len) = unat sz * unat len"
    "unat (addr + sz * len) = unat addr + unat sz * unat len"
    by (simp_all add: unat_word_ariths)
  with True show ?thesis
    by (auto simp: user_slice_from_raw_def cmul_def cadd_def USER_SPACE_START_def USER_SPACE_END_def
        word_less_nat_alt)
next
  case False
  then have "\<not> unat addr + unat sz * unat len \<le> 2 ^ 47"
    by auto
  moreover from False have "cmul sz len = None \<or>
      (\<exists>t. cmul sz len = Some t \<and> cadd addr t = None)"
    by (auto simp: cmul_def cadd_def unat_word_ariths)
  ultimately show ?thesis
    by (auto simp: user_slice_from_raw_def)
qed

section \<open>Properties\<close>

text \<open>
  C1: A buffer argument is accepted exactly when it is empty or lies, as a range of natural
  numbers without wrap-around, non-null and aligned inside the user half of the address space; and
  every byte address of an accepted buffer is then a user address.
\<close>

theorem user_slice_accepts_iff_in_user_space:
  "(is_Ok (user_slice_from_raw sz align addr len) \<longleftrightarrow>
      len = 0 \<or>
      (addr \<noteq> 0 \<and> unat addr < 2 ^ 47 \<and> unat addr + unat sz * unat len \<le> 2 ^ 47 \<and> addr mod align = 0)) \<and>
   (\<forall>s k. user_slice_from_raw sz align addr len = Ok s \<and> k < unat sz * unat (us_len s) \<longrightarrow>
      us_len s = len \<and> unat (us_addr s + of_nat k) = unat addr + k \<and>
      0 < us_addr s + of_nat k \<and> us_addr s + of_nat k \<le> USER_SPACE_END)"
proof (intro conjI allI impI)
  show "is_Ok (user_slice_from_raw sz align addr len) \<longleftrightarrow>
      len = 0 \<or>
      (addr \<noteq> 0 \<and> unat addr < 2 ^ 47 \<and> unat addr + unat sz * unat len \<le> 2 ^ 47 \<and> addr mod align = 0)"
    unfolding is_Ok_def user_slice_from_raw_Ok_iff by (cases "len = 0") simp_all
next
  fix s k
  assume a: "user_slice_from_raw sz align addr len = Ok s \<and> k < unat sz * unat (us_len s)"
  then have s: "us_addr s = addr" "us_len s = len" and b: "unat addr + k < 2 ^ 47" and n: "addr \<noteq> 0"
    by (auto simp: user_slice_from_raw_Ok_iff)
  show "us_len s = len" by (rule s)
  show u: "unat (us_addr s + of_nat k) = unat addr + k"
    using b s by (simp add: unat_word_ariths unat_of_nat)
  show "0 < us_addr s + of_nat k"
    using n u by (simp add: word_less_nat_alt unat_gt_0)
  show "us_addr s + of_nat k \<le> USER_SPACE_END"
    using b u by (simp add: word_le_nat_alt USER_SPACE_END_def)
qed

theorem user_slice_accepts_iff_in_user_space_witness:
  "is_Ok (user_slice_from_raw 8 8 0x1000 4) \<and> (0x1000 :: u64) + of_nat 31 \<le> USER_SPACE_END"
  using user_slice_accepts_iff_in_user_space [of 8 8 "0x1000" 4]
  by (auto simp: user_slice_from_raw_def cmul_def cadd_def USER_SPACE_START_def USER_SPACE_END_def
      dest: spec [of _ 31])

text \<open>
  The value a system call returns identifies its outcome: an error code decodes to one error
  only, is a negative 64-bit integer between -99 and -1, and differs from every result below
  \<open>2 ^ 63\<close>.
\<close>

theorem syscall_result_unambiguous:
  "(syscall_dispatch (Err e) = syscall_dispatch (Err f) \<longleftrightarrow> e = f) \<and>
   (\<exists>w. syscall_dispatch (Err e) = Some w \<and> - 99 \<le> sint w \<and> sint w \<le> - 1) \<and>
   (unat v < 2 ^ 63 \<longrightarrow> syscall_dispatch (Ok v) \<noteq> syscall_dispatch (Err e))"
  using to_errno_inj [of e f] to_errno_large [of e] errno_code_range [of e]
  by (auto simp: syscall_dispatch_def sint_to_errno)

theorem syscall_result_unambiguous_witness:
  "syscall_dispatch (Ok 7) \<noteq> syscall_dispatch (Err BrokenPipe)"
  using syscall_result_unambiguous [of BrokenPipe Other 7] by simp

end
