(* ===== verification/Pipe.thy ===== *)
theory Pipe
  imports Sabos_Prelude
begin

text \<open>
  \<^verbatim>\<open>kernel/src/pipe.rs\<close>: the global pipe table and its operations. The table is passed
  explicitly; every operation holds the table lock from start to end, so each is one atomic step.
  \<^verbatim>\<open>writer_count\<close> counts live handles and is a natural number.
\<close>

section \<open>State and operations\<close>

datatype PipeError = InvalidPipe | BrokenPipe | WouldBlock

record PipeBuffer =
  buf :: bytes
  writer_count :: nat
  reader_closed :: bool

type_synonym pipe_table = "PipeBuffer option list"

definition pipe_create :: "pipe_table \<Rightarrow> nat \<times> pipe_table" where
  "pipe_create table = slot_insert \<lparr>buf = [], writer_count = 1, reader_closed = False\<rparr> table"

definition pipe_write :: "nat \<Rightarrow> bytes \<Rightarrow> pipe_table \<Rightarrow> (PipeError, nat) res \<times> pipe_table" where
  "pipe_write pipe_id data table =
     (case slot_get table pipe_id of
        None \<Rightarrow> (Err InvalidPipe, table)
      | Some pipe \<Rightarrow>
          if reader_closed pipe then (Err BrokenPipe, table)
          else (Ok (length data), table[pipe_id := Some (pipe\<lparr>buf := buf pipe @ data\<rparr>)]))"

text \<open>\<open>n\<close> is the length of the caller's buffer; the result holds the bytes copied into it.\<close>

definition pipe_read :: "nat \<Rightarrow> nat \<Rightarrow> pipe_table \<Rightarrow> (PipeError, bytes) res \<times> pipe_table" where
  "pipe_read pipe_id n table =
     (case slot_get table pipe_id of
        None \<Rightarrow> (Err InvalidPipe, table)
      | Some pipe \<Rightarrow>
          if buf pipe = [] then
            if writer_count pipe = 0 then (Ok [], table) else (Err WouldBlock, table)
          else
            let copy_len = min n (length (buf pipe)) in
            (Ok (take copy_len (buf pipe)),
             table[pipe_id := Some (pipe\<lparr>buf := drop copy_len (buf pipe)\<rparr>)]))"

definition close_writer :: "nat \<Rightarrow> pipe_table \<Rightarrow> pipe_table" where
  "close_writer pipe_id table =
     (case slot_get table pipe_id of
        None \<Rightarrow> table
      | Some pipe \<Rightarrow>
          let pipe = pipe\<lparr>writer_count := writer_count pipe - 1\<rparr> in
          if writer_count pipe = 0 \<and> reader_closed pipe then table[pipe_id := None]
          else table[pipe_id := Some pipe])"

definition add_writer :: "nat \<Rightarrow> pipe_table \<Rightarrow> pipe_table" where
  "add_writer pipe_id table =
     (case slot_get table pipe_id of
        None \<Rightarrow> table
      | Some pipe \<Rightarrow> table[pipe_id := Some (pipe\<lparr>writer_count := writer_count pipe + 1\<rparr>)])"

definition close_reader :: "nat \<Rightarrow> pipe_table \<Rightarrow> pipe_table" where
  "close_reader pipe_id table =
     (case slot_get table pipe_id of
        None \<Rightarrow> table
      | Some pipe \<Rightarrow>
          if writer_count pipe = 0 then table[pipe_id := None]
          else table[pipe_id := Some (pipe\<lparr>reader_closed := True\<rparr>)])"

section \<open>Looking up pipes after an operation\<close>

lemma slot_get_write [slot_simps]:
  "slot_get (snd (pipe_write i d t)) j =
     (if j = i then map_option (\<lambda>p. if reader_closed p then p else p\<lparr>buf := buf p @ d\<rparr>) (slot_get t i)
      else slot_get t j)"
  by (auto simp: pipe_write_def slot_simps split: option.splits)

lemma slot_get_read [slot_simps]:
  "slot_get (snd (pipe_read i n t)) j =
     (if j = i then map_option (\<lambda>p. p\<lparr>buf := drop n (buf p)\<rparr>) (slot_get t i) else slot_get t j)"
  by (auto simp: pipe_read_def Let_def slot_simps min_def split: option.splits)

lemma slot_get_close_writer [slot_simps]:
  "slot_get (close_writer i t) j =
     (if j = i then
        (case slot_get t i of None \<Rightarrow> None
         | Some p \<Rightarrow> if writer_count p \<le> 1 \<and> reader_closed p then None
                    else Some (p\<lparr>writer_count := writer_count p - 1\<rparr>))
      else slot_get t j)"
  by (auto simp: close_writer_def Let_def slot_simps split: option.splits)

lemma slot_get_add_writer [slot_simps]:
  "slot_get (add_writer i t) j =
     (if j = i then map_option (\<lambda>p. p\<lparr>writer_count := writer_count p + 1\<rparr>) (slot_get t i)
      else slot_get t j)"
  by (auto simp: add_writer_def slot_simps split: option.splits)

lemma slot_get_close_reader [slot_simps]:
  "slot_get (close_reader i t) j =
     (if j = i then
        (case slot_get t i of None \<Rightarrow> None
         | Some p \<Rightarrow> if writer_count p = 0 then None else Some (p\<lparr>reader_closed := True\<rparr>))
      else slot_get t j)"
  by (auto simp: close_reader_def slot_simps split: option.splits)

section \<open>Sequences of operations\<close>

text \<open>
  The kernel drives the table through these six calls only. \<open>pipe_run\<close> executes a sequence and
  keeps each call's outcome.
\<close>

datatype pipe_op = PCreate | PWrite nat bytes | PRead nat nat | PCloseWriter nat
  | PAddWriter nat | PCloseReader nat

datatype pipe_out = Created nat | Written "(PipeError, nat) res" | ReadOut "(PipeError, bytes) res" | Done

fun pipe_step :: "pipe_op \<Rightarrow> pipe_table \<Rightarrow> pipe_out \<times> pipe_table" where
  "pipe_step PCreate t = (case pipe_create t of (i, t') \<Rightarrow> (Created i, t'))"
| "pipe_step (PWrite i d) t = (case pipe_write i d t of (r, t') \<Rightarrow> (Written r, t'))"
| "pipe_step (PRead i n) t = (case pipe_read i n t of (r, t') \<Rightarrow> (ReadOut r, t'))"
| "pipe_step (PCloseWriter i) t = (Done, close_writer i t)"
| "pipe_step (PAddWriter i) t = (Done, add_writer i t)"
| "pipe_step (PCloseReader i) t = (Done, close_reader i t)"

fun pipe_run :: "pipe_op list \<Rightarrow> pipe_table \<Rightarrow> (pipe_op \<times> pipe_out) list \<times> pipe_table" where
  "pipe_run [] t = ([], t)"
| "pipe_run (p # ps) t =
     (case pipe_step p t of (o1, t1) \<Rightarrow>
        (case pipe_run ps t1 of (tr, t2) \<Rightarrow> ((p, o1) # tr, t2)))"

text \<open>The bytes that writes to pipe \<open>i\<close> accepted and the bytes that reads of it returned.\<close>

fun accepted :: "nat \<Rightarrow> (pipe_op \<times> pipe_out) list \<Rightarrow> bytes" where
  "accepted i [] = []"
| "accepted i ((PWrite j d, Written (Ok n)) # tr) = (if j = i then d else []) @ accepted i tr"
| "accepted i (_ # tr) = accepted i tr"

fun delivered :: "nat \<Rightarrow> (pipe_op \<times> pipe_out) list \<Rightarrow> bytes" where
  "delivered i [] = []"
| "delivered i ((PRead j n, ReadOut (Ok d)) # tr) = (if j = i then d else []) @ delivered i tr"
| "delivered i (_ # tr) = delivered i tr"

text \<open>Whether some \<^verbatim>\<open>create\<close> of the sequence returned \<open>i\<close>.\<close>

definition recreated :: "nat \<Rightarrow> (pipe_op \<times> pipe_out) list \<Rightarrow> bool" where
  "recreated i tr = (Created i \<in> snd ` set tr)"

definition buffered :: "nat \<Rightarrow> pipe_table \<Rightarrow> bytes" where
  "buffered i t = (case slot_get t i of None \<Rightarrow> [] | Some p \<Rightarrow> buf p)"

lemma create_get:
  "slot_get (snd (pipe_create t)) j =
     (if j = fst (pipe_create t) then Some \<lparr>buf = [], writer_count = 1, reader_closed = False\<rparr>
      else slot_get t j)"
  by (simp add: pipe_create_def slot_simps)

lemma create_keeps: "slot_get t i = Some p \<Longrightarrow> slot_get (snd (pipe_create t)) i = Some p"
  unfolding pipe_create_def by (rule slots.insert_keeps)

lemma accepted_Cons: "accepted i (x # tr) = accepted i [x] @ accepted i tr"
  by (cases "(i, [x])" rule: accepted.cases) auto

lemma delivered_Cons: "delivered i (x # tr) = delivered i [x] @ delivered i tr"
  by (cases "(i, [x])" rule: delivered.cases) auto

lemma pipe_step_out:
  "fst (pipe_step PCreate t) = Created (fst (pipe_create t))"
  "fst (pipe_step (PWrite j d) t) = Written (fst (pipe_write j d t))"
  "fst (pipe_step (PRead j n) t) = ReadOut (fst (pipe_read j n t))"
  by (simp_all split: prod.splits)

lemma pipe_step_table:
  "snd (pipe_step PCreate t) = snd (pipe_create t)"
  "snd (pipe_step (PWrite j d) t) = snd (pipe_write j d t)"
  "snd (pipe_step (PRead j n) t) = snd (pipe_read j n t)"
  by (simp_all split: prod.splits)

lemma accepted_single:
  "accepted i [(PWrite j d, Written r)] = (if j = i \<and> is_Ok r then d else [])"
  by (cases r) auto

lemma delivered_single:
  "delivered i [(PRead j n, ReadOut r)] = (if j = i \<and> is_Ok r then ok_val r else [])"
  by (cases r) auto

lemma is_Ok_pipe_write:
  "is_Ok (fst (pipe_write i d t)) \<longleftrightarrow> (\<exists>p. slot_get t i = Some p \<and> \<not> reader_closed p)"
  by (auto simp: pipe_write_def split: option.splits)

lemma is_Ok_pipe_read:
  "is_Ok (fst (pipe_read i n t)) \<longleftrightarrow> (\<exists>p. slot_get t i = Some p \<and> (buf p \<noteq> [] \<or> writer_count p = 0))"
  by (auto simp: pipe_read_def Let_def split: option.splits)

lemma ok_val_pipe_read:
  "slot_get t i = Some p \<Longrightarrow> is_Ok (fst (pipe_read i n t)) \<Longrightarrow> ok_val (fst (pipe_read i n t)) = take n (buf p)"
  by (auto simp: pipe_read_def Let_def min_def split: if_splits)

lemmas pipe_step_facts = pipe_step_out pipe_step_table accepted_single delivered_single
  is_Ok_pipe_write is_Ok_pipe_read ok_val_pipe_read

text \<open>A freed slot stays silent until it is created again.\<close>

lemma pipe_step_dead:
  assumes "slot_get t i = None" and "fst (pipe_step p t) \<noteq> Created i"
  shows "slot_get (snd (pipe_step p t)) i = None \<and>
    accepted i [(p, fst (pipe_step p t))] = [] \<and> delivered i [(p, fst (pipe_step p t))] = []"
  using assms
  by (cases p) (auto simp: pipe_step_facts slot_simps create_get simp del: pipe_step.simps(1-3))

text \<open>On a live slot every call keeps the queue equation, or frees the slot.\<close>

lemma pipe_step_live:
  assumes "slot_get t i = Some q"
  shows "(case slot_get (snd (pipe_step p t)) i of
            None \<Rightarrow> accepted i [(p, fst (pipe_step p t))] = [] \<and> delivered i [(p, fst (pipe_step p t))] = []
          | Some q' \<Rightarrow> buf q @ accepted i [(p, fst (pipe_step p t))] =
                        delivered i [(p, fst (pipe_step p t))] @ buf q')"
proof (cases p)
  case PCreate
  then show ?thesis
    using create_keeps [OF assms] by (simp add: pipe_step_facts del: pipe_step.simps(1-3))
next
  case (PRead j n)
  then show ?thesis
    using assms by (auto simp: pipe_step_facts slot_simps simp del: pipe_step.simps(1-3))
qed (use assms in \<open>auto simp: pipe_step_facts slot_simps simp del: pipe_step.simps(1-3)\<close>)

lemma pipe_run_dead:
  "slot_get t i = None \<Longrightarrow> \<not> recreated i (fst (pipe_run ps t)) \<Longrightarrow>
     accepted i (fst (pipe_run ps t)) = [] \<and> delivered i (fst (pipe_run ps t)) = [] \<and>
     slot_get (snd (pipe_run ps t)) i = None"
proof (induction ps arbitrary: t)
  case Nil
  then show ?case by simp
next
  case (Cons p ps)
  obtain o1 t1 where s: "pipe_step p t = (o1, t1)" by force
  obtain tr t2 where r: "pipe_run ps t1 = (tr, t2)" by force
  from Cons.prems s r have "o1 \<noteq> Created i" and nr: "\<not> recreated i tr"
    by (auto simp: recreated_def)
  with pipe_step_dead [OF Cons.prems(1), of p] s have
    "slot_get t1 i = None" "accepted i [(p, o1)] = []" "delivered i [(p, o1)] = []" by simp_all
  with Cons.IH [of t1] r nr s show ?case
    using accepted_Cons [of i "(p, o1)" tr] delivered_Cons [of i "(p, o1)" tr] by simp
qed

lemma pipe_run_fifo:
  "slot_get t i = Some q \<Longrightarrow> \<not> recreated i (fst (pipe_run ps t)) \<Longrightarrow>
     (\<exists>rest. buf q @ accepted i (fst (pipe_run ps t)) = delivered i (fst (pipe_run ps t)) @ rest \<and>
        (\<forall>q'. slot_get (snd (pipe_run ps t)) i = Some q' \<longrightarrow> rest = buf q'))"
proof (induction ps arbitrary: t q)
  case Nil
  then show ?case by simp
next
  case (Cons p ps)
  obtain o1 t1 where s: "pipe_step p t = (o1, t1)" by force
  obtain tr t2 where r: "pipe_run ps t1 = (tr, t2)" by force
  from Cons.prems s r have nr: "\<not> recreated i tr"
    by (auto simp: recreated_def)
  note live = pipe_step_live [OF Cons.prems(1), of p, unfolded s, simplified]
  note split = accepted_Cons [of i "(p, o1)" tr] delivered_Cons [of i "(p, o1)" tr]
  show ?case
  proof (cases "slot_get t1 i")
    case None
    with pipe_run_dead [of t1 i ps] r nr live s split show ?thesis by simp
  next
    case (Some q1)
    with Cons.IH [of t1 q1] r nr obtain rest where
      "buf q1 @ accepted i tr = delivered i tr @ rest"
      "\<forall>q'. slot_get t2 i = Some q' \<longrightarrow> rest = buf q'" by auto
    moreover from live Some have "buf q @ accepted i [(p, o1)] = delivered i [(p, o1)] @ buf q1" by simp
    ultimately show ?thesis
      using s r split by (metis append.assoc fst_conv old.prod.case pipe_run.simps(2) snd_conv)
  qed
qed

section \<open>Properties\<close>

text \<open>
  C2: A pipe is a FIFO byte queue whatever else happens to the table: from the moment a pipe is
  created, and for any sequence of calls on this and other pipes that does not reuse its identifier
  for a new pipe, the bytes its reads delivered are, in order, an initial part of the bytes its
  writes accepted, and what is missing is exactly what a live pipe still buffers.
\<close>

theorem pipe_fifo_order:
  assumes "pipe_create t = (i, t1)" and "pipe_run ps t1 = (tr, t2)" and "\<not> recreated i tr"
  shows "\<exists>rest. accepted i tr = delivered i tr @ rest \<and>
    (\<forall>q. slot_get t2 i = Some q \<longrightarrow> rest = buf q)"
proof -
  from assms(1) have "slot_get t1 i = Some \<lparr>buf = [], writer_count = 1, reader_closed = False\<rparr>"
    using create_get [of t i] by simp
  from pipe_run_fifo [OF this, of ps] assms(2,3) show ?thesis by simp
qed

definition pipe_demo :: "pipe_op list" where
  "pipe_demo = [PWrite 0 [1, 2], PCreate, PWrite 1 [9], PRead 0 1, PWrite 0 [3], PCloseWriter 0]"

theorem pipe_fifo_order_witness:
  "\<exists>rest. accepted 0 (fst (pipe_run pipe_demo [Some \<lparr>buf = [], writer_count = 1, reader_closed = False\<rparr>])) =
     [1] @ rest \<and> rest = [2, 3]"
  using pipe_fifo_order [of "[]" 0 "[Some \<lparr>buf = [], writer_count = 1, reader_closed = False\<rparr>]" pipe_demo]
  by (auto simp: pipe_demo_def pipe_create_def slot_insert_def slot_get_def pipe_write_def pipe_read_def
      close_writer_def recreated_def)

end
