(* ===== verification/Vma.thy ===== *)
theory Vma
  imports User_Ptr
begin

text \<open>
  \<^verbatim>\<open>kernel/src/vma.rs\<close>: the list of virtual memory areas of a process, and the VMA side of
  \<^verbatim>\<open>sys_mmap\<close> and \<^verbatim>\<open>sys_munmap\<close> (\<^verbatim>\<open>kernel/src/syscall/misc.rs\<close>). The abstract view of a list is
  the partial map from addresses to the attributes of the area that holds them; insertion is map
  override and range removal is map restriction. The page tables behind the two system calls are
  a parameter.
\<close>

section \<open>Areas\<close>

datatype VmaKind = Anonymous | ElfLoad | UserStack

record VmaProt =
  prot_read :: bool
  prot_write :: bool
  prot_execute :: bool

definition from_elf_flags :: "u32 \<Rightarrow> VmaProt" where
  "from_elf_flags flags = \<lparr>prot_read = (flags AND 4) \<noteq> 0, prot_write = (flags AND 2) \<noteq> 0,
     prot_execute = (flags AND 1) \<noteq> 0\<rparr>"

definition read_write :: VmaProt where
  "read_write = \<lparr>prot_read = True, prot_write = True, prot_execute = False\<rparr>"

definition read_only :: VmaProt where
  "read_only = \<lparr>prot_read = True, prot_write = False, prot_execute = False\<rparr>"

record Vma =
  vstart :: u64
  vend :: u64
  vprot :: VmaProt
  vkind :: VmaKind
  vname :: string

definition vma_size :: "Vma \<Rightarrow> u64 option" where
  "vma_size v = csub (vend v) (vstart v)"

definition overlaps :: "Vma \<Rightarrow> Vma \<Rightarrow> bool" where
  "overlaps v w = (vstart v < vend w \<and> vstart w < vend v)"

section \<open>The list\<close>

text \<open>
  \<^verbatim>\<open>partition_point\<close> on a list sorted by start is the length of the prefix that satisfies the
  predicate.
\<close>

definition vma_insert :: "Vma \<Rightarrow> Vma list \<Rightarrow> (string, unit) res \<times> Vma list" where
  "vma_insert vma vmas =
     (if \<exists>e\<in>set vmas. overlaps vma e then (Err ''VMA overlaps with existing region'', vmas)
      else let pos = length (takeWhile (\<lambda>v. vstart v < vstart vma) vmas) in
        (Ok (), take pos vmas @ vma # drop pos vmas))"

text \<open>
  The loop of \<^verbatim>\<open>find_free_region\<close>. Leaving the loop is the empty list; \<^verbatim>\<open>candidate + size\<close>
  panics on overflow.
\<close>

fun find_free_from :: "u64 \<Rightarrow> u64 \<Rightarrow> u64 \<Rightarrow> u64 \<Rightarrow> Vma list \<Rightarrow> (SyscallError, u64 option) res" where
  "find_free_from sz base limit candidate [] =
     res_bind (or_panic (cadd candidate sz))
       (\<lambda>e. Ok (if e \<le> limit then Some candidate else None))"
| "find_free_from sz base limit candidate (v # vs) =
     (if vend v \<le> base then find_free_from sz base limit candidate vs
      else if vstart v \<ge> limit then find_free_from sz base limit candidate []
      else if vstart v > candidate \<and> vstart v - candidate \<ge> sz then Ok (Some candidate)
      else find_free_from sz base limit (if vend v > candidate then vend v else candidate) vs)"

definition find_free_region :: "u64 \<Rightarrow> u64 \<Rightarrow> u64 \<Rightarrow> Vma list \<Rightarrow> (SyscallError, u64 option) res" where
  "find_free_region sz base limit vmas = find_free_from sz base limit base vmas"

text \<open>What one area contributes to \<^verbatim>\<open>new_vmas\<close> and to \<^verbatim>\<open>removed\<close>.\<close>

definition cut_vma :: "u64 \<Rightarrow> u64 \<Rightarrow> Vma \<Rightarrow> Vma list \<times> Vma list" where
  "cut_vma s e vma =
     (if vend vma \<le> s \<or> vstart vma \<ge> e then ([vma], [])
      else if vstart vma \<ge> s \<and> vend vma \<le> e then ([], [vma])
      else if vstart vma < s \<and> vend vma > e then ([vma\<lparr>vend := s\<rparr>, vma\<lparr>vstart := e\<rparr>], [vma])
      else if vstart vma < s then ([vma\<lparr>vend := s\<rparr>], [vma])
      else ([vma\<lparr>vstart := e\<rparr>], [vma]))"

fun remove_range :: "u64 \<Rightarrow> u64 \<Rightarrow> Vma list \<Rightarrow> Vma list \<times> Vma list" where
  "remove_range s e [] = ([], [])"
| "remove_range s e (vma # vmas) =
     (case cut_vma s e vma of (kept, gone) \<Rightarrow>
        (case remove_range s e vmas of (new_vmas, removed) \<Rightarrow> (kept @ new_vmas, gone @ removed)))"

section \<open>Invariant and abstraction\<close>

text \<open>Areas are non-empty, sorted by address and disjoint.\<close>

fun vma_wf :: "Vma list \<Rightarrow> bool" where
  "vma_wf [] = True"
| "vma_wf (v # vs) = (vstart v < vend v \<and> (\<forall>w\<in>set vs. vend v \<le> vstart w) \<and> vma_wf vs)"

definition in_vma :: "u64 \<Rightarrow> Vma \<Rightarrow> bool" where
  "in_vma a v = (vstart v \<le> a \<and> a < vend v)"

type_synonym vma_attr = "VmaProt \<times> VmaKind \<times> string"

definition vma_attr_of :: "Vma \<Rightarrow> vma_attr" where
  "vma_attr_of v = (vprot v, vkind v, vname v)"

fun vma_map :: "Vma list \<Rightarrow> u64 \<Rightarrow> vma_attr option" where
  "vma_map [] a = None"
| "vma_map (v # vs) a = (if in_vma a v then Some (vma_attr_of v) else vma_map vs a)"

lemma vma_wf_append:
  "vma_wf (xs @ ys) \<longleftrightarrow> vma_wf xs \<and> vma_wf ys \<and> (\<forall>v\<in>set xs. \<forall>w\<in>set ys. vend v \<le> vstart w)"
  by (induction xs) auto

lemma vma_wf_nonempty: "vma_wf vs \<Longrightarrow> v \<in> set vs \<Longrightarrow> vstart v < vend v"
  by (induction vs) auto

lemma vma_map_append: "vma_map (xs @ ys) a = (case vma_map xs a of None \<Rightarrow> vma_map ys a | Some t \<Rightarrow> Some t)"
  by (induction xs) auto

lemma vma_map_None_iff: "vma_map vs a = None \<longleftrightarrow> (\<forall>v\<in>set vs. \<not> in_vma a v)"
  by (induction vs) auto

section \<open>Insertion\<close>

lemma takeWhile_before:
  assumes "vma_wf vs" and "\<forall>e\<in>set vs. \<not> overlaps v e" and "vstart v < vend v"
    and "w \<in> set (takeWhile (\<lambda>x. vstart x < vstart v) vs)"
  shows "vend w \<le> vstart v"
proof -
  from assms(4) have "w \<in> set vs" "vstart w < vstart v"
    by (auto dest: set_takeWhileD)
  with assms(2,3) show ?thesis
    by (fastforce simp: overlaps_def not_less)
qed

lemma dropWhile_after:
  assumes "vma_wf vs" and "\<forall>e\<in>set vs. \<not> overlaps v e" and "vstart v < vend v"
    and "w \<in> set (dropWhile (\<lambda>x. vstart x < vstart v) vs)"
  shows "vend v \<le> vstart w"
  using assms
proof (induction vs)
  case Nil
  then show ?case by simp
next
  case (Cons x xs)
  show ?case
  proof (cases "vstart x < vstart v")
    case True
    with Cons show ?thesis by simp
  next
    case False
    with Cons.prems have "vend v \<le> vstart x"
      by (fastforce simp: overlaps_def not_less)
    moreover have "vstart x \<le> vstart w"
      using Cons.prems False by (auto intro: order_trans less_imp_le)
    ultimately show ?thesis by simp
  qed
qed

lemma vma_insert_ok:
  "\<forall>e\<in>set vs. \<not> overlaps v e \<Longrightarrow>
     vma_insert v vs = (Ok (), takeWhile (\<lambda>x. vstart x < vstart v) vs @ v # dropWhile (\<lambda>x. vstart x < vstart v) vs)"
  by (simp add: vma_insert_def Let_def takeWhile_eq_take [symmetric] dropWhile_eq_drop [symmetric])

lemma vma_insert_err:
  "\<exists>e\<in>set vs. overlaps v e \<Longrightarrow> vma_insert v vs = (Err ''VMA overlaps with existing region'', vs)"
  by (simp add: vma_insert_def)

lemma vma_insert_Ok_iff: "fst (vma_insert v vs) = Ok () \<longleftrightarrow> (\<forall>e\<in>set vs. \<not> overlaps v e)"
  by (simp add: vma_insert_def Let_def)

lemma vma_insert_wf:
  assumes "vma_wf vs" and "vstart v < vend v"
  shows "vma_wf (snd (vma_insert v vs))"
proof (cases "\<forall>e\<in>set vs. \<not> overlaps v e")
  case False
  with assms show ?thesis by (simp add: vma_insert_err)
next
  case True
  let ?tw = "takeWhile (\<lambda>x. vstart x < vstart v) vs" and ?dw = "dropWhile (\<lambda>x. vstart x < vstart v) vs"
  have "vma_wf (?tw @ ?dw)" using assms(1) by simp
  then have "vma_wf ?tw" "vma_wf ?dw" "\<forall>x\<in>set ?tw. \<forall>w\<in>set ?dw. vend x \<le> vstart w"
    unfolding vma_wf_append by blast+
  then show ?thesis
    using takeWhile_before [OF assms(1) True assms(2)] dropWhile_after [OF assms(1) True assms(2)] assms(2)
    by (simp add: vma_insert_ok [OF True] vma_wf_append)
qed

lemma vma_insert_map:
  assumes "\<forall>e\<in>set vs. \<not> overlaps v e"
  shows "vma_map (snd (vma_insert v vs)) a = (if in_vma a v then Some (vma_attr_of v) else vma_map vs a)"
proof -
  let ?tw = "takeWhile (\<lambda>x. vstart x < vstart v) vs" and ?dw = "dropWhile (\<lambda>x. vstart x < vstart v) vs"
  have "vma_map ?tw a = None" if "in_vma a v"
    unfolding vma_map_None_iff
  proof
    fix w assume "w \<in> set ?tw"
    then have "w \<in> set vs" by (rule set_takeWhileD [THEN conjunct1])
    with assms have "\<not> overlaps v w" by simp
    with that show "\<not> in_vma a w"
      by (auto simp: in_vma_def overlaps_def)
  qed
  moreover have "vma_map vs a = vma_map (?tw @ ?dw) a" by simp
  ultimately show ?thesis
    unfolding vma_map_append by (simp add: vma_insert_ok [OF assms] vma_map_append split: option.split)
qed

section \<open>Removal\<close>

lemma cut_vma_parts:
  assumes "vstart v < vend v" and "s < e" and "w \<in> set (fst (cut_vma s e v))"
  shows "vstart v \<le> vstart w \<and> vend w \<le> vend v \<and> vstart w < vend w"
  using assms by (auto simp: cut_vma_def split: if_splits)

lemma cut_vma_wf:
  assumes "vstart v < vend v" and "s < e"
  shows "vma_wf (fst (cut_vma s e v))"
  using assms by (auto simp: cut_vma_def)

lemma cut_vma_map:
  assumes "vstart v < vend v" and "s < e"
  shows "vma_map (fst (cut_vma s e v)) a = (if s \<le> a \<and> a < e then None else vma_map [v] a)"
  using assms by (auto simp: cut_vma_def in_vma_def vma_attr_of_def)

lemma remove_range_parts:
  assumes "vma_wf vs" and "s < e" and "w \<in> set (fst (remove_range s e vs))"
  shows "\<exists>v\<in>set vs. vstart v \<le> vstart w \<and> vend w \<le> vend v"
  using assms
proof (induction vs)
  case (Cons v vs)
  then show ?case
    using cut_vma_parts [of v s e w] by (auto split: prod.splits)
qed simp

lemma remove_range_wf:
  assumes "vma_wf vs" and "s < e"
  shows "vma_wf (fst (remove_range s e vs))"
  using assms
proof (induction vs)
  case (Cons v vs)
  have "vend x \<le> vstart w" if x: "x \<in> set (fst (cut_vma s e v))" and w: "w \<in> set (fst (remove_range s e vs))" for x w
  proof -
    from w Cons.prems obtain u where "u \<in> set vs" "vstart u \<le> vstart w"
      using remove_range_parts [of vs s e w] by auto
    moreover from x Cons.prems have "vend x \<le> vend v"
      using cut_vma_parts [of v s e x] by auto
    ultimately show ?thesis
      using Cons.prems(1) by (auto intro: order_trans)
  qed
  with Cons show ?case
    using cut_vma_wf [of v s e] by (auto simp: vma_wf_append split: prod.splits)
qed simp

lemma remove_range_map:
  assumes "vma_wf vs" and "s < e"
  shows "vma_map (fst (remove_range s e vs)) a = (if s \<le> a \<and> a < e then None else vma_map vs a)"
  using assms
proof (induction vs)
  case (Cons v vs)
  from Cons.prems have "vstart v < vend v" by simp
  with Cons show ?case
    using cut_vma_map [of v s e a] by (auto simp: vma_map_append split: prod.splits option.splits)
qed simp

text \<open>\<^verbatim>\<open>removed\<close> lists the original areas that met the range.\<close>

lemma remove_range_removed:
  "snd (remove_range s e vs) = filter (\<lambda>v. \<not> (vend v \<le> s \<or> vstart v \<ge> e)) vs"
  by (induction vs) (auto simp: cut_vma_def split: prod.splits)

section \<open>Searching\<close>

text \<open>The range of \<open>sz\<close> bytes from \<open>x\<close> lies in the window and meets no area.\<close>

definition region_fits :: "u64 \<Rightarrow> u64 \<Rightarrow> u64 \<Rightarrow> Vma list \<Rightarrow> u64 \<Rightarrow> bool" where
  "region_fits sz base limit vmas x \<longleftrightarrow>
     base \<le> x \<and> unat x + unat sz \<le> unat limit \<and>
     (\<forall>v\<in>set vmas. unat x + unat sz \<le> unat (vstart v) \<or> vend v \<le> x)"

lemma gap_iff:
  "c < st \<and> sz \<le> st - c \<longleftrightarrow> c < st \<and> unat c + unat sz \<le> unat st" for c st sz :: u64
  by (auto simp: word_less_nat_alt word_le_nat_alt unat_sub)

lemma find_free_from_sound:
  assumes "vma_wf vs" and "base \<le> candidate" and "find_free_from sz base limit candidate vs = Ok (Some c)"
  shows "candidate \<le> c \<and> region_fits sz base limit vs c"
  using assms
proof (induction vs arbitrary: candidate)
  case Nil
  then show ?case
    by (auto simp: region_fits_def res_bind_Ok_iff or_panic_eq_iff word_le_nat_alt dest: unat_cadd split: if_splits)
next
  case (Cons v vs)
  consider (skip) "vend v \<le> base" | (stop) "\<not> vend v \<le> base" "vstart v \<ge> limit"
    | (hit) "\<not> vend v \<le> base" "\<not> vstart v \<ge> limit" "vstart v > candidate \<and> vstart v - candidate \<ge> sz"
    | (go_on) "\<not> vend v \<le> base" "\<not> vstart v \<ge> limit" "\<not> (vstart v > candidate \<and> vstart v - candidate \<ge> sz)"
    by blast
  then show ?case
  proof cases
    case skip
    with Cons.prems Cons.IH [of candidate] have "candidate \<le> c \<and> region_fits sz base limit vs c" by simp
    with skip Cons.prems(2) show ?thesis by (auto simp: region_fits_def)
  next
    case stop
    then have c: "find_free_from sz base limit candidate [] = Ok (Some c)"
      using Cons.prems(3) by simp
    then have "candidate = c" "unat c + unat sz \<le> unat limit"
      by (auto simp: res_bind_Ok_iff or_panic_eq_iff word_le_nat_alt dest: unat_cadd split: if_splits)
    moreover have "\<forall>w\<in>set (v # vs). limit \<le> vstart w"
      using Cons.prems(1) stop by (auto intro: order_trans less_imp_le)
    ultimately show ?thesis
      using Cons.prems(2) by (auto simp: region_fits_def word_le_nat_alt)
  next
    case hit
    then have "c = candidate" and g: "unat candidate + unat sz \<le> unat (vstart v)"
      using Cons.prems(3) gap_iff [of candidate "vstart v" sz] by auto
    moreover have "\<forall>w\<in>set (v # vs). vstart v \<le> vstart w"
      using Cons.prems(1) by (auto intro: order_trans less_imp_le)
    ultimately show ?thesis
      using Cons.prems(2) hit(2) by (auto simp: region_fits_def word_le_nat_alt not_le)
  next
    case go_on
    let ?c = "if vend v > candidate then vend v else candidate"
    from go_on Cons.prems have "find_free_from sz base limit ?c vs = Ok (Some c)" "vma_wf vs" "base \<le> ?c"
      by (auto intro: order_trans less_imp_le)
    from Cons.IH [OF this(2,3,1)] show ?thesis
      by (auto simp: region_fits_def split: if_splits)
  qed
qed

lemma find_free_from_least:
  assumes "region_fits sz base limit vs x" and "candidate \<le> x" and "0 < sz"
    and "find_free_from sz base limit candidate vs = Ok r"
  shows "\<exists>c. r = Some c \<and> c \<le> x"
  using assms
proof (induction vs arbitrary: candidate)
  case Nil
  then show ?case
    by (auto simp: region_fits_def res_bind_Ok_iff or_panic_eq_iff word_le_nat_alt dest!: unat_cadd)
next
  case (Cons v vs)
  have fits: "region_fits sz base limit vs x" and v: "unat x + unat sz \<le> unat (vstart v) \<or> vend v \<le> x"
    using Cons.prems(1) by (auto simp: region_fits_def)
  have nil: "find_free_from sz base limit candidate [] = Ok r \<Longrightarrow> \<exists>c. r = Some c \<and> c \<le> x"
    using Cons.prems(1,2)
    by (auto simp: region_fits_def res_bind_Ok_iff or_panic_eq_iff word_le_nat_alt dest!: unat_cadd)
  show ?case
  proof (cases "vend v \<le> base \<or> vstart v \<ge> limit \<or> vstart v > candidate \<and> vstart v - candidate \<ge> sz")
    case True
    with Cons.prems Cons.IH [OF fits] nil show ?thesis by (auto split: if_splits)
  next
    case False
    have "\<not> unat x + unat sz \<le> unat (vstart v)"
      using False gap_iff [of candidate "vstart v" sz] Cons.prems(2,3)
      by (auto simp: word_le_nat_alt word_less_nat_alt)
    with v have "(if vend v > candidate then vend v else candidate) \<le> x"
      using Cons.prems(2) by auto
    with Cons.IH [OF fits] Cons.prems False show ?thesis by (auto split: if_splits)
  qed
qed

section \<open>System calls\<close>

definition MMAP_PROT_READ :: u64 where "MMAP_PROT_READ = 0x1"
definition MMAP_PROT_WRITE :: u64 where "MMAP_PROT_WRITE = 0x2"
definition MMAP_FLAG_ANONYMOUS :: u64 where "MMAP_FLAG_ANONYMOUS = 0x1"
definition MMAP_VADDR_BASE :: u64 where "MMAP_VADDR_BASE = 0x10000000000"
definition MMAP_VADDR_LIMIT :: u64 where "MMAP_VADDR_LIMIT = 0x20000000000"

lemmas mmap_consts = MMAP_PROT_READ_def MMAP_PROT_WRITE_def MMAP_FLAG_ANONYMOUS_def
  MMAP_VADDR_BASE_def MMAP_VADDR_LIMIT_def

text \<open>
  The part of \<^verbatim>\<open>UserProcess\<close> the two calls touch; the current task has none when it is a kernel
  task or a thread. Frames are named by their start address.
\<close>

record 'pt user_process =
  page_table :: 'pt
  allocated_frames :: "u64 list"
  vma_list :: "Vma list"

definition mmap_vma :: "u64 \<Rightarrow> u64 \<Rightarrow> bool \<Rightarrow> Vma" where
  "mmap_vma s e writable = \<lparr>vstart = s, vend = e,
     vprot = \<lparr>prot_read = True, prot_write = writable, prot_execute = False\<rparr>,
     vkind = Anonymous, vname = ''[anon]''\<rparr>"

definition mmap_target :: "u64 \<Rightarrow> u64 \<Rightarrow> Vma list \<Rightarrow> (SyscallError, u64) res" where
  "mmap_target addr_hint aligned_size vmas =
     (if addr_hint \<noteq> 0 then
        res_bind (or_panic (cadd addr_hint 4095)) (\<lambda>h.
          let aligned = h AND NOT 4095 in
          if aligned < MMAP_VADDR_BASE then Err InvalidAddress
          else res_bind (or_panic (cadd aligned aligned_size)) (\<lambda>e.
            if e > MMAP_VADDR_LIMIT then Err InvalidAddress else Ok aligned))
      else res_bind (find_free_region aligned_size MMAP_VADDR_BASE MMAP_VADDR_LIMIT vmas)
        (\<lambda>r. case r of None \<Rightarrow> Err Other | Some a \<Rightarrow> Ok a))"

text \<open>
  \<open>map_pages\<close> stands for \<^verbatim>\<open>map_anonymous_pages_in_process\<close> (\<^verbatim>\<open>None\<close> when it runs out of frames
  and panics) and \<open>unmap_pages\<close> for \<^verbatim>\<open>unmap_pages_in_process\<close>; both return the frames concerned.
\<close>

definition sys_mmap ::
  "('pt \<Rightarrow> u64 \<Rightarrow> u64 \<Rightarrow> bool \<Rightarrow> ('pt \<times> u64 list) option) \<Rightarrow> u64 \<Rightarrow> u64 \<Rightarrow> u64 \<Rightarrow> u64 \<Rightarrow>
     'pt user_process option \<Rightarrow> (SyscallError, u64) res \<times> 'pt user_process option" where
  "sys_mmap map_pages addr_hint len prot flags cur =
     (if len = 0 then (Err InvalidArgument, cur)
      else if (flags AND MMAP_FLAG_ANONYMOUS) = 0 then (Err NotSupported, cur)
      else if (prot AND MMAP_PROT_READ) = 0 then (Err InvalidArgument, cur)
      else
        let writable = (prot AND MMAP_PROT_WRITE) \<noteq> 0 in
        case cadd len 4095 of None \<Rightarrow> (Panic, cur) | Some l \<Rightarrow>
        let num_pages = l div 4096 in
        case cmul num_pages 4096 of None \<Rightarrow> (Panic, cur) | Some aligned_size \<Rightarrow>
        case cur of None \<Rightarrow> (Err NotSupported, cur) | Some p \<Rightarrow>
        case mmap_target addr_hint aligned_size (vma_list p) of
          Err e \<Rightarrow> (Err e, cur)
        | Panic \<Rightarrow> (Panic, cur)
        | Ok virt_addr \<Rightarrow>
            (case map_pages (page_table p) virt_addr num_pages writable of
               None \<Rightarrow> (Panic, cur)
             | Some (pt', allocated) \<Rightarrow>
                 (case cadd virt_addr aligned_size of
                    None \<Rightarrow> (Panic, cur)
                  | Some e \<Rightarrow>
                      (Ok virt_addr,
                       Some \<lparr>page_table = pt',
                         allocated_frames = allocated_frames p @ allocated,
                         vma_list = snd (vma_insert (mmap_vma virt_addr e writable) (vma_list p))\<rparr>))))"

definition sys_munmap ::
  "('pt \<Rightarrow> u64 \<Rightarrow> u64 \<Rightarrow> 'pt \<times> u64 list) \<Rightarrow> u64 \<Rightarrow> u64 \<Rightarrow>
     'pt user_process option \<Rightarrow> (SyscallError, u64) res \<times> 'pt user_process option" where
  "sys_munmap unmap_pages addr len cur =
     (if (addr AND 0xFFF) \<noteq> 0 then (Err MisalignedPointer, cur)
      else if len = 0 then (Err InvalidArgument, cur)
      else if addr < MMAP_VADDR_BASE then (Err InvalidAddress, cur)
      else case cadd addr len of None \<Rightarrow> (Panic, cur) | Some e \<Rightarrow>
        if e > MMAP_VADDR_LIMIT then (Err InvalidAddress, cur)
        else case cadd len 4095 of None \<Rightarrow> (Panic, cur) | Some l \<Rightarrow>
        let num_pages = l div 4096 in
        case cmul num_pages 4096 of None \<Rightarrow> (Panic, cur) | Some n \<Rightarrow>
        case cadd addr n of None \<Rightarrow> (Panic, cur) | Some aligned_end \<Rightarrow>
        case cur of None \<Rightarrow> (Err NotSupported, cur) | Some p \<Rightarrow>
          (case unmap_pages (page_table p) addr num_pages of (pt', freed) \<Rightarrow>
             (Ok 0,
              Some \<lparr>page_table = pt',
                allocated_frames = filter (\<lambda>f. f \<notin> set freed) (allocated_frames p),
                vma_list = fst (remove_range addr aligned_end (vma_list p))\<rparr>)))"

section \<open>The address-space contract\<close>

text \<open>
  What the memory system calls rely on: the areas form a partial map from addresses, a range that
  the search returns can be inserted, insertion and removal act on the map as override and
  restriction, and all of them keep the invariant.
\<close>

locale area_map =
  fixes inv :: "'t \<Rightarrow> bool"
    and look :: "'t \<Rightarrow> u64 \<Rightarrow> 'v option"
    and area :: "'a \<Rightarrow> u64 \<Rightarrow> bool"
    and attr :: "'a \<Rightarrow> 'v"
    and good :: "'a \<Rightarrow> bool"
    and clash :: "'a \<Rightarrow> 't \<Rightarrow> bool"
    and ins :: "'a \<Rightarrow> 't \<Rightarrow> 't"
    and del :: "u64 \<Rightarrow> u64 \<Rightarrow> 't \<Rightarrow> 't"
  assumes ins_inv: "inv t \<Longrightarrow> good a \<Longrightarrow> inv (ins a t)"
    and del_inv: "inv t \<Longrightarrow> s < e \<Longrightarrow> inv (del s e t)"
    and look_ins: "\<not> clash a t \<Longrightarrow> look (ins a t) x = (if area a x then Some (attr a) else look t x)"
    and ins_clash: "clash a t \<Longrightarrow> ins a t = t"
    and look_del: "inv t \<Longrightarrow> s < e \<Longrightarrow> look (del s e t) x = (if s \<le> x \<and> x < e then None else look t x)"
    and clash_iff: "inv t \<Longrightarrow> good a \<Longrightarrow> clash a t \<longleftrightarrow> (\<exists>x. area a x \<and> look t x \<noteq> None)"
begin

text \<open>Mapping a free area and unmapping exactly it restores the address space.\<close>

lemma ins_del_restores:
  assumes "inv t" and "good a" and "\<not> clash a t" and "\<And>x. area a x \<longleftrightarrow> s \<le> x \<and> x < e" and "s < e"
  shows "look (del s e (ins a t)) = look t"
proof
  fix x
  have "look t x = None" if "area a x"
    using assms(1-3) that clash_iff by blast
  then show "look (del s e (ins a t)) x = look t x"
    using assms(4) look_del [OF ins_inv [OF assms(1,2)] assms(5)] look_ins [OF assms(3)] by auto
qed

text \<open>After a range has been removed, an area inside it can be inserted.\<close>

lemma del_makes_room:
  assumes "inv t" and "good a" and "s < e" and "\<And>x. area a x \<Longrightarrow> s \<le> x \<and> x < e"
  shows "\<not> clash a (del s e t)"
  using assms by (auto simp: clash_iff [OF del_inv [OF assms(1,3)] assms(2)] look_del)

end

lemma overlaps_iff_map:
  assumes "vma_wf vs" and "vstart v < vend v"
  shows "(\<exists>w\<in>set vs. overlaps v w) \<longleftrightarrow> (\<exists>x. in_vma x v \<and> vma_map vs x \<noteq> None)"
proof
  assume "\<exists>w\<in>set vs. overlaps v w"
  then obtain w where w: "w \<in> set vs" "overlaps v w" by blast
  with vma_wf_nonempty [OF assms(1) w(1)] assms(2)
  have "in_vma (max (vstart v) (vstart w)) v \<and> in_vma (max (vstart v) (vstart w)) w"
    by (auto simp: overlaps_def in_vma_def max_def)
  with w(1) show "\<exists>x. in_vma x v \<and> vma_map vs x \<noteq> None"
    unfolding vma_map_None_iff by blast
next
  assume "\<exists>x. in_vma x v \<and> vma_map vs x \<noteq> None"
  then obtain x w where "in_vma x v" "w \<in> set vs" "in_vma x w"
    unfolding vma_map_None_iff by blast
  then have "overlaps v w"
    by (auto simp: overlaps_def in_vma_def intro: le_less_trans)
  with \<open>w \<in> set vs\<close> show "\<exists>w\<in>set vs. overlaps v w" by blast
qed

interpretation areas: area_map vma_wf vma_map "\<lambda>v x. in_vma x v" vma_attr_of "\<lambda>v. vstart v < vend v"
  "\<lambda>v vs. \<exists>w\<in>set vs. overlaps v w" "\<lambda>v vs. snd (vma_insert v vs)" "\<lambda>s e vs. fst (remove_range s e vs)"
  by unfold_locales
    (simp_all add: vma_insert_wf remove_range_wf vma_insert_map remove_range_map vma_insert_err overlaps_iff_map
      del: Option.not_None_eq)

section \<open>System calls on the contract\<close>

lemma find_free_from_total:
  assumes "unat candidate + unat sz < 2 ^ 64" and "\<forall>v\<in>set vs. unat (vend v) + unat sz < 2 ^ 64"
  shows "\<exists>r. find_free_from sz base limit candidate vs = Ok r"
  using assms
proof (induction vs arbitrary: candidate)
  case Nil
  then show ?case by (simp add: cadd_def)
next
  case (Cons v vs)
  from Cons.prems(1) have "\<exists>r. find_free_from sz base limit candidate [] = Ok r"
    by (simp add: cadd_def)
  with Cons show ?case by simp
qed

lemma region_fits_disjoint:
  assumes "region_fits sz base limit vs a" and "cadd a sz = Some e" and "w \<in> set vs"
  shows "\<not> overlaps (mmap_vma a e wr) w"
proof -
  from assms(1,3) have "unat a + unat sz \<le> unat (vstart w) \<or> vend w \<le> a"
    by (auto simp: region_fits_def)
  with unat_cadd [OF assms(2)] show ?thesis
    by (auto simp: overlaps_def mmap_vma_def word_le_nat_alt not_less)
qed

lemma attr_mmap_vma:
  "vma_attr_of (mmap_vma s e w) =
     (\<lparr>prot_read = True, prot_write = w, prot_execute = False\<rparr>, Anonymous, ''[anon]'')"
  by (simp add: vma_attr_of_def mmap_vma_def)

lemma mmap_aligned_size:
  fixes len l n :: u64
  assumes "cadd len 4095 = Some l" and "cmul (l div 4096) 4096 = Some n" and "len \<noteq> 0"
  shows "unat n = (unat len + 4095) div 4096 * 4096" and "0 < n"
proof -
  show u: "unat n = (unat len + 4095) div 4096 * 4096"
    using unat_cmul [OF assms(2)] unat_cadd [OF assms(1)] by (simp add: unat_div)
  have "0 < unat len" using assms(3) by (simp add: unat_gt_0)
  then have "0 < (unat len + 4095) div 4096" by simp
  with u have "0 < unat n" by linarith
  then show "0 < n" by (simp add: word_less_nat_alt)
qed

lemma sys_mmap_OkD:
  assumes "sys_mmap mp hint len prot flags (Some p) = (Ok va, cur')"
  obtains l n e pt' fr where "len \<noteq> 0" "cadd len 4095 = Some l" "cmul (l div 4096) 4096 = Some n"
    "mmap_target hint n (vma_list p) = Ok va" "cadd va n = Some e"
    "mp (page_table p) va (l div 4096) ((prot AND MMAP_PROT_WRITE) \<noteq> 0) = Some (pt', fr)"
    "cur' = Some \<lparr>page_table = pt', allocated_frames = allocated_frames p @ fr,
       vma_list = snd (vma_insert (mmap_vma va e ((prot AND MMAP_PROT_WRITE) \<noteq> 0)) (vma_list p))\<rparr>"
  using assms
  by (auto simp: sys_mmap_def Let_def split: if_splits option.splits res.splits prod.splits)

lemma sys_munmap_OkD:
  assumes "sys_munmap up addr len (Some p) = (Ok r, cur')"
  obtains l n e pt' fr where "len \<noteq> 0" "cadd len 4095 = Some l" "cmul (l div 4096) 4096 = Some n"
    "cadd addr n = Some e" "up (page_table p) addr (l div 4096) = (pt', fr)"
    "cur' = Some \<lparr>page_table = pt', allocated_frames = filter (\<lambda>f. f \<notin> set fr) (allocated_frames p),
       vma_list = fst (remove_range addr e (vma_list p))\<rparr>"
  using assms
  by (auto simp: sys_munmap_def Let_def split: if_splits option.splits res.splits prod.splits)

lemma cadd_less: "cadd a n = Some e \<Longrightarrow> 0 < n \<Longrightarrow> a < e" for a n e :: "'a::len word"
  by (auto simp: word_less_nat_alt dest: unat_cadd)

section \<open>Properties\<close>

text \<open>
  C3: The VMA list implements a partial map from addresses to area attributes. On a sorted,
  disjoint list of non-empty areas, insertion succeeds exactly when no address of the new area is
  mapped and then overrides the map on that area, a rejected insertion changes nothing, range
  removal (with its splitting and trimming) unmaps exactly the range and keeps the attributes
  everywhere else, and both keep the list sorted and disjoint.
\<close>

theorem vma_list_implements_map:
  assumes "vma_wf vs" and "vstart v < vend v" and "s < e"
  shows "vma_wf (snd (vma_insert v vs)) \<and> vma_wf (fst (remove_range s e vs)) \<and>
    (fst (vma_insert v vs) = Ok () \<longleftrightarrow> (\<forall>x. in_vma x v \<longrightarrow> vma_map vs x = None)) \<and>
    (fst (vma_insert v vs) = Ok () \<longrightarrow>
      vma_map (snd (vma_insert v vs)) = (\<lambda>x. if in_vma x v then Some (vma_attr_of v) else vma_map vs x)) \<and>
    (fst (vma_insert v vs) \<noteq> Ok () \<longrightarrow> snd (vma_insert v vs) = vs) \<and>
    vma_map (fst (remove_range s e vs)) = (\<lambda>x. if s \<le> x \<and> x < e then None else vma_map vs x)"
proof (intro conjI impI)
  show "vma_wf (snd (vma_insert v vs))" by (rule areas.ins_inv [OF assms(1,2)])
  show "vma_wf (fst (remove_range s e vs))" by (rule areas.del_inv [OF assms(1,3)])
  show "fst (vma_insert v vs) = Ok () \<longleftrightarrow> (\<forall>x. in_vma x v \<longrightarrow> vma_map vs x = None)"
    using areas.clash_iff [OF assms(1,2)] by (auto simp: vma_insert_Ok_iff)
  show "vma_map (snd (vma_insert v vs)) = (\<lambda>x. if in_vma x v then Some (vma_attr_of v) else vma_map vs x)"
    if "fst (vma_insert v vs) = Ok ()"
    using that areas.look_ins [of vs v] by (auto simp: vma_insert_Ok_iff)
  show "snd (vma_insert v vs) = vs" if "fst (vma_insert v vs) \<noteq> Ok ()"
    using that areas.ins_clash [of vs v] by (auto simp: vma_insert_Ok_iff)
  show "vma_map (fst (remove_range s e vs)) = (\<lambda>x. if s \<le> x \<and> x < e then None else vma_map vs x)"
    by (rule ext) (rule areas.look_del [OF assms(1,3)])
qed

definition demo_vma :: "u64 \<Rightarrow> u64 \<Rightarrow> Vma" where
  "demo_vma s e = \<lparr>vstart = s, vend = e, vprot = read_write, vkind = Anonymous, vname = ''[anon]''\<rparr>"

theorem vma_list_implements_map_witness:
  "vma_map (fst (remove_range 0x2000 0x3000 [demo_vma 0x1000 0x5000])) 0x2800 = None \<and>
   vma_map (fst (remove_range 0x2000 0x3000 [demo_vma 0x1000 0x5000])) 0x3000 =
     Some (vma_attr_of (demo_vma 0x1000 0x5000)) \<and>
   vma_wf (snd (vma_insert (demo_vma 0x8000 0x9000) [demo_vma 0x1000 0x5000]))"
  using vma_list_implements_map [of "[demo_vma 0x1000 0x5000]" "demo_vma 0x8000 0x9000" "0x2000" "0x3000"]
  by (simp add: demo_vma_def in_vma_def vma_attr_of_def)

text \<open>
  C4: Free-region search is an exact first fit: unless an end address plus the size exceeds 64 bits
  it returns, a returned address starts a range of the requested size inside the window that meets
  no area and is the lowest such address, and a failure means that no such range exists.
\<close>

theorem find_free_region_first_fit:
  assumes "vma_wf vs" and "0 < sz" and "unat base + unat sz < 2 ^ 64"
    and "\<forall>v\<in>set vs. unat (vend v) + unat sz < 2 ^ 64"
  shows "\<exists>r. find_free_region sz base limit vs = Ok r \<and>
    (case r of Some c \<Rightarrow> region_fits sz base limit vs c \<and> (\<forall>x. region_fits sz base limit vs x \<longrightarrow> c \<le> x)
     | None \<Rightarrow> (\<forall>x. \<not> region_fits sz base limit vs x))"
proof -
  obtain r where r: "find_free_from sz base limit base vs = Ok r"
    using find_free_from_total [OF assms(3,4)] by blast
  have least: "\<exists>c. r = Some c \<and> c \<le> x" if "region_fits sz base limit vs x" for x
    using that by (intro find_free_from_least [OF that _ assms(2) r]) (simp add: region_fits_def)
  show ?thesis
    using r least find_free_from_sound [OF assms(1) order_refl, of sz base limit]
    by (fastforce simp: find_free_region_def split: option.splits)
qed

theorem find_free_region_first_fit_witness:
  "find_free_region 0x1000 0x1000 0x9000 [demo_vma 0x1000 0x2000, demo_vma 0x2800 0x4000] = Ok (Some 0x4000) \<and>
   region_fits 0x1000 0x1000 0x9000 [demo_vma 0x1000 0x2000, demo_vma 0x2800 0x4000] 0x4000"
  using find_free_region_first_fit [of "[demo_vma 0x1000 0x2000, demo_vma 0x2800 0x4000]" "0x1000" "0x1000" "0x9000"]
  by (auto simp: demo_vma_def find_free_region_def cadd_def)


text \<open>A paging layer for concrete runs: the page table counts pages, frames are numbered.\<close>

definition demo_map_pages :: "nat \<Rightarrow> u64 \<Rightarrow> u64 \<Rightarrow> bool \<Rightarrow> (nat \<times> u64 list) option" where
  "demo_map_pages pt a n w = Some (pt + unat n, map (\<lambda>i. of_nat (pt + i) * 4096) [0..<unat n])"

definition demo_process :: "nat user_process" where
  "demo_process = \<lparr>page_table = 7, allocated_frames = [], vma_list = [demo_vma MMAP_VADDR_BASE 0x10000002000]\<rparr>"



text \<open>
  C6: Unmapping is exact: a successful \<^verbatim>\<open>sys_munmap\<close> removes precisely the page-rounded range from
  the address space, keeps every other address with its attributes even where areas are split, keeps
  the area list well-formed, and forgets exactly the frames the page tables gave back.
\<close>

theorem sys_munmap_exact:
  assumes "vma_wf (vma_list p)" and "sys_munmap up addr len (Some p) = (Ok r, Some p')"
  shows "let n = (unat len + 4095) div 4096 * 4096 in
    vma_map (vma_list p') =
      (\<lambda>x. if addr \<le> x \<and> unat x < unat addr + n then None else vma_map (vma_list p) x) \<and>
    vma_wf (vma_list p') \<and>
    set (allocated_frames p') =
      set (allocated_frames p) - set (snd (up (page_table p) addr (of_nat (n div 4096))))"
proof -
  obtain l n e pt' fr where d: "len \<noteq> 0" "cadd len 4095 = Some l" "cmul (l div 4096) 4096 = Some n"
    "cadd addr n = Some e" "up (page_table p) addr (l div 4096) = (pt', fr)"
    "p' = \<lparr>page_table = pt', allocated_frames = filter (\<lambda>f. f \<notin> set fr) (allocated_frames p),
       vma_list = fst (remove_range addr e (vma_list p))\<rparr>"
    by (rule sys_munmap_OkD [OF assms(2)]) blast
  note n = mmap_aligned_size [OF d(2,3,1)] and lt = cadd_less [OF d(4) mmap_aligned_size(2) [OF d(2,3,1)]]
  have "(unat len + 4095) div 4096 = unat (l div 4096)"
    using unat_cadd [OF d(2)] by (simp add: unat_div)
  moreover have "x < e \<longleftrightarrow> unat x < unat addr + (unat len + 4095) div 4096 * 4096" for x
    using unat_cadd [OF d(4)] n(1) by (simp add: word_less_nat_alt)
  ultimately show ?thesis
    using d(5,6) areas.del_inv [OF assms(1) lt] areas.look_del [OF assms(1) lt]
    by (auto simp: Let_def)
qed

theorem sys_munmap_exact_witness:
  "\<exists>p'. sys_munmap (\<lambda>pt a n. (pt, [0x7000])) 0x10000001000 1
      (Some (demo_process\<lparr>allocated_frames := [0x6000, 0x7000]\<rparr>)) = (Ok 0, Some p') \<and>
     vma_map (vma_list p') 0x10000001000 = None \<and> vma_map (vma_list p') 0x10000000fff \<noteq> None \<and>
     set (allocated_frames p') = {0x6000}"
proof -
  let ?p = "demo_process\<lparr>allocated_frames := [0x6000, 0x7000]\<rparr>"
  obtain p' where p': "sys_munmap (\<lambda>pt a n. (pt, [0x7000])) 0x10000001000 1 (Some ?p) = (Ok 0, Some p')"
    by (simp add: sys_munmap_def mmap_consts cadd_def cmul_def)
  have "vma_wf (vma_list ?p)"
    by (simp add: demo_process_def demo_vma_def mmap_consts)
  from sys_munmap_exact [OF this p']
  have "vma_map (vma_list p') =
      (\<lambda>x. if 0x10000001000 \<le> x \<and> unat x < 0x10000002000 then None else vma_map (vma_list demo_process) x)"
    and f: "set (allocated_frames p') = {0x6000, 0x7000} - {0x7000}"
    by (simp_all add: Let_def cong: if_cong)
  then have "vma_map (vma_list p') 0x10000001000 = None" "vma_map (vma_list p') 0x10000000fff \<noteq> None"
    by (simp_all add: demo_process_def demo_vma_def mmap_consts in_vma_def)
  moreover have "{0x6000, 0x7000} - {0x7000} = {0x6000 :: u64}" by auto
  ultimately show ?thesis
    using f p' by (intro exI [of _ p']) simp
qed

section \<open>Where the calls fall short\<close>

text \<open>
  A hinted mapping is not checked against the areas in use: it maps pages over them, reports
  success, and leaves the area list as it was because the insertion error is dropped.
\<close>

lemma sys_mmap_hint_ignores_overlap:
  "sys_mmap demo_map_pages 0x10000000000 4096 3 1 (Some demo_process) =
     (Ok 0x10000000000, Some (demo_process\<lparr>page_table := 8, allocated_frames := [0x7000]\<rparr>))"
  by (simp add: sys_mmap_def mmap_target_def demo_process_def demo_map_pages_def mmap_consts cadd_def cmul_def
      demo_vma_def vma_insert_def overlaps_def mmap_vma_def)

text \<open>A length near the top of the 64-bit range overflows inside the kernel.\<close>

lemma sys_mmap_length_overflow_panics:
  "sys_mmap mp hint (- 1) 1 1 cur = (Panic, cur)"
  "sys_munmap up MMAP_VADDR_BASE (- 1) cur = (Panic, cur)"
  by (simp_all add: sys_mmap_def sys_munmap_def mmap_consts cadd_def unsigned_minus_1_eq_mask mask_eq_exp_minus_1)

end
