(* ===== verification/Buddy_Tiling.thy ===== *)
theory Buddy_Tiling
  imports Sabos_Prelude
begin

text \<open>
  The specification of a buddy allocator over \<open>n\<close> frames: its free blocks tile the free frames.
  A block of order \<open>k\<close> at offset \<open>o\<close> covers the \<open>2 ^ k\<close> frames from \<open>o\<close>; it is aligned to its size.
  Allocation and release move one block through a state in which it is held outside the free
  lists; splitting and merging are steps on that held block. \<^verbatim>\<open>Buddy.thy\<close> shows that the allocator of
  \<^verbatim>\<open>kernel/src/memory.rs\<close> implements these steps.
\<close>

type_synonym block_set = "nat \<Rightarrow> nat \<Rightarrow> bool"

definition covers :: "nat \<Rightarrow> nat \<Rightarrow> nat \<Rightarrow> bool" where
  "covers k off f \<longleftrightarrow> off \<le> f \<and> f < off + 2 ^ k"

definition buddy :: "nat \<Rightarrow> nat \<Rightarrow> nat" where
  "buddy k off = off XOR 2 ^ k"

definition block_ok :: "nat \<Rightarrow> nat \<Rightarrow> nat \<Rightarrow> nat \<Rightarrow> bool" where
  "block_ok M n k off \<longleftrightarrow> k \<le> M \<and> 2 ^ k dvd off \<and> off + 2 ^ k \<le> n"

text \<open>Free blocks are well-formed, disjoint, and no two buddies are both free below the top order.\<close>

definition blocks_ok :: "nat \<Rightarrow> nat \<Rightarrow> block_set \<Rightarrow> bool" where
  "blocks_ok M n B \<longleftrightarrow>
     (\<forall>k off. B k off \<longrightarrow> block_ok M n k off) \<and>
     (\<forall>k off k' off' f. B k off \<and> B k' off' \<and> covers k off f \<and> covers k' off' f \<longrightarrow> k = k' \<and> off = off') \<and>
     (\<forall>k off. B k off \<and> k < M \<longrightarrow> \<not> B k (buddy k off))"

definition covered :: "block_set \<Rightarrow> nat \<Rightarrow> bool" where
  "covered B f \<longleftrightarrow> (\<exists>k off. B k off \<and> covers k off f)"

definition tiling :: "nat \<Rightarrow> nat \<Rightarrow> block_set \<Rightarrow> (nat \<Rightarrow> bool) \<Rightarrow> bool" where
  "tiling M n B used \<longleftrightarrow> blocks_ok M n B \<and>
     (\<forall>f<n. \<not> used f \<longleftrightarrow> covered B f)"

text \<open>The same with block \<open>(k, off)\<close> held by the operation in progress: its frames count as free.\<close>

definition held :: "nat \<Rightarrow> nat \<Rightarrow> block_set \<Rightarrow> (nat \<Rightarrow> bool) \<Rightarrow> nat \<Rightarrow> nat \<Rightarrow> bool" where
  "held M n B used k off \<longleftrightarrow> blocks_ok M n B \<and> block_ok M n k off \<and>
     (\<forall>f. covered B f \<longrightarrow> \<not> covers k off f) \<and>
     (\<forall>f<n. \<not> used f \<longleftrightarrow> covers k off f \<or> covered B f)"

definition add_block :: "nat \<Rightarrow> nat \<Rightarrow> block_set \<Rightarrow> block_set" where
  "add_block k off B = (\<lambda>k' off'. B k' off' \<or> k' = k \<and> off' = off)"

definition del_block :: "nat \<Rightarrow> nat \<Rightarrow> block_set \<Rightarrow> block_set" where
  "del_block k off B = (\<lambda>k' off'. B k' off' \<and> \<not> (k' = k \<and> off' = off))"

section \<open>Arithmetic of buddies\<close>

lemma buddy_buddy: "buddy k (buddy k off) = off"
  by (simp add: buddy_def xor.assoc)

lemma buddy_even: "buddy k (2 ^ Suc k * r) = 2 ^ Suc k * r + 2 ^ k"
proof -
  have "\<not> bit (2 ^ Suc k * r :: nat) k"
    by (simp add: bit_iff_odd mult.assoc)
  moreover have "buddy k (2 ^ Suc k * r) = flip_bit k (2 ^ Suc k * r)"
    by (simp add: buddy_def flip_bit_eq_xor push_bit_of_1)
  ultimately show ?thesis
    by (simp add: flip_bit_eq_if set_bit_eq)
qed

lemma dvd_cases:
  fixes off :: nat
  assumes "2 ^ k dvd off"
  obtains (low) r where "off = 2 ^ Suc k * r" | (high) r where "off = 2 ^ Suc k * r + 2 ^ k"
proof -
  from assms obtain q where q: "off = 2 ^ k * q" ..
  show ?thesis
  proof (cases "even q")
    case True
    then obtain r where "q = 2 * r" ..
    with q low show ?thesis by simp
  next
    case False
    then obtain r where "q = 2 * r + 1" by (rule oddE)
    with q high show ?thesis by (simp add: algebra_simps)
  qed
qed

lemma high_not_dvd: "\<not> 2 ^ Suc k dvd 2 ^ Suc k * r + 2 ^ k" for r :: nat
  by (metis dvd_add_right_iff dvd_triv_left lessI power_less_imp_less_exp nat_dvd_not_less
      one_less_numeral_iff power_strict_increasing semiring_norm(76) zero_less_numeral zero_less_power)

lemma buddy_eq:
  assumes "2 ^ k dvd off"
  shows "buddy k off = (if 2 ^ Suc k dvd off then off + 2 ^ k else off - 2 ^ k)"
  using assms
proof (cases rule: dvd_cases)
  case (low r)
  then show ?thesis using buddy_even [of k r] by simp
next
  case (high r)
  then have "buddy k off = 2 ^ Suc k * r"
    using buddy_even [of k r] buddy_buddy [of k "2 ^ Suc k * r"] by simp
  with high high_not_dvd [of k r] show ?thesis by simp
qed

lemma buddy_low: "2 ^ Suc k dvd off \<Longrightarrow> buddy k off = off + 2 ^ k"
  using buddy_eq [of k off] by (simp add: dvd_mult_right)

lemma not_dvd_Suc_ge: "2 ^ k dvd off \<Longrightarrow> \<not> 2 ^ Suc k dvd off \<Longrightarrow> 2 ^ k \<le> off" for off :: nat
  by (metis dvd_0_right dvd_imp_le gr0I)

lemma buddy_dvd: "2 ^ k dvd off \<Longrightarrow> 2 ^ k dvd buddy k off"
  by (auto simp: buddy_eq dvd_diff_nat)

lemma min_buddy_dvd:
  assumes "2 ^ k dvd off"
  shows "2 ^ Suc k dvd min off (buddy k off)"
  using assms
proof (cases rule: dvd_cases)
  case (low r)
  then show ?thesis by (simp add: buddy_eq)
next
  case (high r)
  then show ?thesis
    using high_not_dvd [of k r] by (simp add: buddy_eq min_def)
qed

lemma buddy_neq: "buddy k off \<noteq> off"
proof
  assume "buddy k off = off"
  then have "off XOR (off XOR 2 ^ k) = off XOR off"
    by (simp add: buddy_def)
  then show False
    by (simp add: xor.assoc [symmetric])
qed

text \<open>A pair of buddies is exactly the block of the next order.\<close>

lemma covers_pair:
  assumes "2 ^ k dvd off"
  shows "covers (Suc k) (min off (buddy k off)) f \<longleftrightarrow> covers k off f \<or> covers k (buddy k off) f"
  using not_dvd_Suc_ge [OF assms] by (auto simp: covers_def buddy_eq [OF assms] min_def)

lemma covers_split: "covers (Suc k) off f \<longleftrightarrow> covers k off f \<or> covers k (off + 2 ^ k) f"
  by (auto simp: covers_def)

lemma covers_halves_disjoint: "covers k off f \<Longrightarrow> \<not> covers k (off + 2 ^ k) f"
  by (auto simp: covers_def)

lemma covers_self [simp]: "covers k off off"
  by (simp add: covers_def)

text \<open>Two aligned blocks that share a frame are nested.\<close>

lemma aligned_nested:
  assumes "2 ^ k dvd off" and "2 ^ k' dvd off'" and "k \<le> k'" and "covers k off f" and "covers k' off' f"
    and "covers k off g"
  shows "covers k' off' g"
proof -
  have d: "(2::nat) ^ k dvd 2 ^ k'" using assms(3) by (rule le_imp_power_dvd)
  from assms(1) obtain q where q: "off = 2 ^ k * q" ..
  from dvd_trans [OF d assms(2)] obtain p where p: "off' = 2 ^ k * p" ..
  from d obtain m where m: "(2::nat) ^ k' = 2 ^ k * m" ..
  have "2 ^ k * p < 2 ^ k * Suc q" and "2 ^ k * q < 2 ^ k * (p + m)"
    using assms(4,5) by (auto simp: covers_def q p m algebra_simps)
  then have "p < Suc q" "q < p + m"
    using mult_less_cancel1 by blast+
  then have "p \<le> q" "Suc q \<le> p + m" by simp_all
  then have "2 ^ k * p \<le> 2 ^ k * q" "2 ^ k * Suc q \<le> 2 ^ k * (p + m)"
    by (simp_all only: mult_le_mono2)
  then have "off' \<le> off" "off + 2 ^ k \<le> off' + 2 ^ k'"
    unfolding q p m by (simp_all only: mult_Suc_right distrib_left add.commute)
  with assms(6) show ?thesis
    by (simp add: covers_def)
qed

section \<open>Steps on the held block\<close>

lemma blocks_ok_del: "blocks_ok M n B \<Longrightarrow> blocks_ok M n (del_block k off B)"
  unfolding blocks_ok_def del_block_def by blast

lemma covered_add: "covered (add_block k off B) f \<longleftrightarrow> covers k off f \<or> covered B f"
  unfolding covered_def add_block_def by blast

lemma covered_del:
  "blocks_ok M n B \<Longrightarrow> B k off \<Longrightarrow> covered (del_block k off B) f \<longleftrightarrow> covered B f \<and> \<not> covers k off f"
  unfolding covered_def del_block_def blocks_ok_def by blast

lemma covered_block: "B k off \<Longrightarrow> covers k off f \<Longrightarrow> covered B f"
  unfolding covered_def by blast

lemma blocks_ok_blockD: "blocks_ok M n B \<Longrightarrow> B k off \<Longrightarrow> block_ok M n k off"
  by (simp add: blocks_ok_def)

text \<open>Taking a free block out of the lists and putting the held block back.\<close>

lemma tiling_take:
  "tiling M n B used \<Longrightarrow> B k off \<Longrightarrow> held M n (del_block k off B) used k off"
  by (auto simp: tiling_def held_def covered_del blocks_ok_del blocks_ok_blockD dest: covered_block)

lemma held_no_block_inside:
  assumes "held M n B used k off" and "covers k off off'" shows "\<not> B k' off'"
  using assms covered_block [of B k' off' off'] unfolding held_def by auto

lemma blocks_ok_add:
  assumes ok: "blocks_ok M n B" and b: "block_ok M n k off" and dis: "\<And>f. covered B f \<Longrightarrow> \<not> covers k off f"
    and no: "k < M \<Longrightarrow> \<not> B k (buddy k off)"
  shows "blocks_ok M n (add_block k off B)"
proof -
  have d: "k' = k'' \<and> off' = off''" if "add_block k off B k' off'" "add_block k off B k'' off''"
    "covers k' off' f" "covers k'' off'' f" for k' off' k'' off'' f
  proof (cases "B k' off' \<and> B k'' off''")
    case True
    with ok that(3,4) show ?thesis unfolding blocks_ok_def by blast
  next
    case False
    with that dis [of f] covered_block [of B k' off' f] covered_block [of B k'' off'' f]
    show ?thesis by (auto simp: add_block_def)
  qed
  have c: "\<not> add_block k off B k' (buddy k' off')" if a: "add_block k off B k' off'" "k' < M" for k' off'
  proof
    assume c: "add_block k off B k' (buddy k' off')"
    have "B k' off' \<Longrightarrow> \<not> B k' (buddy k' off')" using ok a(2) by (simp add: blocks_ok_def)
    with a c no buddy_neq [of k off] buddy_buddy [of k off'] show False
      by (auto simp: add_block_def)
  qed
  have w: "block_ok M n k' off'" if "add_block k off B k' off'" for k' off'
    using that b blocks_ok_blockD [OF ok] by (auto simp: add_block_def)
  show ?thesis
    unfolding blocks_ok_def using w c d by meson
qed

lemma held_put:
  assumes "held M n B used k off" and "k < M \<Longrightarrow> \<not> B k (buddy k off)"
  shows "tiling M n (add_block k off B) used"
  using assms blocks_ok_add [of M n B k off] by (auto simp: held_def tiling_def covered_add)

text \<open>Splitting the held block and keeping its lower half.\<close>

lemma held_split:
  assumes "held M n B used (Suc k) off"
  shows "held M n (add_block k (off + 2 ^ k) B) used k off"
proof -
  from assms have b: "block_ok M n (Suc k) off" and ok: "blocks_ok M n B"
    and dis: "\<And>f. covered B f \<Longrightarrow> \<not> covers (Suc k) off f" by (simp_all add: held_def)
  then have low: "block_ok M n k off" and high: "block_ok M n k (off + 2 ^ k)"
    by (auto simp: block_ok_def dvd_mult_right)
  have "buddy k (off + 2 ^ k) = off"
    using b buddy_low [of k off] buddy_buddy [of k off] by (simp add: block_ok_def)
  moreover have "\<not> B k off"
    using held_no_block_inside [OF assms] by (simp add: covers_def)
  ultimately have "blocks_ok M n (add_block k (off + 2 ^ k) B)"
    using dis by (intro blocks_ok_add [OF ok high]) (auto simp: covers_split)
  with assms low show ?thesis
    using covers_halves_disjoint [of k off] by (auto simp: held_def covered_add covers_split)
qed

text \<open>Merging the held block with its free buddy.\<close>

lemma held_merge:
  assumes "held M n B used k off" and "B k (buddy k off)" and "k < M"
  shows "held M n (del_block k (buddy k off) B) used (Suc k) (min off (buddy k off))"
proof -
  from assms(1) have b: "block_ok M n k off" and ok: "blocks_ok M n B" by (simp_all add: held_def)
  then have dvd: "2 ^ k dvd off" and b': "block_ok M n k (buddy k off)"
    using blocks_ok_blockD [OF ok assms(2)] by (simp_all add: block_ok_def)
  have "block_ok M n (Suc k) (min off (buddy k off))"
    using b b' assms(3) min_buddy_dvd [OF dvd] not_dvd_Suc_ge [OF dvd]
    by (auto simp: block_ok_def min_def buddy_eq [OF dvd] split: if_splits)
  with assms(1) ok show ?thesis
    using covered_block [of B k "buddy k off"] assms(2)
    by (auto simp: held_def covered_del [OF ok assms(2)] covers_pair [OF dvd] blocks_ok_del)
qed

text \<open>Handing the held block out, and taking a used block back.\<close>

lemma held_alloc: "held M n B used k off \<Longrightarrow> tiling M n B (\<lambda>f. used f \<or> covers k off f)"
  by (auto simp: held_def tiling_def)

lemma tiling_release:
  assumes "tiling M n B used" and "block_ok M n k off" and "\<And>f. covers k off f \<Longrightarrow> used f"
  shows "held M n B (\<lambda>f. used f \<and> \<not> covers k off f) k off"
proof -
  have "f < n" if "covers k off f" for f
    using that assms(2) by (simp add: covers_def block_ok_def)
  with assms show ?thesis
    by (auto simp: tiling_def held_def)
qed

section \<open>Completeness\<close>

text \<open>
  When the free blocks tile the free frames with no free buddies left unmerged, a free aligned
  range is contained in one free block.
\<close>

lemma tiling_complete:
  assumes t: "tiling M n B used" and b: "block_ok M n k off" and free: "\<And>f. covers k off f \<Longrightarrow> \<not> used f"
  shows "\<exists>k' off'. B k' off' \<and> k \<le> k' \<and> covers k' off' off"
proof (rule ccontr)
  assume none: "\<nexists>k' off'. B k' off' \<and> k \<le> k' \<and> covers k' off' off"
  from t have ok: "blocks_ok M n B" and cov: "\<And>f. f < n \<Longrightarrow> \<not> used f \<longleftrightarrow> covered B f"
    by (simp_all add: tiling_def)
  let ?P = "\<lambda>i. \<exists>o'. B i o' \<and> covers k off o' \<and> i < k"
  have inside: "B i o' \<Longrightarrow> covers i o' f \<Longrightarrow> covers k off f \<Longrightarrow> i < k \<and> covers k off o'" for i o' f
  proof -
    assume a: "B i o'" "covers i o' f" "covers k off f"
    have al: "2 ^ i dvd o'" "2 ^ k dvd off" using blocks_ok_blockD [OF ok a(1)] b by (auto simp: block_ok_def)
    have "i < k"
    proof (rule ccontr)
      assume "\<not> i < k"
      then have "covers i o' off"
        using aligned_nested [OF al(2,1) _ a(3,2), of off] by simp
      with none a(1) \<open>\<not> i < k\<close> show False by auto
    qed
    then show ?thesis
      using aligned_nested [OF al _ a(2,3), of o'] by simp
  qed
  have tile: "\<exists>i o'. B i o' \<and> covers i o' f" if "covers k off f" for f
    using cov [of f] free [OF that] that b by (auto simp: covered_def covers_def block_ok_def)
  have "\<exists>i. ?P i"
    using tile [of off] inside by fastforce
  then obtain i where i: "?P i" and least: "\<And>j. j < i \<Longrightarrow> \<not> ?P j"
    using exists_least_iff [of ?P] by blast
  then obtain o' where o': "B i o'" "covers k off o'" "i < k" by blast
  from blocks_ok_blockD [OF ok o'(1)] have al: "2 ^ i dvd o'" by (simp add: block_ok_def)
  let ?d = "buddy i o'"
  have "covers k off ?d"
  proof -
    have "covers (Suc i) (min o' ?d) o'" "covers (Suc i) (min o' ?d) ?d" by (simp_all add: covers_pair [OF al])
    moreover have "2 ^ k dvd off" using b by (simp add: block_ok_def)
    ultimately show ?thesis
      using aligned_nested [OF min_buddy_dvd [OF al], of k off o' ?d] o' by simp
  qed
  from tile [OF this] obtain j p where jp: "B j p" "covers j p ?d" by blast
  with inside \<open>covers k off ?d\<close> have "j < k" "covers k off p" by blast+
  with jp least have "i \<le> j" by (meson not_le)
  have alj: "2 ^ j dvd p" using blocks_ok_blockD [OF ok jp(1)] by (simp add: block_ok_def)
  show False
  proof (cases "i = j")
    case True
    then have "covers i ?d p"
      using aligned_nested [OF alj buddy_dvd [OF al], of ?d p] jp(2) by simp
    then have "p = ?d"
      using jp(2) True by (simp add: covers_def)
    then have "B i (buddy i o')" using jp(1) True by simp
    moreover have "i < M" using o'(3) b by (simp add: block_ok_def)
    ultimately show False
      using o'(1) ok by (simp add: blocks_ok_def)
  next
    case False
    with \<open>i \<le> j\<close> have "Suc i \<le> j" by simp
    have "covers j p o'"
      using aligned_nested [OF min_buddy_dvd [OF al] alj \<open>Suc i \<le> j\<close>, of ?d o'] jp(2)
      by (simp add: covers_pair [OF al])
    with jp(1) o'(1) ok False covers_self [of i o'] show False
      unfolding blocks_ok_def by metis
  qed
qed

end
