(* ===== verification/Buddy.thy ===== *)
theory Buddy
  imports Buddy_Tiling
begin

text \<open>
  \<^verbatim>\<open>kernel/src/memory.rs\<close>: the physical frame allocator, a buddy allocator per memory region with
  free lists per order and a bitmap of used frames. Addresses, offsets and counts are natural
  numbers (physical addresses stay far below 64 bits, so no sum wraps); the bitmap is a list of
  64-bit words and is accessed bitwise as in the source. The free lists of a region refine the tiling of
  \<^verbatim>\<open>Buddy_Tiling.thy\<close>.
\<close>

section \<open>One region\<close>

definition MAX_ORDER :: nat where "MAX_ORDER = 10"

record RegionBuddyAllocator =
  rstart :: nat
  page_count :: nat
  free_lists :: "nat list list"
  bitmap :: "u64 list"

subsection \<open>Bitmap\<close>

definition contains_addr :: "nat \<Rightarrow> RegionBuddyAllocator \<Rightarrow> bool" where
  "contains_addr addr r = (addr \<ge> rstart r \<and> addr < rstart r + page_count r * 4096)"

definition is_frame_allocated :: "u64 list \<Rightarrow> nat \<Rightarrow> bool" where
  "is_frame_allocated bm page_offset =
     (let w = page_offset div 64; b = page_offset mod 64 in
      if w \<ge> length bm then True else (drop_bit b (bm ! w) AND 1) = 1)"

definition set_frame_allocated :: "nat \<Rightarrow> u64 list \<Rightarrow> u64 list" where
  "set_frame_allocated page_offset bm =
     (let w = page_offset div 64; b = page_offset mod 64 in
      if w < length bm then bm[w := bm ! w OR push_bit b 1] else bm)"

definition set_frame_free :: "nat \<Rightarrow> u64 list \<Rightarrow> u64 list" where
  "set_frame_free page_offset bm =
     (let w = page_offset div 64; b = page_offset mod 64 in
      if w < length bm then bm[w := bm ! w AND NOT (push_bit b 1)] else bm)"

text \<open>
  The three loops of \<^verbatim>\<open>is_range_free\<close>; \<open>None\<close> is the early \<^verbatim>\<open>return false\<close>, otherwise the offset
  reached.
\<close>

function range_head :: "u64 list \<Rightarrow> nat \<Rightarrow> nat \<Rightarrow> nat option" where
  "range_head bm offset e =
     (if offset < e \<and> offset mod 64 \<noteq> 0 then
        if is_frame_allocated bm offset then None else range_head bm (offset + 1) e
      else Some offset)"
  by pat_completeness auto
termination by (relation "measure (\<lambda>(bm, offset, e). e - offset)") auto

function range_words :: "u64 list \<Rightarrow> nat \<Rightarrow> nat \<Rightarrow> nat option" where
  "range_words bm offset e =
     (if offset + 64 \<le> e then
        let word_idx = offset div 64 in
        if word_idx < length bm \<and> bm ! word_idx \<noteq> 0 then None else range_words bm (offset + 64) e
      else Some offset)"
  by pat_completeness auto
termination by (relation "measure (\<lambda>(bm, offset, e). e - offset)") auto

function range_tail :: "u64 list \<Rightarrow> nat \<Rightarrow> nat \<Rightarrow> bool" where
  "range_tail bm offset e =
     (if offset < e then
        if is_frame_allocated bm offset then False else range_tail bm (offset + 1) e
      else True)"
  by pat_completeness auto
termination by (relation "measure (\<lambda>(bm, offset, e). e - offset)") auto

declare range_head.simps [simp del] range_words.simps [simp del] range_tail.simps [simp del]

definition is_range_free :: "u64 list \<Rightarrow> nat \<Rightarrow> nat \<Rightarrow> bool" where
  "is_range_free bm start_offset count =
     (let e = start_offset + count in
      case range_head bm start_offset e of None \<Rightarrow> False
      | Some o1 \<Rightarrow> (case range_words bm o1 e of None \<Rightarrow> False | Some o2 \<Rightarrow> range_tail bm o2 e))"

definition mark_range_allocated :: "nat \<Rightarrow> nat \<Rightarrow> u64 list \<Rightarrow> u64 list" where
  "mark_range_allocated start_offset count bm =
     fold (\<lambda>i. set_frame_allocated (start_offset + i)) [0..<count] bm"

definition mark_range_free :: "nat \<Rightarrow> nat \<Rightarrow> u64 list \<Rightarrow> u64 list" where
  "mark_range_free start_offset count bm =
     fold (\<lambda>i. set_frame_free (start_offset + i)) [0..<count] bm"

subsection \<open>Free lists\<close>

text \<open>\<^verbatim>\<open>Vec::push\<close>, \<^verbatim>\<open>Vec::pop\<close> and \<^verbatim>\<open>Vec::swap_remove\<close> on the list of one order.\<close>

definition fl_push :: "nat \<Rightarrow> nat \<Rightarrow> nat list list \<Rightarrow> nat list list" where
  "fl_push k a fl = fl[k := fl ! k @ [a]]"

definition swap_remove :: "nat \<Rightarrow> 'a list \<Rightarrow> 'a list" where
  "swap_remove pos xs = butlast (xs[pos := last xs])"

function max_order_from :: "u64 list \<Rightarrow> nat \<Rightarrow> nat \<Rightarrow> nat \<Rightarrow> nat" where
  "max_order_from bm pages offset order =
     (if order < MAX_ORDER then
        if offset mod 2 ^ (order + 1) \<noteq> 0 then order
        else if offset + 2 ^ (order + 1) > pages then order
        else if \<not> is_range_free bm (offset + 2 ^ order) (2 ^ order) then order
        else max_order_from bm pages offset (order + 1)
      else order)"
  by pat_completeness auto
termination by (relation "measure (\<lambda>(bm, pages, offset, order). MAX_ORDER - order)") auto

definition max_free_order_at :: "u64 list \<Rightarrow> nat \<Rightarrow> nat \<Rightarrow> nat" where
  "max_free_order_at bm pages offset = max_order_from bm pages offset 0"

function build_from :: "RegionBuddyAllocator \<Rightarrow> nat \<Rightarrow> nat list list \<Rightarrow> nat list list" where
  "build_from r offset fl =
     (if offset < page_count r then
        if is_frame_allocated (bitmap r) offset then build_from r (offset + 1) fl
        else let order = max_free_order_at (bitmap r) (page_count r) offset in
          build_from r (offset + 2 ^ order) (fl_push order (rstart r + offset * 4096) fl)
      else fl)"
  by pat_completeness auto
termination
  by (relation "measure (\<lambda>(r, offset, fl). page_count r - offset)") (auto intro!: diff_less_mono2)

declare max_order_from.simps [simp del] build_from.simps [simp del]

definition build_free_lists :: "RegionBuddyAllocator \<Rightarrow> RegionBuddyAllocator" where
  "build_free_lists r =
     r\<lparr>free_lists := map rev (build_from r 0 (replicate (MAX_ORDER + 1) []))\<rparr>"

definition region_new :: "nat \<Rightarrow> nat \<Rightarrow> RegionBuddyAllocator" where
  "region_new st pages = build_free_lists \<lparr>rstart = st, page_count = pages,
     free_lists = replicate (MAX_ORDER + 1) [], bitmap = replicate ((pages + 63) div 64) 0\<rparr>"

subsection \<open>Allocation and release\<close>

function find_order :: "nat list list \<Rightarrow> nat \<Rightarrow> nat option" where
  "find_order fl j =
     (if j \<le> MAX_ORDER then if fl ! j \<noteq> [] then Some j else find_order fl (j + 1) else None)"
  by pat_completeness auto
termination by (relation "measure (\<lambda>(fl, j). MAX_ORDER + 1 - j)") auto

fun split_loop :: "nat \<Rightarrow> nat \<Rightarrow> nat \<Rightarrow> nat list list \<Rightarrow> nat list list" where
  "split_loop block_addr order 0 fl = fl"
| "split_loop block_addr order (Suc j) fl =
     (if Suc j > order then split_loop block_addr order j (fl_push j (block_addr + 2 ^ j * 4096) fl) else fl)"

definition region_allocate :: "nat \<Rightarrow> RegionBuddyAllocator \<Rightarrow> nat option \<times> RegionBuddyAllocator" where
  "region_allocate order r =
     (case find_order (free_lists r) order of
        None \<Rightarrow> (None, r)
      | Some j \<Rightarrow>
          let l = free_lists r ! j;
              block_addr = last l;
              fl = split_loop block_addr order j ((free_lists r)[j := butlast l]);
              page_offset = (block_addr - rstart r) div 4096
          in (Some block_addr, r\<lparr>free_lists := fl,
                bitmap := mark_range_allocated page_offset (2 ^ order) (bitmap r)\<rparr>))"

text \<open>The merging loop returns the free lists, the offset and the order of the merged block.\<close>

function merge_loop :: "nat \<Rightarrow> nat \<Rightarrow> nat list list \<Rightarrow> nat \<Rightarrow> nat \<Rightarrow> nat list list \<times> nat \<times> nat" where
  "merge_loop st pages fl current_offset current_order =
     (if current_order < MAX_ORDER then
        let block_size = 2 ^ current_order;
            buddy_offset = current_offset XOR block_size in
        if buddy_offset + block_size > pages then (fl, current_offset, current_order)
        else case position (\<lambda>a. a = st + buddy_offset * 4096) (fl ! current_order) of
          Some pos \<Rightarrow>
            merge_loop st pages (fl[current_order := swap_remove pos (fl ! current_order)])
              (min current_offset buddy_offset) (current_order + 1)
        | None \<Rightarrow> (fl, current_offset, current_order)
      else (fl, current_offset, current_order))"
  by pat_completeness auto
termination by (relation "measure (\<lambda>(st, pages, fl, off, k). MAX_ORDER - k)") auto

declare find_order.simps [simp del] merge_loop.simps [simp del]

text \<open>
  \<^verbatim>\<open>false\<close> is a double free. An order above \<^verbatim>\<open>MAX_ORDER\<close> ends in an index out of bounds, an
  address below the region in a subtraction overflow.
\<close>

definition region_deallocate ::
  "nat \<Rightarrow> nat \<Rightarrow> RegionBuddyAllocator \<Rightarrow> (unit, bool) res \<times> RegionBuddyAllocator" where
  "region_deallocate addr order r =
     (if addr < rstart r then (Panic, r) else
      let page_offset = (addr - rstart r) div 4096 in
      if \<not> is_frame_allocated (bitmap r) page_offset then (Ok False, r)
      else if order > MAX_ORDER then (Panic, r)
      else
        let bm = mark_range_free page_offset (2 ^ order) (bitmap r) in
        case merge_loop (rstart r) (page_count r) (free_lists r) page_offset order of
          (fl, current_offset, current_order) \<Rightarrow>
            (Ok True, r\<lparr>free_lists := fl_push current_order (rstart r + current_offset * 4096) fl,
               bitmap := bm\<rparr>))"

section \<open>The bitmap as a set of frames\<close>

lemma is_frame_allocated_iff:
  "is_frame_allocated bm f \<longleftrightarrow> (f div 64 < length bm \<longrightarrow> bit (bm ! (f div 64)) (f mod 64))"
  by (simp add: is_frame_allocated_def Let_def and_one_eq bit_iff_odd_drop_bit flip: odd_iff_mod_2_eq_one)

lemma length_set_frame [simp]:
  "length (set_frame_allocated p bm) = length bm" "length (set_frame_free p bm) = length bm"
  by (simp_all add: set_frame_allocated_def set_frame_free_def Let_def)

lemma same_word: "f div 64 = p div 64 \<Longrightarrow> f mod 64 = p mod 64 \<longleftrightarrow> f = p" for f p :: nat
  by (metis div_mult_mod_eq)

lemma allocated_set_allocated:
  "is_frame_allocated (set_frame_allocated p bm) f \<longleftrightarrow> is_frame_allocated bm f \<or> f = p"
  using same_word [of f p]
  by (auto simp: is_frame_allocated_iff set_frame_allocated_def Let_def nth_list_update bit_simps)

lemma allocated_set_free:
  "p div 64 < length bm \<Longrightarrow>
     is_frame_allocated (set_frame_free p bm) f \<longleftrightarrow> is_frame_allocated bm f \<and> f \<noteq> p"
  using same_word [of f p]
  by (auto simp: is_frame_allocated_iff set_frame_free_def Let_def nth_list_update bit_simps)

lemma length_mark_range [simp]:
  "length (mark_range_allocated s c bm) = length bm" "length (mark_range_free s c bm) = length bm"
  by (induction c arbitrary: bm) (simp_all add: mark_range_allocated_def mark_range_free_def)

lemma allocated_mark_allocated:
  "is_frame_allocated (mark_range_allocated s c bm) f \<longleftrightarrow> is_frame_allocated bm f \<or> s \<le> f \<and> f < s + c"
  by (induction c) (auto simp: mark_range_allocated_def allocated_set_allocated)

lemma allocated_mark_free:
  "(s + c + 63) div 64 \<le> length bm \<Longrightarrow>
     is_frame_allocated (mark_range_free s c bm) f \<longleftrightarrow> is_frame_allocated bm f \<and> \<not> (s \<le> f \<and> f < s + c)"
proof (induction c)
  case 0
  then show ?case by (simp add: mark_range_free_def)
next
  case (Suc c)
  have "(s + c) div 64 < length bm" and le: "(s + c + 63) div 64 \<le> length bm"
    using Suc.prems by (simp_all add: div_le_mono le_trans)
  then have "(s + c) div 64 < length (mark_range_free s c bm)" by simp
  moreover have "mark_range_free s (Suc c) bm = set_frame_free (s + c) (mark_range_free s c bm)"
    by (simp add: mark_range_free_def)
  ultimately show ?case
    using Suc.IH [OF le] by (simp add: allocated_set_free) linarith
qed

section \<open>The word-wise range check\<close>

definition frames_free :: "u64 list \<Rightarrow> nat \<Rightarrow> nat \<Rightarrow> bool" where
  "frames_free bm a e \<longleftrightarrow> (\<forall>f. a \<le> f \<and> f < e \<longrightarrow> \<not> is_frame_allocated bm f)"

lemma frames_free_step:
  "a < e \<Longrightarrow> frames_free bm a e \<longleftrightarrow> \<not> is_frame_allocated bm a \<and> frames_free bm (Suc a) e"
  by (auto simp: frames_free_def Suc_le_eq) (metis order_le_less)

lemma frames_free_empty: "e \<le> a \<Longrightarrow> frames_free bm a e"
  by (auto simp: frames_free_def)

lemma frames_free_append:
  "a \<le> m \<Longrightarrow> m \<le> e \<Longrightarrow> frames_free bm a e \<longleftrightarrow> frames_free bm a m \<and> frames_free bm m e"
  by (auto simp: frames_free_def) (meson not_le)

lemma range_head_spec:
  "case range_head bm offset e of
     None \<Rightarrow> \<not> frames_free bm offset e
   | Some o1 \<Rightarrow> (o1 mod 64 = 0 \<or> e \<le> o1) \<and> (frames_free bm offset e \<longleftrightarrow> frames_free bm o1 e)"
proof (induction bm offset e rule: range_head.induct)
  case (1 bm offset e)
  show ?case
  proof (cases "offset < e \<and> offset mod 64 \<noteq> 0")
    case True
    with 1 show ?thesis
      by (cases "is_frame_allocated bm offset")
        (simp_all add: range_head.simps [of bm offset e] frames_free_step split: option.splits)
  next
    case False
    then show ?thesis by (auto simp: range_head.simps)
  qed
qed

lemma word_zero_iff:
  assumes "offset mod 64 = 0" and "offset div 64 < length bm"
  shows "bm ! (offset div 64) = 0 \<longleftrightarrow> frames_free bm offset (offset + 64)"
proof -
  obtain q where q: "offset = 64 * q"
    using assms(1) by (metis mod_0_imp_dvd dvdE)
  have "frames_free bm offset (offset + 64) \<longleftrightarrow> (\<forall>b<64. \<not> is_frame_allocated bm (64 * q + b))"
    by (auto simp: frames_free_def q) (auto dest!: le_Suc_ex)
  also have "\<dots> \<longleftrightarrow> (\<forall>b<64. \<not> bit (bm ! q) b)"
    using assms(2) by (simp add: is_frame_allocated_iff q)
  also have "\<dots> \<longleftrightarrow> bm ! q = 0"
    by (auto simp: bit_eq_iff)
  finally show ?thesis by (simp add: q)
qed

lemma range_words_spec:
  "offset mod 64 = 0 \<or> e \<le> offset \<Longrightarrow> (e + 63) div 64 \<le> length bm \<Longrightarrow>
   case range_words bm offset e of
     None \<Rightarrow> \<not> frames_free bm offset e
   | Some o2 \<Rightarrow> frames_free bm offset e \<longleftrightarrow> frames_free bm o2 e"
proof (induction bm offset e rule: range_words.induct)
  case (1 bm offset e)
  show ?case
  proof (cases "offset + 64 \<le> e")
    case True
    with 1 have m: "offset mod 64 = 0" by auto
    have w: "offset div 64 < length bm"
      using True 1(3) by (auto dest: div_le_mono [of _ _ 64])
    have ff: "frames_free bm offset e \<longleftrightarrow> frames_free bm offset (offset + 64) \<and> frames_free bm (offset + 64) e"
      using True by (intro frames_free_append) simp_all
    show ?thesis
    proof (cases "bm ! (offset div 64) = 0")
      case z: True
      with 1 True m w ff word_zero_iff [OF m w] show ?thesis
        by (simp add: range_words.simps [of bm offset e] Let_def split: option.splits)
    next
      case False
      with True w ff word_zero_iff [OF m w] show ?thesis
        by (simp add: range_words.simps [of bm offset e] Let_def)
    qed
  next
    case False
    then show ?thesis by (simp add: range_words.simps)
  qed
qed

lemma range_tail_spec: "range_tail bm offset e \<longleftrightarrow> frames_free bm offset e"
proof (induction bm offset e rule: range_tail.induct)
  case (1 bm offset e)
  then show ?case
    by (cases "offset < e")
      (simp_all add: range_tail.simps [of bm offset e] frames_free_step [of offset e] frames_free_empty)
qed

lemma is_range_free_iff:
  assumes "(s + c + 63) div 64 \<le> length bm"
  shows "is_range_free bm s c \<longleftrightarrow> frames_free bm s (s + c)"
proof (cases "range_head bm s (s + c)")
  case None
  then show ?thesis
    using range_head_spec [of bm s "s + c"] by (simp add: is_range_free_def)
next
  case (Some o1)
  with range_head_spec [of bm s "s + c"]
  have "o1 mod 64 = 0 \<or> s + c \<le> o1" and "frames_free bm s (s + c) \<longleftrightarrow> frames_free bm o1 (s + c)"
    by simp_all
  with range_words_spec [of o1 "s + c" bm] assms Some show ?thesis
    by (simp add: is_range_free_def range_tail_spec split: option.splits)
qed

section \<open>Free lists as block sets\<close>

definition fl_block :: "nat \<Rightarrow> nat list list \<Rightarrow> block_set" where
  "fl_block st fl k off \<longleftrightarrow> k < length fl \<and> st + off * 4096 \<in> set (fl ! k)"

definition fl_ok :: "nat \<Rightarrow> nat list list \<Rightarrow> bool" where
  "fl_ok st fl \<longleftrightarrow> length fl = Suc MAX_ORDER \<and>
     (\<forall>k\<le>MAX_ORDER. distinct (fl ! k) \<and> (\<forall>a\<in>set (fl ! k). \<exists>off. a = st + off * 4096))"

lemma fl_push_block:
  "k < length fl \<Longrightarrow> fl_block st (fl_push k (st + off * 4096) fl) = add_block k off (fl_block st fl)"
  by (auto simp: fl_block_def fl_push_def add_block_def fun_eq_iff nth_list_update)

lemma fl_push_ok:
  assumes "fl_ok st fl" and "k \<le> MAX_ORDER" and "\<not> fl_block st fl k off"
  shows "fl_ok st (fl_push k (st + off * 4096) fl)"
  using assms by (auto simp: fl_ok_def fl_push_def fl_block_def nth_list_update)

lemma fl_remove_block:
  assumes "k < length fl" and "set l = set (fl ! k) - {st + off * 4096}"
  shows "fl_block st (fl[k := l]) = del_block k off (fl_block st fl)"
  using assms by (auto simp: fl_block_def del_block_def fun_eq_iff nth_list_update)

lemma fl_remove_ok:
  assumes "fl_ok st fl" and "k \<le> MAX_ORDER" and "distinct l" and "set l \<subseteq> set (fl ! k)"
  shows "fl_ok st (fl[k := l])"
  using assms by (auto simp: fl_ok_def nth_list_update)

lemma distinct_butlast_set: "xs \<noteq> [] \<Longrightarrow> distinct xs \<Longrightarrow> set (butlast xs) = set xs - {last xs}"
  by (induction xs rule: rev_induct) auto

lemma swap_remove_distinct:
  assumes "distinct xs" and "pos < length xs"
  shows "distinct (swap_remove pos xs) \<and> set (swap_remove pos xs) = set xs - {xs ! pos}"
proof -
  from assms(2) obtain ys y where xs: "xs = ys @ [y]" by (metis append_butlast_last_id list.size(3) not_less0)
  show ?thesis
  proof (cases "pos < length ys")
    case True
    then have "swap_remove pos xs = ys[pos := y]"
      by (simp add: swap_remove_def xs list_update_append)
    with True assms(1) show ?thesis
      by (auto simp: xs distinct_list_update set_update_distinct nth_append)
  next
    case False
    with assms(2) xs have "pos = length ys" by simp
    with assms(1) show ?thesis by (auto simp: swap_remove_def xs)
  qed
qed

lemma fl_ok_len: "fl_ok st fl \<Longrightarrow> length fl = Suc MAX_ORDER"
  by (simp add: fl_ok_def)

section \<open>The region invariant\<close>

text \<open>The free lists hold distinct blocks that tile exactly the frames the bitmap shows free.\<close>

definition region_inv :: "RegionBuddyAllocator \<Rightarrow> bool" where
  "region_inv r \<longleftrightarrow> fl_ok (rstart r) (free_lists r) \<and> length (bitmap r) = (page_count r + 63) div 64 \<and>
     tiling MAX_ORDER (page_count r) (fl_block (rstart r) (free_lists r)) (is_frame_allocated (bitmap r))"

definition frame_used :: "RegionBuddyAllocator \<Rightarrow> nat \<Rightarrow> bool" where
  "frame_used r = is_frame_allocated (bitmap r)"

lemma bitmap_bound:
  assumes "length (bitmap r) = (page_count r + 63) div 64" and "e \<le> page_count r"
  shows "(e + 63) div 64 \<le> length (bitmap r)"
  using assms by (simp add: div_le_mono)

subsection \<open>Building the lists\<close>

lemma frames_free_covers: "frames_free bm off (off + 2 ^ k) \<longleftrightarrow> (\<forall>f. covers k off f \<longrightarrow> \<not> is_frame_allocated bm f)"
  by (simp add: frames_free_def covers_def)

definition unmergeable :: "u64 list \<Rightarrow> nat \<Rightarrow> nat \<Rightarrow> nat \<Rightarrow> bool" where
  "unmergeable bm n k off \<longleftrightarrow>
     (k < MAX_ORDER \<longrightarrow> \<not> (2 ^ Suc k dvd off \<and> off + 2 ^ Suc k \<le> n \<and> frames_free bm (off + 2 ^ k) (off + 2 ^ Suc k)))"

lemma max_order_from_spec:
  assumes "length bm = (n + 63) div 64" and "block_ok MAX_ORDER n order off" and "frames_free bm off (off + 2 ^ order)"
  shows "let k = max_order_from bm n off order in
    block_ok MAX_ORDER n k off \<and> frames_free bm off (off + 2 ^ k) \<and> unmergeable bm n k off"
  using assms
proof (induction bm n off order rule: max_order_from.induct)
  case (1 bm n off order)
  let ?go = "order < MAX_ORDER \<and> 2 ^ Suc order dvd off \<and> off + 2 ^ Suc order \<le> n"
  have rng: "is_range_free bm (off + 2 ^ order) (2 ^ order) \<longleftrightarrow> frames_free bm (off + 2 ^ order) (off + 2 ^ Suc order)"
    if ?go
  proof -
    have "off + 2 ^ order + 2 ^ order \<le> n" using that by simp
    then have "(off + 2 ^ order + 2 ^ order + 63) div 64 \<le> length bm"
      unfolding 1(2) by (intro div_le_mono) simp
    from is_range_free_iff [OF this] show ?thesis by (simp add: add.assoc mult_2)
  qed
  show ?case
  proof (cases "?go \<and> frames_free bm (off + 2 ^ order) (off + 2 ^ Suc order)")
    case True
    then have "max_order_from bm n off order = max_order_from bm n off (order + 1)"
      using rng by (simp add: max_order_from.simps [of bm n off order] dvd_eq_mod_eq_0)
    moreover have "frames_free bm off (off + 2 ^ Suc order)"
      using True 1(4) frames_free_append [of off "off + 2 ^ order" "off + 2 ^ Suc order" bm] by simp
    moreover have "block_ok MAX_ORDER n (order + 1) off"
      using True by (simp add: block_ok_def)
    ultimately show ?thesis
      using 1(1) [OF _ _ _ _ 1(2)] True rng by (simp add: dvd_eq_mod_eq_0)
  next
    case False
    then have "max_order_from bm n off order = order"
      using rng by (auto simp: max_order_from.simps [of bm n off order] dvd_eq_mod_eq_0)
    with False 1 show ?thesis
      by (auto simp: unmergeable_def Let_def)
  qed
qed

text \<open>What the scan has registered when it reaches offset \<open>x\<close>.\<close>

definition build_inv :: "RegionBuddyAllocator \<Rightarrow> nat \<Rightarrow> nat list list \<Rightarrow> bool" where
  "build_inv r x fl \<longleftrightarrow> fl_ok (rstart r) fl \<and> blocks_ok MAX_ORDER (page_count r) (fl_block (rstart r) fl) \<and>
     (\<forall>f. covered (fl_block (rstart r) fl) f \<longleftrightarrow> f < x \<and> \<not> frame_used r f) \<and>
     (\<forall>k off. fl_block (rstart r) fl k off \<longrightarrow> unmergeable (bitmap r) (page_count r) k off)"

lemma build_inv_skip: "build_inv r x fl \<Longrightarrow> frame_used r x \<Longrightarrow> build_inv r (x + 1) fl"
  by (auto simp: build_inv_def less_Suc_eq)

lemma build_inv_push:
  assumes inv: "build_inv r x fl" and b: "block_ok MAX_ORDER (page_count r) k x"
    and free: "frames_free (bitmap r) x (x + 2 ^ k)" and un: "unmergeable (bitmap r) (page_count r) k x"
  shows "build_inv r (x + 2 ^ k) (fl_push k (rstart r + x * 4096) fl)"
proof -
  let ?B = "fl_block (rstart r) fl" and ?n = "page_count r"
  from inv have ok: "fl_ok (rstart r) fl" "blocks_ok MAX_ORDER ?n ?B"
    and cov: "\<And>f. covered ?B f \<longleftrightarrow> f < x \<and> \<not> frame_used r f"
    and unm: "\<And>k off. ?B k off \<Longrightarrow> unmergeable (bitmap r) ?n k off"
    by (simp_all add: build_inv_def)
  have k: "k \<le> MAX_ORDER" and dvd: "2 ^ k dvd x" and xn: "x + 2 ^ k \<le> ?n"
    using b by (simp_all add: block_ok_def)
  have used: "covers k x f \<Longrightarrow> \<not> frame_used r f" for f
    using free by (simp add: frames_free_covers frame_used_def)
  have no: "\<not> ?B k (buddy k x)" if "k < MAX_ORDER"
  proof
    assume B: "?B k (buddy k x)"
    then have lt: "buddy k x < x" using cov covered_block [of ?B k "buddy k x" "buddy k x", OF B] by simp
    have "buddy k x = x - 2 ^ k" and nd: "\<not> 2 ^ Suc k dvd x"
      using lt buddy_eq [OF dvd] by (auto split: if_splits)
    then have "x = buddy k x + 2 ^ k" using not_dvd_Suc_ge [OF dvd nd] by simp
    moreover have "2 ^ Suc k dvd buddy k x"
      using min_buddy_dvd [OF dvd] lt by (simp add: min_def)
    ultimately show False
      using unm [OF B] that free xn by (auto simp: unmergeable_def mult_2 add.assoc)
  qed
  have "\<not> ?B k x" using cov covered_block [of ?B k x x] by auto
  then have "fl_ok (rstart r) (fl_push k (rstart r + x * 4096) fl)"
    by (rule fl_push_ok [OF ok(1) k])
  moreover have eq: "fl_block (rstart r) (fl_push k (rstart r + x * 4096) fl) = add_block k x ?B"
    using k ok(1) by (simp add: fl_push_block fl_ok_def)
  moreover have "blocks_ok MAX_ORDER ?n (add_block k x ?B)"
    using cov no by (intro blocks_ok_add [OF ok(2) b]) (auto simp: covers_def)
  moreover have "covered (add_block k x ?B) f \<longleftrightarrow> f < x + 2 ^ k \<and> \<not> frame_used r f" for f
    using cov [of f] used [of f] by (auto simp: covered_add covers_def)
  ultimately show ?thesis
    using unm un by (auto simp: build_inv_def add_block_def)
qed

lemma build_from_inv:
  assumes "build_inv r x fl" and "length (bitmap r) = (page_count r + 63) div 64"
  shows "\<exists>y. page_count r \<le> y \<and> build_inv r y (build_from r x fl)"
  using assms
proof (induction r x fl rule: build_from.induct)
  case (1 r x fl)
  consider (stop) "\<not> x < page_count r" | (used) "x < page_count r" "is_frame_allocated (bitmap r) x"
    | (free) "x < page_count r" "\<not> is_frame_allocated (bitmap r) x" by blast
  then show ?case
  proof cases
    case stop
    then show ?thesis using 1(3) by (intro exI [of _ x]) (simp add: build_from.simps [of r x fl])
  next
    case used
    then show ?thesis
      using 1(1) [OF used build_inv_skip [OF 1(3)] 1(4)] by (simp add: build_from.simps [of r x fl] frame_used_def)
  next
    case free
    let ?k = "max_free_order_at (bitmap r) (page_count r) x"
    have "block_ok MAX_ORDER (page_count r) 0 x" "frames_free (bitmap r) x (x + 2 ^ 0)"
      using free by (auto simp: block_ok_def frames_free_def le_less_Suc_eq)
    from max_order_from_spec [OF 1(4) this]
    have "build_inv r (x + 2 ^ ?k) (fl_push ?k (rstart r + x * 4096) fl)"
      by (intro build_inv_push [OF 1(3)]) (simp_all add: max_free_order_at_def Let_def)
    from 1(2) [OF free refl this 1(4)] free show ?thesis
      by (simp add: build_from.simps [of r x fl] Let_def)
  qed
qed

lemma fl_rev:
  "fl_ok st (map rev fl) \<longleftrightarrow> fl_ok st fl" "fl_block st (map rev fl) = fl_block st fl"
  by (auto simp: fl_ok_def fl_block_def fun_eq_iff)

lemma fl_empty: "fl_ok st (replicate (Suc MAX_ORDER) [])" "\<not> fl_block st (replicate (Suc MAX_ORDER) []) k off"
  by (auto simp: fl_ok_def fl_block_def simp del: replicate.simps)

lemma build_inv_start: "build_inv r 0 (replicate (Suc MAX_ORDER) [])"
  by (simp add: build_inv_def fl_empty blocks_ok_def covered_def del: replicate.simps)

lemma build_free_lists_inv:
  assumes "length (bitmap r) = (page_count r + 63) div 64"
  shows "region_inv (build_free_lists r)"
proof -
  obtain y where "page_count r \<le> y" "build_inv r y (build_from r 0 (replicate (Suc MAX_ORDER) []))"
    using build_from_inv [OF build_inv_start assms] by blast
  with assms show ?thesis
    by (auto simp: build_free_lists_def region_inv_def build_inv_def tiling_def fl_rev frame_used_def)
qed

subsection \<open>Allocation\<close>

lemma find_order_Some:
  "find_order fl j = Some k \<Longrightarrow> j \<le> k \<and> k \<le> MAX_ORDER \<and> fl ! k \<noteq> [] \<and> (\<forall>i. j \<le> i \<and> i < k \<longrightarrow> fl ! i = [])"
proof (induction fl j rule: find_order.induct)
  case (1 fl j)
  show ?case
  proof (cases "j \<le> MAX_ORDER \<and> fl ! j = []")
    case True
    with 1 have "Suc j \<le> k \<and> k \<le> MAX_ORDER \<and> fl ! k \<noteq> [] \<and> (\<forall>i. Suc j \<le> i \<and> i < k \<longrightarrow> fl ! i = [])"
      by (simp add: find_order.simps [of fl j])
    with True show ?thesis
      by (metis Suc_leD Suc_leI le_neq_implies_less)
  next
    case False
    with 1(2) show ?thesis
      by (auto simp: find_order.simps [of fl j] split: if_splits)
  qed
qed

lemma find_order_None: "find_order fl j = None \<Longrightarrow> j \<le> i \<Longrightarrow> i \<le> MAX_ORDER \<Longrightarrow> fl ! i = []"
proof (induction fl j rule: find_order.induct)
  case (1 fl j)
  then show ?case
    by (cases "i = j") (auto simp: find_order.simps [of fl j] split: if_splits)
qed

lemma split_loop_held:
  assumes "fl_ok st fl" and "held MAX_ORDER n (fl_block st fl) used j off" and "order \<le> j"
  shows "fl_ok st (split_loop (st + off * 4096) order j fl) \<and>
    held MAX_ORDER n (fl_block st (split_loop (st + off * 4096) order j fl)) used order off"
  using assms
proof (induction j arbitrary: fl)
  case 0
  then show ?case by simp
next
  case (Suc j)
  show ?case
  proof (cases "Suc j > order")
    case True
    let ?fl = "fl_push j (st + (off + 2 ^ j) * 4096) fl"
    have j: "j \<le> MAX_ORDER" using Suc.prems(2) by (simp add: held_def block_ok_def)
    have "\<not> fl_block st fl j (off + 2 ^ j)"
      by (rule held_no_block_inside [OF Suc.prems(2)]) (simp add: covers_def)
    then have "fl_ok st ?fl" by (rule fl_push_ok [OF Suc.prems(1) j])
    moreover have "held MAX_ORDER n (fl_block st ?fl) used j off"
      using held_split [OF Suc.prems(2)] j fl_ok_len [OF Suc.prems(1)]
        fl_push_block [of j fl st "off + 2 ^ j"] by (simp del: distrib_right_numeral add_mult_distrib)
    ultimately show ?thesis
      using Suc.IH [of ?fl] True by (simp add: algebra_simps)
  next
    case False
    with Suc.prems have "order = Suc j" by simp
    with Suc.prems show ?thesis by simp
  qed
qed

lemma tiling_used_cong:
  "tiling M n B used \<Longrightarrow> (\<And>f. f < n \<Longrightarrow> used' f = used f) \<Longrightarrow> tiling M n B used'"
  by (simp add: tiling_def)

lemma region_allocate_Some:
  assumes "region_inv r" and "region_allocate order r = (Some a, r')"
  obtains off where "a = rstart r + off * 4096" and "block_ok MAX_ORDER (page_count r) order off"
    and "\<And>f. covers order off f \<Longrightarrow> \<not> frame_used r f"
    and "\<And>f. frame_used r' f \<longleftrightarrow> frame_used r f \<or> covers order off f"
    and "region_inv r'" and "rstart r' = rstart r" and "page_count r' = page_count r"
proof -
  let ?n = "page_count r" and ?st = "rstart r" and ?fl = "free_lists r" and ?used = "is_frame_allocated (bitmap r)"
  from assms(2) obtain j where j: "find_order ?fl order = Some j"
    by (auto simp: region_allocate_def split: option.splits)
  let ?l = "?fl ! j"
  from find_order_Some [OF j] have oj: "order \<le> j" "j \<le> MAX_ORDER" and ne: "?l \<noteq> []" by simp_all
  from assms(1) have ok: "fl_ok ?st ?fl" and t: "tiling MAX_ORDER ?n (fl_block ?st ?fl) ?used"
    and len: "length (bitmap r) = (?n + 63) div 64" by (simp_all add: region_inv_def)
  from ok oj(2) have dis: "distinct ?l" and len_fl: "j < length ?fl" by (simp_all add: fl_ok_def)
  obtain off where off: "last ?l = ?st + off * 4096"
    using ok oj(2) last_in_set [OF ne] by (auto simp: fl_ok_def)
  have "fl_block ?st ?fl j off"
    using off ne last_in_set [OF ne] len_fl by (simp add: fl_block_def)
  from tiling_take [OF t this]
  have h: "held MAX_ORDER ?n (fl_block ?st (?fl[j := butlast ?l])) ?used j off"
    using distinct_butlast_set [OF ne dis] off len_fl by (simp add: fl_remove_block)
  have "fl_ok ?st (?fl[j := butlast ?l])"
    using dis by (intro fl_remove_ok [OF ok oj(2)]) (auto simp: distinct_butlast dest: in_set_butlastD)
  note s = split_loop_held [OF this h oj(1)]
  let ?fl' = "split_loop (?st + off * 4096) order j (?fl[j := butlast ?l])"
  let ?bm = "mark_range_allocated off (2 ^ order) (bitmap r)"
  have r': "r' = r\<lparr>free_lists := ?fl', bitmap := ?bm\<rparr>" and a: "a = ?st + off * 4096"
    using assms(2) j off by (auto simp: region_allocate_def Let_def)
  have used': "is_frame_allocated ?bm f \<longleftrightarrow> ?used f \<or> covers order off f" for f
    by (simp add: allocated_mark_allocated covers_def)
  have "tiling MAX_ORDER ?n (fl_block ?st ?fl') (is_frame_allocated ?bm)"
    using held_alloc [OF s [THEN conjunct2]] used' by (auto intro: tiling_used_cong)
  with s r' len have "region_inv r'" by (simp add: region_inv_def)
  moreover have b: "block_ok MAX_ORDER ?n order off" using s by (simp add: held_def)
  moreover have "\<not> frame_used r f" if "covers order off f" for f
  proof -
    have "f < ?n" using that b by (simp add: covers_def block_ok_def)
    with that s show ?thesis by (simp add: held_def frame_used_def)
  qed
  ultimately show ?thesis
    using that a used' r' by (simp add: frame_used_def)
qed

lemma region_allocate_None:
  assumes "region_inv r" and "region_allocate order r = (None, r')" and "block_ok MAX_ORDER (page_count r) order off"
  shows "r' = r \<and> (\<exists>f. covers order off f \<and> frame_used r f)"
proof -
  from assms(2) have n: "find_order (free_lists r) order = None" and r': "r' = r"
    by (auto simp: region_allocate_def Let_def split: option.splits)
  have "\<exists>f. covers order off f \<and> frame_used r f"
  proof (rule ccontr)
    assume "\<not> ?thesis"
    then obtain k off' where "fl_block (rstart r) (free_lists r) k off'" "order \<le> k"
      using assms(1,3) tiling_complete [of MAX_ORDER "page_count r" _ _ order off]
      unfolding region_inv_def frame_used_def by blast
    with find_order_None [OF n, of k] assms(1) show False
      by (auto simp: fl_block_def region_inv_def fl_ok_def)
  qed
  with r' show ?thesis by blast
qed

subsection \<open>Release\<close>

lemma fl_block_position:
  assumes "fl_ok st fl" and "k \<le> MAX_ORDER"
  shows "fl_block st fl k off \<longleftrightarrow> position (\<lambda>a. a = st + off * 4096) (fl ! k) \<noteq> None"
  using assms by (auto simp: fl_block_def fl_ok_def position_None_iff)

lemma merge_loop_held:
  assumes "fl_ok st fl" and "held MAX_ORDER n (fl_block st fl) used k off"
    and "merge_loop st n fl off k = (fl', off', k')"
  shows "fl_ok st fl' \<and> held MAX_ORDER n (fl_block st fl') used k' off' \<and>
    (k' < MAX_ORDER \<longrightarrow> \<not> fl_block st fl' k' (buddy k' off'))"
  using assms
proof (induction st n fl off k rule: merge_loop.induct)
  case (1 st n fl off k)
  let ?pos = "position (\<lambda>a. a = st + buddy k off * 4096) (fl ! k)"
  have unfold: "merge_loop st n fl off k =
     (if k < MAX_ORDER then
        if buddy k off + 2 ^ k > n then (fl, off, k)
        else case ?pos of
          Some pos \<Rightarrow> merge_loop st n (fl[k := swap_remove pos (fl ! k)]) (min off (buddy k off)) (k + 1)
        | None \<Rightarrow> (fl, off, k)
      else (fl, off, k))"
    unfolding buddy_def by (simp add: merge_loop.simps [of st n fl off k] Let_def)
  have out: "\<not> fl_block st fl k (buddy k off)" if "buddy k off + 2 ^ k > n"
    using 1(3) that by (auto simp: held_def dest!: blocks_ok_blockD simp: block_ok_def)
  show ?case
  proof (cases "k < MAX_ORDER \<and> \<not> buddy k off + 2 ^ k > n \<and> ?pos \<noteq> None")
    case False
    then have "merge_loop st n fl off k = (fl, off, k)" and "k < MAX_ORDER \<longrightarrow> \<not> fl_block st fl k (buddy k off)"
      using out fl_block_position [OF 1(2), of k "buddy k off"] unfolding unfold by (auto split: option.splits)
    with 1(2-4) show ?thesis by simp
  next
    case True
    then obtain pos where pos: "?pos = Some pos" by auto
    from position_SomeD [OF pos] have p: "pos < length (fl ! k)" "fl ! k ! pos = st + buddy k off * 4096" by simp_all
    have k: "k \<le> MAX_ORDER" "k < length fl" using True fl_ok_len [OF 1(2)] by simp_all
    have sr: "distinct (swap_remove pos (fl ! k))" "set (swap_remove pos (fl ! k)) = set (fl ! k) - {st + buddy k off * 4096}"
      using swap_remove_distinct [OF _ p(1)] 1(2) k p(2) by (simp_all add: fl_ok_def)
    let ?fl = "fl[k := swap_remove pos (fl ! k)]"
    have "fl_ok st ?fl" using sr by (intro fl_remove_ok [OF 1(2) k(1)]) auto
    moreover have "held MAX_ORDER n (fl_block st ?fl) used (k + 1) (min off (buddy k off))"
      using held_merge [OF 1(3)] True pos fl_block_position [OF 1(2) k(1)] fl_remove_block [OF k(2) sr(2)] by simp
    moreover have "merge_loop st n ?fl (min off (buddy k off)) (k + 1) = (fl', off', k')"
      using True pos 1(4) unfolding unfold by simp
    ultimately show ?thesis
      using 1(1) [of "2 ^ k" "buddy k off" pos] True pos by (simp add: buddy_def)
  qed
qed

lemma region_deallocate_Ok:
  assumes "region_inv r" and "block_ok MAX_ORDER (page_count r) order off"
    and "\<And>f. covers order off f \<Longrightarrow> frame_used r f"
  obtains r' where "region_deallocate (rstart r + off * 4096) order r = (Ok True, r')"
    and "region_inv r'" and "rstart r' = rstart r" and "page_count r' = page_count r"
    and "\<And>f. frame_used r' f \<longleftrightarrow> frame_used r f \<and> \<not> covers order off f"
proof -
  let ?n = "page_count r" and ?st = "rstart r" and ?fl = "free_lists r" and ?used = "is_frame_allocated (bitmap r)"
  let ?bm = "mark_range_free off (2 ^ order) (bitmap r)"
  from assms(1) have ok: "fl_ok ?st ?fl" and t: "tiling MAX_ORDER ?n (fl_block ?st ?fl) ?used"
    and len: "length (bitmap r) = (?n + 63) div 64" by (simp_all add: region_inv_def)
  from assms(2) have o: "order \<le> MAX_ORDER" "off + 2 ^ order \<le> ?n" by (simp_all add: block_ok_def)
  have used': "is_frame_allocated ?bm f \<longleftrightarrow> ?used f \<and> \<not> covers order off f" for f
    using allocated_mark_free [OF bitmap_bound [OF len o(2)]] by (simp add: covers_def)
  have "held MAX_ORDER ?n (fl_block ?st ?fl) (\<lambda>f. ?used f \<and> \<not> covers order off f) order off"
    using assms(3) by (intro tiling_release [OF t assms(2)]) (simp add: frame_used_def)
  then have h: "held MAX_ORDER ?n (fl_block ?st ?fl) (is_frame_allocated ?bm) order off"
    unfolding used' [THEN ext [of "is_frame_allocated ?bm"]] .
  obtain fl' off' k' where m: "merge_loop ?st ?n ?fl off order = (fl', off', k')" by (metis prod_cases3)
  note mh = merge_loop_held [OF ok h m]
  let ?fl' = "fl_push k' (?st + off' * 4096) fl'"
  let ?r' = "r\<lparr>free_lists := ?fl', bitmap := ?bm\<rparr>"
  have k': "k' \<le> MAX_ORDER" using mh by (simp add: held_def block_ok_def)
  have "\<not> fl_block ?st fl' k' off'"
    using held_no_block_inside [OF mh [THEN conjunct2, THEN conjunct1]] by simp
  then have "fl_ok ?st ?fl'" using mh k' by (intro fl_push_ok) simp_all
  moreover have "tiling MAX_ORDER ?n (fl_block ?st ?fl') (is_frame_allocated ?bm)"
    using mh k' held_put [of MAX_ORDER ?n "fl_block ?st fl'" "is_frame_allocated ?bm" k' off'] fl_ok_len [of ?st fl']
    by (simp add: fl_push_block)
  ultimately have "region_inv ?r'" using len by (simp add: region_inv_def)
  moreover have "region_deallocate (?st + off * 4096) order r = (Ok True, ?r')"
    using assms(3) [of off] m o(1) by (simp add: region_deallocate_def frame_used_def)
  ultimately show ?thesis
    using that [of ?r'] used' by (simp add: frame_used_def)
qed

lemma region_deallocate_double_free:
  assumes "\<not> frame_used r off"
  shows "region_deallocate (rstart r + off * 4096) order r = (Ok False, r)"
  using assms by (simp add: region_deallocate_def frame_used_def)

end
