(* ===== verification/Frames.thy ===== *)
theory Frames
  imports Buddy
begin

text \<open>
  \<^verbatim>\<open>BuddyFrameAllocator\<close> of \<^verbatim>\<open>kernel/src/memory.rs\<close>: the public interface over the buddy
  allocators of the memory regions, with the frame statistics, and the block-allocator contract
  its users rely on.
\<close>

section \<open>State and operations\<close>

record MemoryRegion =
  mr_start :: nat
  mr_page_count :: nat

record BuddyFrameAllocator =
  region_allocators :: "RegionBuddyAllocator list"
  total_frames :: nat
  allocated_count :: nat
  invalid_dealloc_count :: nat

definition frames_new :: BuddyFrameAllocator where
  "frames_new = \<lparr>region_allocators = [], total_frames = 0, allocated_count = 0, invalid_dealloc_count = 0\<rparr>"

definition frames_init :: "MemoryRegion list \<Rightarrow> BuddyFrameAllocator" where
  "frames_init regions =
     (let regions = sort_key mr_start regions in
      \<lparr>region_allocators = map (\<lambda>r. region_new (mr_start r) (mr_page_count r)) regions,
        total_frames = sum_list (map mr_page_count regions), allocated_count = 0, invalid_dealloc_count = 0\<rparr>)"

text \<open>\<^verbatim>\<open>total_frames - allocated_count\<close> panics when it would be negative.\<close>

definition free_frames :: "BuddyFrameAllocator \<Rightarrow> nat option" where
  "free_frames s = (if allocated_count s \<le> total_frames s then Some (total_frames s - allocated_count s) else None)"

fun allocate_in :: "nat \<Rightarrow> RegionBuddyAllocator list \<Rightarrow> nat option \<times> RegionBuddyAllocator list" where
  "allocate_in order [] = (None, [])"
| "allocate_in order (r # rs) =
     (case region_allocate order r of
        (Some a, r') \<Rightarrow> (Some a, r' # rs)
      | (None, r') \<Rightarrow> (case allocate_in order rs of (res, rs') \<Rightarrow> (res, r' # rs')))"

definition allocate_order :: "nat \<Rightarrow> BuddyFrameAllocator \<Rightarrow> nat option \<times> BuddyFrameAllocator" where
  "allocate_order order s =
     (case allocate_in order (region_allocators s) of
        (Some a, rs) \<Rightarrow> (Some a, s\<lparr>region_allocators := rs, allocated_count := allocated_count s + 2 ^ order\<rparr>)
      | (None, rs) \<Rightarrow> (None, s\<lparr>region_allocators := rs\<rparr>))"

definition allocate_frame :: "BuddyFrameAllocator \<Rightarrow> nat option \<times> BuddyFrameAllocator" where
  "allocate_frame s = allocate_order 0 s"

text \<open>\<^verbatim>\<open>partition_point\<close> on the regions, which are sorted by start address.\<close>

definition region_pos :: "nat \<Rightarrow> RegionBuddyAllocator list \<Rightarrow> nat" where
  "region_pos addr rs = length (takeWhile (\<lambda>r. rstart r \<le> addr) rs)"

definition deallocate_order ::
  "nat \<Rightarrow> nat \<Rightarrow> BuddyFrameAllocator \<Rightarrow> (unit, unit) res \<times> BuddyFrameAllocator" where
  "deallocate_order addr order s =
     (let pos = region_pos addr (region_allocators s); idx = pos - 1 in
      if pos > 0 \<and> contains_addr addr (region_allocators s ! idx) then
        (case region_deallocate addr order (region_allocators s ! idx) of
           (Ok True, r') \<Rightarrow>
             if 2 ^ order \<le> allocated_count s then
               (Ok (), s\<lparr>region_allocators := (region_allocators s)[idx := r'],
                  allocated_count := allocated_count s - 2 ^ order\<rparr>)
             else (Panic, s)
         | _ \<Rightarrow> (Panic, s))
      else (Panic, s))"

definition deallocate_frame :: "nat \<Rightarrow> BuddyFrameAllocator \<Rightarrow> (unit, unit) res \<times> BuddyFrameAllocator" where
  "deallocate_frame addr s = deallocate_order addr 0 s"

text \<open>
  \<^verbatim>\<open>reserve_range\<close>: the loop over the pages, with the regions, the count and the \<^verbatim>\<open>affected\<close>
  flags as its state.
\<close>

definition reserve_page ::
  "nat \<Rightarrow> RegionBuddyAllocator list \<times> nat \<times> bool list \<Rightarrow> RegionBuddyAllocator list \<times> nat \<times> bool list" where
  "reserve_page addr st =
     (case st of (rs, cnt, affected) \<Rightarrow>
        let pos = region_pos addr rs; idx = pos - 1 in
        if pos > 0 \<and> contains_addr addr (rs ! idx) then
          let region = rs ! idx; page_offset = (addr - rstart region) div 4096 in
          if \<not> is_frame_allocated (bitmap region) page_offset then
            (rs[idx := region\<lparr>bitmap := set_frame_allocated page_offset (bitmap region)\<rparr>], cnt + 1,
             affected[idx := True])
          else (rs, cnt, affected[idx := True])
        else (rs, cnt, affected))"

function reserve_loop ::
  "nat \<Rightarrow> nat \<Rightarrow> RegionBuddyAllocator list \<times> nat \<times> bool list \<Rightarrow> RegionBuddyAllocator list \<times> nat \<times> bool list" where
  "reserve_loop addr e st = (if addr < e then reserve_loop (addr + 4096) e (reserve_page addr st) else st)"
  by pat_completeness auto
termination by (relation "measure (\<lambda>(addr, e, st). e - addr)") auto

declare reserve_loop.simps [simp del]

definition reserve_range :: "nat \<Rightarrow> nat \<Rightarrow> BuddyFrameAllocator \<Rightarrow> BuddyFrameAllocator" where
  "reserve_range st sz s =
     (if sz = 0 then s
      else
        let start_aligned = st div 4096 * 4096;
            end_aligned = (st + sz + 0xfff) div 4096 * 4096 in
        case reserve_loop start_aligned end_aligned
            (region_allocators s, allocated_count s, replicate (length (region_allocators s)) False) of
          (rs, cnt, affected) \<Rightarrow>
            s\<lparr>region_allocators := map2 (\<lambda>r a. if a then build_free_lists r else r) rs affected,
              allocated_count := cnt\<rparr>)"

section \<open>Frames as a set of addresses\<close>

definition free_in :: "RegionBuddyAllocator \<Rightarrow> nat set" where
  "free_in r = {rstart r + f * 4096 | f. f < page_count r \<and> \<not> frame_used r f}"

definition free_set :: "BuddyFrameAllocator \<Rightarrow> nat set" where
  "free_set s = (\<Union>r\<in>set (region_allocators s). free_in r)"

definition blk :: "nat \<Rightarrow> nat \<Rightarrow> nat set" where
  "blk k a = {a + i * 4096 | i. i < 2 ^ k}"

text \<open>An address at which a block of order \<open>k\<close> may lie: inside a region and aligned in it.\<close>

definition extents :: "RegionBuddyAllocator list \<Rightarrow> (nat \<times> nat) list" where
  "extents rs = map (\<lambda>r. (rstart r, page_count r)) rs"

definition site :: "BuddyFrameAllocator \<Rightarrow> nat \<Rightarrow> nat \<Rightarrow> bool" where
  "site s k a \<longleftrightarrow> (\<exists>(st, n)\<in>set (extents (region_allocators s)). \<exists>off.
     a = st + off * 4096 \<and> block_ok MAX_ORDER n k off)"

definition used_count :: "RegionBuddyAllocator \<Rightarrow> nat" where
  "used_count r = card {f. f < page_count r \<and> frame_used r f}"

definition regions_sep :: "RegionBuddyAllocator list \<Rightarrow> bool" where
  "regions_sep rs = sorted_wrt (\<lambda>a b. rstart a + page_count a * 4096 \<le> rstart b) rs"

definition frames_inv :: "BuddyFrameAllocator \<Rightarrow> bool" where
  "frames_inv s \<longleftrightarrow> (\<forall>r\<in>set (region_allocators s). region_inv r) \<and> regions_sep (region_allocators s) \<and>
     allocated_count s = sum_list (map used_count (region_allocators s)) \<and>
     total_frames s = sum_list (map page_count (region_allocators s))"

lemma regions_sepD:
  "regions_sep rs \<Longrightarrow> i < j \<Longrightarrow> j < length rs \<Longrightarrow> rstart (rs ! i) + page_count (rs ! i) * 4096 \<le> rstart (rs ! j)"
  by (simp add: regions_sep_def sorted_wrt_iff_nth_less)

lemma regions_sep_unique:
  assumes "regions_sep rs" and "i < length rs" and "j < length rs"
    and "contains_addr a (rs ! i)" and "contains_addr a (rs ! j)"
  shows "i = j"
  using assms regions_sepD [of rs i j] regions_sepD [of rs j i]
  by (cases i j rule: linorder_cases) (auto simp: contains_addr_def)

lemma region_pos_eq:
  assumes "regions_sep rs" and "i < length rs" and "contains_addr a (rs ! i)"
  shows "region_pos a rs = Suc i"
proof -
  have "rstart (rs ! j) \<le> a" if "j \<le> i" for j
    using that assms regions_sepD [of rs j i] by (cases "j = i") (auto simp: contains_addr_def)
  moreover have "\<not> rstart (rs ! Suc i) \<le> a" if "Suc i < length rs"
    using that assms regions_sepD [of rs i "Suc i"] by (auto simp: contains_addr_def)
  ultimately have "takeWhile (\<lambda>r. rstart r \<le> a) rs = take (Suc i) rs"
    using assms(2) by (intro takeWhile_eq_take_P_nth) auto
  then show ?thesis using assms(2) by (simp add: region_pos_def)
qed

lemma contains_frame: "f < page_count r \<Longrightarrow> contains_addr (rstart r + f * 4096) r"
  by (simp add: contains_addr_def)

lemma blk_covers: "blk k (st + off * 4096) = {st + f * 4096 | f. covers k off f}"
proof -
  have "x \<in> blk k (st + off * 4096) \<longleftrightarrow> (\<exists>f. x = st + f * 4096 \<and> covers k off f)" for x
  proof
    assume "x \<in> blk k (st + off * 4096)"
    then obtain i where "x = st + (off + i) * 4096" "i < 2 ^ k" by (auto simp: blk_def algebra_simps)
    then show "\<exists>f. x = st + f * 4096 \<and> covers k off f" by (intro exI [of _ "off + i"]) (simp add: covers_def)
  next
    assume "\<exists>f. x = st + f * 4096 \<and> covers k off f"
    then obtain f where "x = st + f * 4096" "off \<le> f" "f < off + 2 ^ k" by (auto simp: covers_def)
    then show "x \<in> blk k (st + off * 4096)"
      unfolding blk_def by (intro CollectI exI [of _ "f - off"]) (auto simp: algebra_simps)
  qed
  then show ?thesis by blast
qed

lemma card_covers: "card {f. covers k off f} = 2 ^ k" "finite {f. covers k off f}"
proof -
  have "{f. covers k off f} = {off..<off + 2 ^ k}" by (auto simp: covers_def)
  then show "card {f. covers k off f} = 2 ^ k" "finite {f. covers k off f}" by simp_all
qed

text \<open>Replacing region \<open>i\<close> by one of the same extent in which block \<open>(k, off)\<close> changed its state.\<close>

definition same_extent :: "RegionBuddyAllocator \<Rightarrow> RegionBuddyAllocator \<Rightarrow> bool" where
  "same_extent r r' \<longleftrightarrow> rstart r' = rstart r \<and> page_count r' = page_count r"

lemma used_count_alloc:
  assumes "page_count r' = page_count r" and "\<And>f. frame_used r' f \<longleftrightarrow> frame_used r f \<or> covers k off f"
    and "\<And>f. covers k off f \<Longrightarrow> \<not> frame_used r f" and "off + 2 ^ k \<le> page_count r"
  shows "used_count r' = used_count r + 2 ^ k"
proof -
  have "{f. f < page_count r' \<and> frame_used r' f} = {f. f < page_count r \<and> frame_used r f} \<union> {f. covers k off f}"
    using assms(1,2,4) by (auto simp: covers_def)
  moreover have "{f. f < page_count r \<and> frame_used r f} \<inter> {f. covers k off f} = {}"
    using assms(3) by auto
  ultimately show ?thesis
    by (simp add: used_count_def card_Un_disjoint card_covers)
qed

lemma used_count_free:
  assumes "page_count r' = page_count r" and "\<And>f. frame_used r' f \<longleftrightarrow> frame_used r f \<and> \<not> covers k off f"
    and "\<And>f. covers k off f \<Longrightarrow> frame_used r f" and "off + 2 ^ k \<le> page_count r"
  shows "used_count r = used_count r' + 2 ^ k"
proof (rule used_count_alloc [of r r' k off])
  show "frame_used r f \<longleftrightarrow> frame_used r' f \<or> covers k off f" for f
    using assms(2) [of f] assms(3) [of f] by blast
  show "\<not> frame_used r' f" if "covers k off f" for f
    using assms(2) [of f] that by blast
qed (use assms(1,4) in simp_all)

definition page_addr :: "nat \<Rightarrow> nat \<Rightarrow> nat" where
  "page_addr st f = st + f * 4096"

lemma inj_page_addr: "inj (page_addr st)"
  by (rule injI) (simp add: page_addr_def)

lemma free_in_image: "free_in r = page_addr (rstart r) ` {f. f < page_count r \<and> \<not> frame_used r f}"
  by (simp add: free_in_def page_addr_def image_Collect)

lemma blk_image: "blk k (st + off * 4096) = page_addr st ` {f. covers k off f}"
  by (simp add: blk_covers page_addr_def image_Collect)

lemma free_in_alloc:
  assumes "same_extent r r'" and "\<And>f. frame_used r' f \<longleftrightarrow> frame_used r f \<or> covers k off f"
  shows "free_in r' = free_in r - blk k (rstart r + off * 4096)"
proof -
  have "{f. f < page_count r' \<and> \<not> frame_used r' f} = {f. f < page_count r \<and> \<not> frame_used r f} - {f. covers k off f}"
    using assms(1) by (auto simp: assms(2) same_extent_def)
  then show ?thesis
    using assms(1) by (simp add: free_in_image blk_image image_set_diff [OF inj_page_addr] same_extent_def)
qed

lemma free_in_free:
  assumes "same_extent r r'" and "\<And>f. frame_used r' f \<longleftrightarrow> frame_used r f \<and> \<not> covers k off f"
    and "off + 2 ^ k \<le> page_count r"
  shows "free_in r' = free_in r \<union> blk k (rstart r + off * 4096)"
proof -
  have "{f. f < page_count r' \<and> \<not> frame_used r' f} = {f. f < page_count r \<and> \<not> frame_used r f} \<union> {f. covers k off f}"
    using assms(1,3) by (auto simp: assms(2) same_extent_def covers_def)
  then show ?thesis
    using assms(1) by (simp add: free_in_image blk_image image_Un same_extent_def)
qed

lemma Union_update:
  "i < length rs \<Longrightarrow> (\<Union>x\<in>set (rs[i := r]). F x) = F r \<union> (\<Union>j\<in>{..<length rs} - {i}. F (rs ! j))"
  by (auto simp: set_conv_nth nth_list_update)

lemma blk_in_region:
  assumes "x \<in> blk k (rstart r + off * 4096)" and "off + 2 ^ k \<le> page_count r"
  shows "contains_addr x r"
  using assms by (auto simp: blk_covers covers_def intro!: contains_frame)

lemma free_in_contains: "x \<in> free_in r \<Longrightarrow> contains_addr x r"
  by (auto simp: free_in_def intro: contains_frame)

lemma others_miss_block:
  assumes "regions_sep rs" and "i < length rs" and "off + 2 ^ k \<le> page_count (rs ! i)"
  shows "(\<Union>j\<in>{..<length rs} - {i}. free_in (rs ! j)) \<inter> blk k (rstart (rs ! i) + off * 4096) = {}"
proof -
  have False if "j < length rs" "j \<noteq> i" "x \<in> free_in (rs ! j)" "x \<in> blk k (rstart (rs ! i) + off * 4096)" for x j
    using regions_sep_unique [OF assms(1,2) that(1)] blk_in_region [OF that(4) assms(3)] free_in_contains [OF that(3)]
      that(2) by simp
  then show ?thesis by blast
qed

lemma regions_sep_update:
  "regions_sep rs \<Longrightarrow> i < length rs \<Longrightarrow> same_extent (rs ! i) r' \<Longrightarrow> regions_sep (rs[i := r'])"
  by (auto simp: regions_sep_def sorted_wrt_iff_nth_less same_extent_def nth_list_update)

lemma sum_list_map_update:
  "i < length rs \<Longrightarrow> sum_list (map g (rs[i := r'])) + g (rs ! i) = sum_list (map g rs) + (g r' :: nat)"
  using elem_le_sum_list [of i "map g rs"] by (simp add: map_update sum_list_update)

lemma same_extent_sum:
  "i < length rs \<Longrightarrow> same_extent (rs ! i) r' \<Longrightarrow> sum_list (map page_count (rs[i := r'])) = sum_list (map page_count rs)"
  using sum_list_map_update [of i rs page_count r'] by (simp add: same_extent_def)

lemma regions_sep_extents: "extents xs = extents ys \<Longrightarrow> regions_sep xs = regions_sep ys"
proof -
  have "regions_sep xs \<longleftrightarrow> sorted_wrt (\<lambda>a b. fst a + snd a * 4096 \<le> fst b) (extents xs)" for xs
    by (simp add: regions_sep_def extents_def sorted_wrt_map)
  then show "extents xs = extents ys \<Longrightarrow> regions_sep xs = regions_sep ys" by simp
qed

lemma extents_update: "i < length rs \<Longrightarrow> same_extent (rs ! i) r' \<Longrightarrow> extents (rs[i := r']) = extents rs"
  by (simp add: extents_def map_update same_extent_def list_update_same_conv)

lemma all_update: "\<forall>r\<in>set rs. P r \<Longrightarrow> P r' \<Longrightarrow> \<forall>r\<in>set (rs[i := r']). P r"
  by (auto dest!: set_update_subset_insert [THEN subsetD])

lemma free_set_split:
  "i < length rs \<Longrightarrow> (\<Union>x\<in>set rs. free_in x) = free_in (rs ! i) \<union> (\<Union>j\<in>{..<length rs} - {i}. free_in (rs ! j))"
  using Union_update [of i rs free_in "rs ! i"] by simp

section \<open>The operations on sets of frames\<close>

lemma allocate_in_Some:
  "allocate_in order rs = (Some a, rs') \<Longrightarrow>
     \<exists>i r'. i < length rs \<and> rs' = rs[i := r'] \<and> region_allocate order (rs ! i) = (Some a, r')"
proof (induction rs arbitrary: rs')
  case (Cons r rs)
  show ?case
  proof (cases "fst (region_allocate order r)")
    case None
    then have "region_allocate order r = (None, r)"
      by (auto simp: region_allocate_def Let_def split: option.splits)
    with Cons.prems obtain rs1 where "allocate_in order rs = (Some a, rs1)" "rs' = r # rs1"
      by (auto split: prod.splits)
    with Cons.IH obtain i r' where "i < length rs" "rs1 = rs[i := r']" "region_allocate order (rs ! i) = (Some a, r')"
      by blast
    with \<open>rs' = r # rs1\<close> show ?thesis by (intro exI [of _ "Suc i"]) auto
  next
    case (Some b)
    with Cons.prems show ?thesis by (intro exI [of _ 0]) (auto split: prod.splits option.splits)
  qed
qed simp

lemma allocate_in_None:
  "allocate_in order rs = (None, rs') \<Longrightarrow> rs' = rs \<and> (\<forall>r\<in>set rs. region_allocate order r = (None, r))"
proof (induction rs arbitrary: rs')
  case (Cons r rs)
  then have "fst (region_allocate order r) = None"
    by (auto split: prod.splits option.splits)
  then have "region_allocate order r = (None, r)"
    by (auto simp: region_allocate_def Let_def split: option.splits)
  with Cons show ?case by (auto split: prod.splits)
qed simp

lemma allocate_order_Some:
  assumes inv: "frames_inv s" and al: "allocate_order k s = (Some a, s')"
  shows "frames_inv s' \<and> site s k a \<and> blk k a \<subseteq> free_set s \<and> free_set s' = free_set s - blk k a \<and>
    site s' = site s \<and> allocated_count s' = allocated_count s + 2 ^ k"
proof -
  let ?rs = "region_allocators s"
  from al obtain rs' where in': "allocate_in k ?rs = (Some a, rs')"
    and s': "s' = s\<lparr>region_allocators := rs', allocated_count := allocated_count s + 2 ^ k\<rparr>"
    by (auto simp: allocate_order_def split: prod.splits option.splits)
  from allocate_in_Some [OF in'] obtain i r' where i: "i < length ?rs" and rs': "rs' = ?rs[i := r']"
    and r: "region_allocate k (?rs ! i) = (Some a, r')" by blast
  let ?r = "?rs ! i"
  from inv i have rinv: "region_inv ?r" and sep: "regions_sep ?rs" by (auto simp: frames_inv_def)
  obtain off where off: "a = rstart ?r + off * 4096" and b: "block_ok MAX_ORDER (page_count ?r) k off"
    and free: "\<And>f. covers k off f \<Longrightarrow> \<not> frame_used ?r f"
    and used: "\<And>f. frame_used r' f \<longleftrightarrow> frame_used ?r f \<or> covers k off f"
    and inv': "region_inv r'" and ext: "same_extent ?r r'"
    by (rule region_allocate_Some [OF rinv r]) (auto simp: same_extent_def)
  have le: "off + 2 ^ k \<le> page_count ?r" using b by (simp add: block_ok_def)
  have "blk k a \<subseteq> free_in ?r"
    using free le by (auto simp: off blk_covers free_in_def covers_def)
  then have "blk k a \<subseteq> free_set s"
    unfolding free_set_def using free_set_split [OF i] by blast
  moreover have "site s k a"
    using off b nth_mem [OF i] by (force simp: site_def extents_def)
  moreover have "free_set s' = free_set s - blk k a"
    using others_miss_block [OF sep i le] free_in_alloc [OF ext used]
    unfolding free_set_def s' rs' off by (simp add: Union_update [OF i] free_set_split [OF i]) blast
  moreover have "used_count r' = used_count ?r + 2 ^ k"
    using used_count_alloc [OF _ used free le] ext by (simp add: same_extent_def)
  then have "sum_list (map used_count rs') = sum_list (map used_count ?rs) + 2 ^ k"
    using sum_list_map_update [OF i, of used_count r'] by (simp add: rs')
  then have "frames_inv s'"
    using inv all_update [of ?rs region_inv r' i] inv' regions_sep_update [OF sep i ext] same_extent_sum [OF i ext]
    by (simp add: frames_inv_def s' rs')
  ultimately show ?thesis
    using extents_update [OF i ext] by (simp add: s' rs' site_def fun_eq_iff)
qed

lemma siteE:
  assumes "site s k a"
  obtains i off where "i < length (region_allocators s)" "a = rstart (region_allocators s ! i) + off * 4096"
    "block_ok MAX_ORDER (page_count (region_allocators s ! i)) k off"
  using assms by (auto simp: site_def extents_def in_set_conv_nth)

lemma deallocate_order_Ok:
  assumes inv: "frames_inv s" and site: "site s k a" and used: "blk k a \<inter> free_set s = {}"
  shows "\<exists>s'. deallocate_order a k s = (Ok (), s') \<and> frames_inv s' \<and> free_set s' = free_set s \<union> blk k a \<and>
    site s' = site s \<and> allocated_count s = allocated_count s' + 2 ^ k"
proof -
  let ?rs = "region_allocators s"
  obtain i off where i: "i < length ?rs" and off: "a = rstart (?rs ! i) + off * 4096"
    and b: "block_ok MAX_ORDER (page_count (?rs ! i)) k off" by (rule siteE [OF site])
  let ?r = "?rs ! i"
  from inv i have rinv: "region_inv ?r" and sep: "regions_sep ?rs" by (auto simp: frames_inv_def)
  have le: "off + 2 ^ k \<le> page_count ?r" using b by (simp add: block_ok_def)
  have all: "frame_used ?r f" if "covers k off f" for f
  proof (rule ccontr)
    assume "\<not> frame_used ?r f"
    then have "rstart ?r + f * 4096 \<in> free_in ?r \<inter> blk k a"
      using that le by (auto simp: free_in_def off blk_covers covers_def)
    then show False using used free_set_split [OF i] by (auto simp: free_set_def)
  qed
  obtain r' where r: "region_deallocate a k ?r = (Ok True, r')" and inv': "region_inv r'" and ext: "same_extent ?r r'"
    and used': "\<And>f. frame_used r' f \<longleftrightarrow> frame_used ?r f \<and> \<not> covers k off f"
    by (rule region_deallocate_Ok [OF rinv b all]) (auto simp: same_extent_def off)
  have "off < page_count ?r"
    using le by (meson less_le_trans less_add_same_cancel1 zero_less_numeral zero_less_power)
  then have c: "contains_addr a ?r" unfolding off by (rule contains_frame)
  have uc: "used_count ?r = used_count r' + 2 ^ k"
    using used_count_free [OF _ used' all le] ext by (simp add: same_extent_def)
  have sum: "sum_list (map used_count ?rs) = sum_list (map used_count (?rs[i := r'])) + 2 ^ k"
    using sum_list_map_update [OF i, of used_count r'] uc by simp
  let ?s' = "s\<lparr>region_allocators := ?rs[i := r'], allocated_count := allocated_count s - 2 ^ k\<rparr>"
  have cnt: "allocated_count s = allocated_count ?s' + 2 ^ k" and ge: "2 ^ k \<le> allocated_count s"
    using inv sum by (simp_all add: frames_inv_def)
  have "deallocate_order a k s = (Ok (), ?s')"
    using region_pos_eq [OF sep i c] c r ge by (simp add: deallocate_order_def Let_def)
  moreover have "frames_inv ?s'"
    using inv all_update [of ?rs region_inv r' i] inv' regions_sep_update [OF sep i ext] same_extent_sum [OF i ext] sum
    by (simp add: frames_inv_def)
  moreover have "free_set ?s' = free_set s \<union> blk k a"
    using free_in_free [OF ext used' le]
    unfolding free_set_def off by (simp add: Union_update [OF i] free_set_split [OF i]) blast
  moreover have "site ?s' = site s"
    using extents_update [OF i ext] by (simp add: site_def fun_eq_iff)
  ultimately show ?thesis using cnt by blast
qed

lemma allocate_order_None:
  assumes inv: "frames_inv s" and al: "allocate_order k s = (None, s')" and site: "site s k a"
  shows "s' = s \<and> \<not> blk k a \<subseteq> free_set s"
proof -
  let ?rs = "region_allocators s"
  from al obtain rs' where "allocate_in k ?rs = (None, rs')" and s': "s' = s\<lparr>region_allocators := rs'\<rparr>"
    by (auto simp: allocate_order_def split: prod.splits option.splits)
  from allocate_in_None [OF this(1)] have rs': "rs' = ?rs" and none: "\<forall>r\<in>set ?rs. region_allocate k r = (None, r)"
    by simp_all
  obtain i off where i: "i < length ?rs" and off: "a = rstart (?rs ! i) + off * 4096"
    and b: "block_ok MAX_ORDER (page_count (?rs ! i)) k off" by (rule siteE [OF site])
  from inv i have rinv: "region_inv (?rs ! i)" and sep: "regions_sep ?rs" by (auto simp: frames_inv_def)
  have le: "off + 2 ^ k \<le> page_count (?rs ! i)" using b by (simp add: block_ok_def)
  from none i have "region_allocate k (?rs ! i) = (None, ?rs ! i)" by simp
  from region_allocate_None [OF rinv this b] obtain f where f: "covers k off f" "frame_used (?rs ! i) f" by blast
  have x: "rstart (?rs ! i) + f * 4096 \<in> blk k a" using f by (auto simp: off blk_covers)
  moreover have "rstart (?rs ! i) + f * 4096 \<notin> free_in (?rs ! i)" using f by (auto simp: free_in_def)
  ultimately have "rstart (?rs ! i) + f * 4096 \<notin> free_set s"
    using others_miss_block [OF sep i le] free_set_split [OF i] by (auto simp: free_set_def off)
  with x s' rs' show ?thesis by auto
qed

lemma deallocate_free_panics:
  assumes inv: "frames_inv s" and "a \<in> free_set s"
  shows "deallocate_order a k s = (Panic, s)"
proof -
  let ?rs = "region_allocators s"
  from assms(2) obtain r f where r: "r \<in> set ?rs" and a: "a = rstart r + f * 4096" "f < page_count r" "\<not> frame_used r f"
    by (auto simp: free_set_def free_in_def)
  from r obtain i where i: "i < length ?rs" "r = ?rs ! i" by (auto simp: in_set_conv_nth)
  from inv have sep: "regions_sep ?rs" by (simp add: frames_inv_def)
  have c: "contains_addr a (?rs ! i)" using a i contains_frame by auto
  have "region_deallocate a k (?rs ! i) = (Ok False, ?rs ! i)"
    using a i region_deallocate_double_free [of r f k] by simp
  then show ?thesis
    using region_pos_eq [OF sep i(1) c] c by (simp add: deallocate_order_def Let_def)
qed

subsection \<open>Initialisation\<close>

lemma region_new_props:
  "region_inv (region_new st n)" "rstart (region_new st n) = st" "page_count (region_new st n) = n"
  "f < n \<Longrightarrow> \<not> frame_used (region_new st n) f"
proof -
  show "region_inv (region_new st n)"
    unfolding region_new_def by (rule build_free_lists_inv) simp
  show "rstart (region_new st n) = st" "page_count (region_new st n) = n"
    by (simp_all add: region_new_def build_free_lists_def)
  assume "f < n"
  then have "f div 64 < (n + 63) div 64" by simp
  then show "\<not> frame_used (region_new st n) f"
    by (simp add: frame_used_def region_new_def build_free_lists_def is_frame_allocated_iff)
qed

definition regions_apart :: "MemoryRegion list \<Rightarrow> bool" where
  "regions_apart ms \<longleftrightarrow> distinct ms \<and> (\<forall>m\<in>set ms. 0 < mr_page_count m) \<and>
     (\<forall>a\<in>set ms. \<forall>b\<in>set ms. a \<noteq> b \<longrightarrow>
        mr_start a + mr_page_count a * 4096 \<le> mr_start b \<or> mr_start b + mr_page_count b * 4096 \<le> mr_start a)"

lemma sorted_apart:
  assumes "regions_apart ms" and "sorted (map mr_start ms)"
  shows "sorted_wrt (\<lambda>a b. mr_start a + mr_page_count a * 4096 \<le> mr_start b) ms"
  unfolding sorted_wrt_iff_nth_less
proof (intro allI impI)
  fix i j assume ij: "i < j" "j < length ms"
  then have "ms ! i \<noteq> ms ! j" "ms ! i \<in> set ms" "ms ! j \<in> set ms"
    using assms(1) by (auto simp: regions_apart_def nth_eq_iff_index_eq)
  moreover have "mr_start (ms ! i) \<le> mr_start (ms ! j)"
    using assms(2) ij sorted_nth_mono [of "map mr_start ms" i j] by simp
  moreover from calculation have "0 < mr_page_count (ms ! j)"
    and "mr_start (ms ! i) + mr_page_count (ms ! i) * 4096 \<le> mr_start (ms ! j) \<or>
      mr_start (ms ! j) + mr_page_count (ms ! j) * 4096 \<le> mr_start (ms ! i)"
    using assms(1) unfolding regions_apart_def by blast+
  ultimately show "mr_start (ms ! i) + mr_page_count (ms ! i) * 4096 \<le> mr_start (ms ! j)"
    by linarith
qed

lemma frames_init_inv:
  assumes "regions_apart ms"
  shows "frames_inv (frames_init ms)"
    and "free_set (frames_init ms) = {mr_start m + f * 4096 | m f. m \<in> set ms \<and> f < mr_page_count m}"
proof -
  let ?ms = "sort_key mr_start ms"
  let ?new = "\<lambda>m. region_new (mr_start m) (mr_page_count m)"
  have "regions_apart ?ms" using assms by (simp add: regions_apart_def)
  from sorted_apart [OF this sorted_sort_key] have "regions_sep (map ?new ?ms)"
    by (simp add: regions_sep_def sorted_wrt_map region_new_props)
  moreover have "used_count (?new m) = 0" for m :: MemoryRegion
  proof -
    have "{f. f < page_count (?new m) \<and> frame_used (?new m) f} = {}" by (auto simp: region_new_props)
    then show ?thesis by (simp add: used_count_def)
  qed
  then have "sum_list (map used_count (map ?new ?ms)) = 0" by (simp add: comp_def)
  ultimately show "frames_inv (frames_init ms)"
    by (auto simp: frames_inv_def frames_init_def Let_def region_new_props comp_def)
  show "free_set (frames_init ms) = {mr_start m + f * 4096 | m f. m \<in> set ms \<and> f < mr_page_count m}"
    by (auto simp: free_set_def frames_init_def Let_def free_in_def region_new_props)
qed

lemma init_count: "allocated_count (frames_init ms) = 0"
  by (simp add: frames_init_def Let_def)

subsection \<open>Reservation\<close>

lemma page_floor: "st div 4096 * 4096 \<le> p * 4096 \<longleftrightarrow> st < (p + 1) * (4096::nat)"
proof -
  have "st div 4096 * 4096 \<le> p * 4096 \<longleftrightarrow> st div 4096 < p + 1"
    by (simp only: mult_le_cancel2 less_Suc_eq_le Suc_eq_plus1 [symmetric]) simp
  also have "\<dots> \<longleftrightarrow> st < (p + 1) * 4096"
    by (rule div_less_iff_less_mult) simp
  finally show ?thesis .
qed

lemma page_ceil: "p * 4096 < (e + 0xfff) div 4096 * 4096 \<longleftrightarrow> p * 4096 < (e::nat)"
proof -
  have "p * 4096 < (e + 0xfff) div 4096 * 4096 \<longleftrightarrow> p + 1 \<le> (e + 0xfff) div 4096"
    by (simp only: mult_less_cancel2 Suc_le_eq Suc_eq_plus1 [symmetric]) simp
  also have "\<dots> \<longleftrightarrow> (p + 1) * 4096 \<le> e + 0xfff"
    by (rule less_eq_div_iff_mult_less_eq) simp
  also have "\<dots> \<longleftrightarrow> p * 4096 < e"
  proof -
    have "(p + 1) * 4096 = p * 4096 + 4096" by (simp only: add_mult_distrib mult_1)
    then show ?thesis by linarith
  qed
  finally show ?thesis .
qed

text \<open>
  While pages are being reserved the free lists of the touched regions are stale; only extents,
  bitmap sizes, the count and the free pages are maintained. Untouched regions are unchanged.
\<close>

definition bitmap_ok :: "RegionBuddyAllocator \<Rightarrow> bool" where
  "bitmap_ok r \<longleftrightarrow> length (bitmap r) = (page_count r + 63) div 64 \<and> 4096 dvd rstart r"

definition reserving ::
  "RegionBuddyAllocator list \<Rightarrow> nat set \<Rightarrow> RegionBuddyAllocator list \<times> nat \<times> bool list \<Rightarrow> bool" where
  "reserving rs0 X st \<longleftrightarrow> (case st of (rs, cnt, affected) \<Rightarrow>
     extents rs = extents rs0 \<and> regions_sep rs \<and> (\<forall>r\<in>set rs. bitmap_ok r) \<and> length affected = length rs \<and>
     (\<forall>i<length rs. \<not> affected ! i \<longrightarrow> rs ! i = rs0 ! i) \<and> cnt = sum_list (map used_count rs) \<and>
     (\<Union>r\<in>set rs. free_in r) = (\<Union>r\<in>set rs0. free_in r) - X)"

lemma covers_0: "covers 0 off f \<longleftrightarrow> f = off"
  by (auto simp: covers_def)

lemma reserve_page_step:
  assumes J: "reserving rs0 X (rs, cnt, affected)" and al: "4096 dvd addr"
  shows "reserving rs0 (insert addr X) (reserve_page addr (rs, cnt, affected))"
proof (cases "\<exists>i<length rs. contains_addr addr (rs ! i)")
  case False
  have "region_pos addr rs \<le> length rs" by (simp add: region_pos_def length_takeWhile_le)
  with False have "\<not> (region_pos addr rs > 0 \<and> contains_addr addr (rs ! (region_pos addr rs - 1)))" by auto
  then have "reserve_page addr (rs, cnt, affected) = (rs, cnt, affected)"
    by (auto simp: reserve_page_def Let_def)
  moreover have "addr \<notin> (\<Union>r\<in>set rs. free_in r)"
    using False free_in_contains [of addr] by (metis UN_E in_set_conv_nth)
  ultimately show ?thesis using J by (auto simp: reserving_def)
next
  case True
  then obtain i where i: "i < length rs" and c: "contains_addr addr (rs ! i)" by blast
  let ?r = "rs ! i"
  let ?off = "(addr - rstart ?r) div 4096"
  from J have sep: "regions_sep rs" and bm: "bitmap_ok ?r" and len: "length affected = length rs"
    using i by (auto simp: reserving_def)
  have off: "addr = rstart ?r + ?off * 4096" and lt: "?off < page_count ?r"
    using c al bm by (auto simp: contains_addr_def bitmap_ok_def elim!: dvdE)
  note pos = region_pos_eq [OF sep i c]
  have miss: "addr \<notin> (\<Union>j\<in>{..<length rs} - {i}. free_in (rs ! j))"
    using others_miss_block [OF sep i, of ?off 0] lt off by (auto simp: blk_def)
  show ?thesis
  proof (cases "is_frame_allocated (bitmap ?r) ?off")
    case True
    then have "reserve_page addr (rs, cnt, affected) = (rs, cnt, affected[i := True])"
      using pos c by (simp add: reserve_page_def Let_def)
    moreover have "addr \<notin> free_in ?r" using True off by (auto simp: free_in_def frame_used_def)
    then have "addr \<notin> (\<Union>r\<in>set rs. free_in r)" using miss free_set_split [OF i] by blast
    ultimately show ?thesis
      using J len i by (auto simp: reserving_def nth_list_update)
  next
    case False
    let ?r' = "?r\<lparr>bitmap := set_frame_allocated ?off (bitmap ?r)\<rparr>"
    have eq: "reserve_page addr (rs, cnt, affected) = (rs[i := ?r'], cnt + 1, affected[i := True])"
      using pos c False by (simp add: reserve_page_def Let_def)
    have ext: "same_extent ?r ?r'" by (simp add: same_extent_def)
    have used: "frame_used ?r' f \<longleftrightarrow> frame_used ?r f \<or> covers 0 ?off f" for f
      by (simp add: frame_used_def allocated_set_allocated covers_0)
    have "used_count ?r' = used_count ?r + 2 ^ 0"
      using False lt by (intro used_count_alloc [OF _ used]) (auto simp: covers_0 frame_used_def)
    then have "sum_list (map used_count (rs[i := ?r'])) = sum_list (map used_count rs) + 1"
      using sum_list_map_update [OF i, of used_count ?r'] by simp
    moreover have "blk 0 addr = {addr}" by (auto simp: blk_def)
    then have "free_in ?r' = free_in ?r - {addr}"
      using free_in_alloc [OF ext used] off by simp
    then have "(\<Union>r\<in>set (rs[i := ?r']). free_in r) = (\<Union>r\<in>set rs. free_in r) - {addr}"
      using miss unfolding Union_update [OF i] free_set_split [OF i] by blast
    moreover have "bitmap_ok ?r'" using bm by (simp add: bitmap_ok_def)
    ultimately show ?thesis
      unfolding eq using J len extents_update [OF i ext] regions_sep_update [OF sep i ext] all_update [of rs bitmap_ok ?r' i] i
      by (auto simp: reserving_def nth_list_update)
  qed
qed

lemma reserve_loop_props:
  assumes "reserving rs0 X st" and "4096 dvd addr"
  shows "reserving rs0 (X \<union> {x. addr \<le> x \<and> x < e \<and> 4096 dvd x}) (reserve_loop addr e st)"
  using assms
proof (induction addr e st arbitrary: X rule: reserve_loop.induct)
  case (1 addr e st)
  show ?case
  proof (cases "addr < e")
    case True
    obtain rs cnt aff where st: "st = (rs, cnt, aff)" by (cases st)
    have "reserving rs0 (insert addr X) (reserve_page addr st)"
      using reserve_page_step 1 st by simp
    from 1(1) [OF True this] 1(3)
    have "reserving rs0 (insert addr X \<union> {x. addr + 4096 \<le> x \<and> x < e \<and> 4096 dvd x}) (reserve_loop addr e st)"
      using True by (simp add: reserve_loop.simps [of addr e st])
    moreover have "insert addr X \<union> {x. addr + 4096 \<le> x \<and> x < e \<and> 4096 dvd x} =
        X \<union> {x. addr \<le> x \<and> x < e \<and> 4096 dvd x}"
    proof -
      have "x = addr \<or> addr + 4096 \<le> x" if "addr \<le> x" "4096 dvd x" for x
        using that 1(3) by (auto elim!: dvdE)
      then show ?thesis using True 1(3) by auto
    qed
    ultimately show ?thesis by simp
  next
    case False
    then have e: "X \<union> {x. addr \<le> x \<and> x < e \<and> 4096 dvd x} = X" by auto
    show ?thesis unfolding e using 1(2) False by (simp add: reserve_loop.simps [of addr e st])
  qed
qed

lemma rebuild_props:
  "rstart (build_free_lists r) = rstart r" "page_count (build_free_lists r) = page_count r"
  "frame_used (build_free_lists r) = frame_used r"
  by (simp_all add: build_free_lists_def frame_used_def)

lemma rebuild_map:
  "length aff = length rs \<Longrightarrow> (\<And>r. g (build_free_lists r) = g r) \<Longrightarrow>
     map g (map2 (\<lambda>r a. if a then build_free_lists r else r) rs aff) = map g rs"
  by (intro nth_equalityI) auto

lemma reserve_range_props:
  assumes inv: "frames_inv s" and al: "\<forall>r\<in>set (region_allocators s). 4096 dvd rstart r" and sz: "0 < sz"
  shows "frames_inv (reserve_range st sz s) \<and> site (reserve_range st sz s) = site s \<and>
    free_set (reserve_range st sz s) =
      free_set s - {x. st div 4096 * 4096 \<le> x \<and> x < (st + sz + 0xfff) div 4096 * 4096 \<and> 4096 dvd x}"
proof -
  let ?rs = "region_allocators s" and ?a = "st div 4096 * 4096" and ?e = "(st + sz + 0xfff) div 4096 * 4096"
  let ?X = "{x. ?a \<le> x \<and> x < ?e \<and> 4096 dvd x}"
  have "reserving ?rs {} (?rs, allocated_count s, replicate (length ?rs) False)"
    using inv al by (auto simp: reserving_def frames_inv_def bitmap_ok_def region_inv_def)
  note loop = reserve_loop_props [OF this dvd_triv_right, of "st div 4096" ?e]
  obtain rs cnt aff where l: "reserve_loop ?a ?e (?rs, allocated_count s, replicate (length ?rs) False) = (rs, cnt, aff)"
    by (rule prod_cases3)
  with loop have J: "reserving ?rs ?X (rs, cnt, aff)" by simp
  let ?rs' = "map2 (\<lambda>r a. if a then build_free_lists r else r) rs aff"
  have s': "reserve_range st sz s = s\<lparr>region_allocators := ?rs', allocated_count := cnt\<rparr>"
    using l sz by (simp add: reserve_range_def Let_def)
  from J have len: "length aff = length rs" and ex: "extents rs = extents ?rs" by (simp_all add: reserving_def)
  then have len': "length rs = length ?rs" by (metis extents_def length_map)
  have "map free_in ?rs' = map free_in rs" "map used_count ?rs' = map used_count rs"
    "map page_count ?rs' = map page_count rs" and ex': "extents ?rs' = extents rs"
    unfolding extents_def
    by (rule rebuild_map [OF len]; simp add: free_in_def used_count_def rebuild_props)+
  moreover have "map page_count rs = map page_count ?rs"
    using arg_cong [OF ex, of "map snd"] by (simp add: extents_def comp_def)
  moreover have "region_inv (?rs' ! i)" if "i < length rs" for i
  proof (cases "aff ! i")
    case True
    have "bitmap_ok (rs ! i)" using J that by (simp add: reserving_def)
    with True that len show ?thesis by (simp add: build_free_lists_inv bitmap_ok_def)
  next
    case False
    with J that len len' inv show ?thesis by (simp add: reserving_def frames_inv_def)
  qed
  then have "\<forall>r\<in>set ?rs'. region_inv r"
    using len unfolding set_conv_nth by (auto simp del: nth_map)
  moreover have "regions_sep ?rs'"
    using J regions_sep_extents [OF ex'] by (simp add: reserving_def)
  ultimately have "frames_inv (reserve_range st sz s)"
    using J inv by (simp add: s' frames_inv_def reserving_def)
  moreover have "site (reserve_range st sz s) = site s"
    using ex ex' by (simp add: s' site_def fun_eq_iff)
  moreover have "(\<Union>r\<in>set ?rs'. free_in r) = (\<Union>r\<in>set rs. free_in r)"
    using \<open>map free_in ?rs' = map free_in rs\<close> by (metis set_map)
  then have "free_set (reserve_range st sz s) = free_set s - ?X"
    using J by (simp add: s' free_set_def reserving_def)
  ultimately show ?thesis by blast
qed

section \<open>The block-allocator contract\<close>

text \<open>
  What the users of the frame allocator rely on. \<open>free\<close> is the set of free frames, \<open>blk k a\<close> the
  frames of the block of order \<open>k\<close> at \<open>a\<close>, \<open>site\<close> the admissible block positions.
\<close>

locale block_allocator =
  fixes inv :: "'s \<Rightarrow> bool"
    and free :: "'s \<Rightarrow> nat set"
    and site :: "'s \<Rightarrow> nat \<Rightarrow> nat \<Rightarrow> bool"
    and blk :: "nat \<Rightarrow> nat \<Rightarrow> nat set"
    and alloc :: "nat \<Rightarrow> 's \<Rightarrow> nat option \<times> 's"
    and dealloc :: "nat \<Rightarrow> nat \<Rightarrow> 's \<Rightarrow> ('e, unit) res \<times> 's"
  assumes alloc_Some: "inv s \<Longrightarrow> alloc k s = (Some a, s') \<Longrightarrow>
      inv s' \<and> site s k a \<and> blk k a \<subseteq> free s \<and> free s' = free s - blk k a \<and> site s' = site s"
    and alloc_None: "inv s \<Longrightarrow> alloc k s = (None, s') \<Longrightarrow> s' = s"
    and dealloc_Ok: "inv s \<Longrightarrow> site s k a \<Longrightarrow> blk k a \<inter> free s = {} \<Longrightarrow>
      \<exists>s'. dealloc a k s = (Ok (), s') \<and> inv s' \<and> free s' = free s \<union> blk k a \<and> site s' = site s"
begin

lemma alloc_dealloc_restores:
  assumes "inv s" and "alloc k s = (Some a, s')"
  shows "\<exists>s''. dealloc a k s' = (Ok (), s'') \<and> inv s'' \<and> free s'' = free s \<and> site s'' = site s"
proof -
  note al = alloc_Some [OF assms]
  from al dealloc_Ok [of s' k a] obtain s'' where "dealloc a k s' = (Ok (), s'')" "inv s''"
    "free s'' = free s' \<union> blk k a" "site s'' = site s'" by auto
  with al show ?thesis by auto
qed

text \<open>A history: the state and the blocks handed out and not yet returned.\<close>

definition apart :: "nat \<times> nat \<Rightarrow> nat \<times> nat \<Rightarrow> bool" where
  "apart x y \<longleftrightarrow> blk (fst x) (snd x) \<inter> blk (fst y) (snd y) = {}"

definition sound :: "'s \<Rightarrow> (nat \<times> nat) list \<Rightarrow> bool" where
  "sound s live \<longleftrightarrow> inv s \<and>
     (\<forall>x\<in>set live. site s (fst x) (snd x) \<and> blk (fst x) (snd x) \<inter> free s = {}) \<and> sorted_wrt apart live"

lemma sound_alloc:
  assumes "sound s live" and "alloc k s = (Some a, s')"
  shows "sound s' ((k, a) # live)"
proof -
  from assms(1) have inv: "inv s" and live: "\<And>x. x \<in> set live \<Longrightarrow> site s (fst x) (snd x)"
    "\<And>x. x \<in> set live \<Longrightarrow> blk (fst x) (snd x) \<inter> free s = {}" and srt: "sorted_wrt apart live"
    by (simp_all add: sound_def)
  from alloc_Some [OF inv assms(2)] have al: "inv s'" "site s' = site s" "site s k a" "blk k a \<subseteq> free s"
    "free s' = free s - blk k a" by simp_all
  have "apart (k, a) x" if "x \<in> set live" for x
    using live(2) [OF that] al(4) unfolding apart_def by auto
  moreover have "blk (fst x) (snd x) \<inter> free s' = {}" if "x \<in> set live" for x
    using live(2) [OF that] al(5) by blast
  ultimately show ?thesis
    using al live(1) srt by (auto simp: sound_def)
qed

lemma sound_alloc_None: "sound s live \<Longrightarrow> alloc k s = (None, s') \<Longrightarrow> sound s' live"
  by (metis alloc_None sound_def)

lemma sound_dealloc:
  assumes "sound s (xs @ (k, a) # ys)"
  shows "\<exists>s'. dealloc a k s = (Ok (), s') \<and> sound s' (xs @ ys)"
proof -
  from assms have inv: "inv s" and st: "site s k a" and used: "blk k a \<inter> free s = {}"
    and live: "\<And>x. x \<in> set (xs @ ys) \<Longrightarrow> site s (fst x) (snd x) \<and> blk (fst x) (snd x) \<inter> free s = {}"
    and srt: "sorted_wrt apart (xs @ ys)"
    and ap: "\<And>x. x \<in> set (xs @ ys) \<Longrightarrow> blk (fst x) (snd x) \<inter> blk k a = {}"
    by (auto simp: sound_def sorted_wrt_append apart_def)
  from dealloc_Ok [OF inv st used] obtain s' where s': "dealloc a k s = (Ok (), s')" "inv s'"
    "free s' = free s \<union> blk k a" "site s' = site s" by blast
  have "sound s' (xs @ ys)"
    using s'(2-4) live ap srt by (simp add: sound_def Int_Un_distrib)
  with s'(1) show ?thesis by blast
qed

end

interpretation frames: block_allocator frames_inv free_set site blk allocate_order deallocate_order
proof
  show "frames_inv s' \<and> site s k a \<and> blk k a \<subseteq> free_set s \<and> free_set s' = free_set s - blk k a \<and> site s' = site s"
    if "frames_inv s" "allocate_order k s = (Some a, s')" for s k a s'
    using allocate_order_Some [OF that] by blast
  show "s' = s" if "frames_inv s" "allocate_order k s = (None, s')" for s k s'
    using that(2) by (auto simp: allocate_order_def split: prod.splits option.splits dest: allocate_in_None)
  show "\<exists>s'. deallocate_order a k s = (Ok (), s') \<and> frames_inv s' \<and> free_set s' = free_set s \<union> blk k a \<and> site s' = site s"
    if "frames_inv s" "site s k a" "blk k a \<inter> free_set s = {}" for s k a
    using deallocate_order_Ok [OF that] by blast
qed

section \<open>Histories\<close>

text \<open>
  A client allocates blocks and returns blocks it holds, in any order. \<open>None\<close> is a panic of the
  allocator.
\<close>

datatype frame_op = FAlloc nat | FFree nat

fun frame_step :: "frame_op \<Rightarrow> BuddyFrameAllocator \<times> (nat \<times> nat) list \<Rightarrow>
    (BuddyFrameAllocator \<times> (nat \<times> nat) list) option" where
  "frame_step (FAlloc k) (s, live) =
     (case allocate_order k s of (Some a, s') \<Rightarrow> Some (s', (k, a) # live) | (None, s') \<Rightarrow> Some (s', live))"
| "frame_step (FFree i) (s, live) =
     (if i < length live then
        (case deallocate_order (snd (live ! i)) (fst (live ! i)) s of
           (Ok _, s') \<Rightarrow> Some (s', remove_nth i live) | _ \<Rightarrow> None)
      else Some (s, live))"

fun frame_run :: "frame_op list \<Rightarrow> BuddyFrameAllocator \<times> (nat \<times> nat) list \<Rightarrow>
    (BuddyFrameAllocator \<times> (nat \<times> nat) list) option" where
  "frame_run [] st = Some st"
| "frame_run (p # ps) st = (case frame_step p st of None \<Rightarrow> None | Some st' \<Rightarrow> frame_run ps st')"

definition live_frames :: "(nat \<times> nat) list \<Rightarrow> nat set" where
  "live_frames live = (\<Union>x\<in>set live. blk (fst x) (snd x))"

definition history_ok :: "nat set \<Rightarrow> BuddyFrameAllocator \<times> (nat \<times> nat) list \<Rightarrow> bool" where
  "history_ok F st \<longleftrightarrow> (case st of (s, live) \<Rightarrow> frames.sound s live \<and> free_set s \<union> live_frames live = F \<and>
     allocated_count s = sum_list (map (\<lambda>x. 2 ^ fst x) live))"

lemma live_frames_mid: "live_frames (xs @ (k, a) # ys) = blk k a \<union> live_frames (xs @ ys)"
  by (auto simp: live_frames_def)

lemma frame_step_ok: "history_ok F (s, live) \<Longrightarrow> \<exists>st'. frame_step p (s, live) = Some st' \<and> history_ok F st'"
proof (cases p)
  case (FAlloc k)
  assume h: "history_ok F (s, live)"
  then have snd: "frames.sound s live" and inv: "frames_inv s"
    by (simp_all add: history_ok_def frames.sound_def)
  show ?thesis
  proof (cases "allocate_order k s")
    case (Pair r s')
    show ?thesis
    proof (cases r)
      case None
      with Pair have "s' = s" using frames.alloc_None [OF inv] by blast
      with FAlloc None Pair h show ?thesis by simp
    next
      case (Some a)
      with Pair have al: "allocate_order k s = (Some a, s')" by simp
      from allocate_order_Some [OF inv al] have "free_set s' \<union> blk k a = free_set s"
        "allocated_count s' = allocated_count s + 2 ^ k" by auto
      with frames.sound_alloc [OF snd al] h FAlloc al show ?thesis
        by (auto simp: history_ok_def live_frames_def)
    qed
  qed
next
  case (FFree i)
  assume h: "history_ok F (s, live)"
  show ?thesis
  proof (cases "i < length live")
    case False
    with FFree h show ?thesis by simp
  next
    case True
    obtain k a where ka: "live ! i = (k, a)" by force
    let ?xs = "take i live" and ?ys = "drop (Suc i) live"
    have live: "live = ?xs @ (k, a) # ?ys" using id_take_nth_drop [OF True] ka by simp
    from h have "frames.sound s (?xs @ (k, a) # ?ys)" using live by (simp add: history_ok_def)
    from frames.sound_dealloc [OF this] obtain s' where
      d: "deallocate_order a k s = (Ok (), s')" "frames.sound s' (?xs @ ?ys)" by blast
    from \<open>frames.sound s (?xs @ (k, a) # ?ys)\<close> have "frames_inv s" "site s k a" "blk k a \<inter> free_set s = {}"
      by (auto simp: frames.sound_def)
    from deallocate_order_Ok [OF this] d(1)
    have "free_set s' = free_set s \<union> blk k a" "allocated_count s = allocated_count s' + 2 ^ k" by auto
    moreover have "live_frames live = blk k a \<union> live_frames (?xs @ ?ys)"
      "sum_list (map (\<lambda>x. 2 ^ fst x) live) = 2 ^ k + sum_list (map (\<lambda>x. 2 ^ fst x) (?xs @ ?ys) :: nat list)"
      using arg_cong [OF live, of live_frames] arg_cong [OF live, of "\<lambda>l. sum_list (map (\<lambda>x. 2 ^ fst x) l :: nat list)"]
      by (simp_all add: live_frames_mid)
    ultimately have "history_ok F (s', ?xs @ ?ys)"
      using h d(2) by (auto simp: history_ok_def)
    with FFree True ka d(1) show ?thesis by (simp add: remove_nth_def)
  qed
qed

lemma frame_run_ok: "history_ok F st \<Longrightarrow> \<exists>st'. frame_run ps st = Some st' \<and> history_ok F st'"
proof (induction ps arbitrary: st)
  case (Cons p ps)
  obtain s live where "st = (s, live)" by force
  with Cons frame_step_ok [of F s live p] show ?case by auto
qed simp

section \<open>Properties\<close>

text \<open>
  C11: The word-at-a-time range check of the bitmap (per-bit head, 64 frames per comparison, per-bit
  tail) answers exactly whether every frame of the range is free, for every range the bitmap covers.
\<close>

theorem is_range_free_equiv:
  assumes "s + c \<le> 64 * length bm"
  shows "is_range_free bm s c \<longleftrightarrow> (\<forall>f. s \<le> f \<and> f < s + c \<longrightarrow> \<not> is_frame_allocated bm f)"
  using assms is_range_free_iff [of s c bm] by (simp add: frames_free_def)

theorem is_range_free_equiv_witness:
  "is_range_free [1, 0, 2] 1 128 \<longleftrightarrow> (\<forall>f. 1 \<le> f \<and> f < 129 \<longrightarrow> \<not> is_frame_allocated [1, 0, 2] f)"
  using is_range_free_equiv [of 1 128 "[1, 0, 2]"] by simp


definition demo_regions :: "MemoryRegion list" where
  "demo_regions = [\<lparr>mr_start = 0x400000, mr_page_count = 2\<rparr>, \<lparr>mr_start = 0x100000, mr_page_count = 7\<rparr>]"

lemma demo_regions_apart: "regions_apart demo_regions"
  by (auto simp: regions_apart_def demo_regions_def)


text \<open>
  C8: A request is refused only for lack of memory: when an allocation of \<open>2 ^ k\<close> frames fails,
  nothing changes and no block of that size, aligned inside its region, is entirely free. Free buddies
  are always coalesced, so fragmentation into mergeable pieces cannot make a request fail.
\<close>

theorem allocate_order_complete:
  assumes "frames_inv s" and "allocate_order k s = (None, s')"
  shows "s' = s \<and> (\<forall>a. site s k a \<longrightarrow> \<not> blk k a \<subseteq> free_set s)"
  using allocate_order_None [OF assms] frames.alloc_None [OF assms] by blast

lemma demo_init_inv: "frames_inv (frames_init demo_regions)"
  by (rule frames_init_inv [OF demo_regions_apart])


definition tiny_regions :: "MemoryRegion list" where
  "tiny_regions = [\<lparr>mr_start = 0, mr_page_count = 2\<rparr>]"

theorem allocate_order_complete_witness:
  "\<exists>s s'. allocate_order 1 s = (None, s') \<and> site s 1 0 \<and> \<not> blk 1 0 \<subseteq> free_set s"
proof -
  let ?i = "frames_init tiny_regions" and ?s = "snd (allocate_order 0 (frames_init tiny_regions))"
  have inv: "frames_inv ?i"
    by (rule frames_init_inv) (simp add: regions_apart_def tiny_regions_def)
  obtain a where a: "allocate_order 0 ?i = (Some a, ?s)"
  proof -
    have "fst (allocate_order 0 ?i) = Some 0" by code_simp
    with that show ?thesis by (metis prod.collapse)
  qed
  note al = allocate_order_Some [OF inv a]
  have "fst (allocate_order 1 ?s) = None" by code_simp
  then obtain s' where s': "allocate_order 1 ?s = (None, s')" by (metis prod.collapse)
  have "site ?i 1 0"
    by (auto simp: site_def extents_def frames_init_def Let_def tiny_regions_def region_new_props block_ok_def MAX_ORDER_def)
  with al have "site ?s 1 0" by simp
  with allocate_order_complete [OF _ s'] al s' show ?thesis by blast
qed

text \<open>
  C10: Releasing a frame that is free, at any order, is detected: the kernel panics instead of
  corrupting the free lists.
\<close>

theorem double_free_panics:
  assumes "frames_inv s" and "a \<in> free_set s"
  shows "fst (deallocate_order a k s) = Panic"
  using deallocate_free_panics [OF assms] by simp

theorem double_free_panics_witness:
  "fst (deallocate_order 0x101000 0 (frames_init demo_regions)) = Panic"
proof -
  have "(0x101000 :: nat) \<in> free_set (frames_init demo_regions)"
    unfolding frames_init_inv(2) [OF demo_regions_apart]
    by (intro CollectI exI [of _ "\<lparr>mr_start = 0x100000, mr_page_count = 7\<rparr>"] exI [of _ 1])
       (simp add: demo_regions_def)
  from double_free_panics [OF demo_init_inv this] show ?thesis .
qed



end
