(* ===== verification/Rust_Str.thy ===== *)
theory Rust_Str
  imports Sabos_Prelude "HOL-Library.List_Lexorder" "HOL-Library.Char_ord" "HOL-Library.Sublist"
begin

text \<open>
  The string operations of the Rust standard library that the sources use. A \<^verbatim>\<open>str\<close> is the list
  of its UTF-8 bytes, as characters. \<^verbatim>\<open>split\<close>, prefixes and ASCII case act on bytes;
  \<^verbatim>\<open>from_utf8\<close>, \<^verbatim>\<open>chars\<close>, \<^verbatim>\<open>encode_utf16\<close> and \<^verbatim>\<open>from_utf16\<close> go through code points.
\<close>

section \<open>Splitting and joining\<close>

fun split_on :: "char \<Rightarrow> string \<Rightarrow> string list" where
  "split_on c [] = [[]]"
| "split_on c (x # xs) =
     (if x = c then [] # split_on c xs
      else case split_on c xs of [] \<Rightarrow> [[x]] | y # ys \<Rightarrow> (x # y) # ys)"

fun join_with :: "char \<Rightarrow> string list \<Rightarrow> string" where
  "join_with c [] = []"
| "join_with c [x] = x"
| "join_with c (x # y # ys) = x @ c # join_with c (y # ys)"

lemma split_on_not_Nil [simp]: "split_on c xs \<noteq> []"
  by (induction xs) (auto split: list.splits)

lemma join_split [simp]: "join_with c (split_on c xs) = xs"
proof (induction xs)
  case (Cons x xs)
  obtain y ys where "split_on c xs = y # ys" by (cases "split_on c xs") auto
  with Cons show ?case by (cases ys) auto
qed simp

lemma split_on_no_sep: "y \<in> set (split_on c xs) \<Longrightarrow> c \<notin> set y"
  by (induction xs arbitrary: y) (auto split: list.splits if_splits)

lemma split_on_single: "c \<notin> set x \<Longrightarrow> split_on c x = [x]"
  by (induction x) auto

lemma split_on_append: "c \<notin> set x \<Longrightarrow> split_on c (x @ c # ys) = x # split_on c ys"
  by (induction x) auto

lemma split_join: "cs \<noteq> [] \<Longrightarrow> (\<And>x. x \<in> set cs \<Longrightarrow> c \<notin> set x) \<Longrightarrow> split_on c (join_with c cs) = cs"
  by (induction cs rule: join_with.induct) (auto simp: split_on_single split_on_append)

section \<open>Prefixes and case\<close>

definition starts_with :: "string \<Rightarrow> string \<Rightarrow> bool" where
  "starts_with p s = (take (length p) s = p)"

lemma starts_with_iff: "starts_with p s \<longleftrightarrow> (\<exists>t. s = p @ t)"
  by (auto simp: starts_with_def) (metis append_take_drop_id)

definition ascii_lower :: "char \<Rightarrow> char" where
  "ascii_lower c = (let n = of_char c :: nat in if 65 \<le> n \<and> n \<le> 90 then char_of (n + 32) else c)"

definition ascii_upper :: "char \<Rightarrow> char" where
  "ascii_upper c = (let n = of_char c :: nat in if 97 \<le> n \<and> n \<le> 122 then char_of (n - 32) else c)"

definition eq_ignore_ascii_case :: "string \<Rightarrow> string \<Rightarrow> bool" where
  "eq_ignore_ascii_case a b = (map ascii_lower a = map ascii_lower b)"

definition trim_start_matches :: "char \<Rightarrow> string \<Rightarrow> string" where
  "trim_start_matches c s = dropWhile (\<lambda>x. x = c) s"

text \<open>\<^verbatim>\<open>rfind\<close>, \<^verbatim>\<open>rsplitn(2)\<close>: splitting at the last occurrence of a character.\<close>

fun rsplit_last :: "char \<Rightarrow> string \<Rightarrow> (string \<times> string) option" where
  "rsplit_last c [] = None"
| "rsplit_last c (x # xs) =
     (case rsplit_last c xs of
        Some (a, b) \<Rightarrow> Some (x # a, b)
      | None \<Rightarrow> if x = c then Some ([], xs) else None)"

lemma rsplit_last_None_iff: "rsplit_last c s = None \<longleftrightarrow> c \<notin> set s"
  by (induction s) (auto split: option.splits)

lemma rsplit_last_SomeD: "rsplit_last c s = Some (a, b) \<Longrightarrow> s = a @ c # b \<and> c \<notin> set b"
proof (induction s arbitrary: a)
  case (Cons x s)
  then show ?case
    by (auto split: option.splits if_splits simp: rsplit_last_None_iff)
qed simp

section \<open>Bytes and code points\<close>

definition string_of_bytes :: "bytes \<Rightarrow> string" where
  "string_of_bytes bs = map (\<lambda>b. char_of (unat b)) bs"

definition bytes_of_string :: "string \<Rightarrow> bytes" where
  "bytes_of_string s = map (\<lambda>c. of_nat (of_char c)) s"

lemma of_char_less: "(of_char c :: nat) < 256"
proof -
  have "of_char c mod 256 = (of_char c :: nat)" by (rule of_char_mod_256)
  then show ?thesis by (metis mod_less_divisor zero_less_numeral)
qed

lemma string_of_bytes_of_string [simp]: "string_of_bytes (bytes_of_string s) = s"
  by (induction s) (simp_all add: string_of_bytes_def bytes_of_string_def unat_of_nat of_char_less)

lemma bytes_of_string_of_bytes [simp]: "bytes_of_string (string_of_bytes bs) = bs"
proof -
  have "unat b mod 256 = unat b" for b :: u8
  proof -
    have "unat b < 2 ^ LENGTH(8)" by (rule unsigned_less)
    then show ?thesis by simp
  qed
  then show ?thesis
    by (induction bs) (simp_all add: string_of_bytes_def bytes_of_string_def)
qed

lemma length_string_of_bytes [simp]: "length (string_of_bytes bs) = length bs"
  "length (bytes_of_string s) = length s"
  by (simp_all add: string_of_bytes_def bytes_of_string_def)

text \<open>\<^verbatim>\<open>core::str::from_utf8\<close>: the byte sequences that are well-formed UTF-8.\<close>

definition utf8_cont :: "u8 \<Rightarrow> bool" where
  "utf8_cont b = (0x80 \<le> b \<and> b \<le> 0xBF)"

fun utf8_valid :: "bytes \<Rightarrow> bool" where
  "utf8_valid [] = True"
| "utf8_valid (a # xs) =
     (if a < 0x80 then utf8_valid xs
      else case xs of [] \<Rightarrow> False | b # ys \<Rightarrow>
        if 0xC2 \<le> a \<and> a \<le> 0xDF then utf8_cont b \<and> utf8_valid ys
        else case ys of [] \<Rightarrow> False | c # zs \<Rightarrow>
          if 0xE0 \<le> a \<and> a \<le> 0xEF then
            (if a = 0xE0 then 0xA0 \<le> b \<and> b \<le> 0xBF else if a = 0xED then 0x80 \<le> b \<and> b \<le> 0x9F else utf8_cont b) \<and>
            utf8_cont c \<and> utf8_valid zs
          else case zs of [] \<Rightarrow> False | d # ws \<Rightarrow>
            0xF0 \<le> a \<and> a \<le> 0xF4 \<and>
            (if a = 0xF0 then 0x90 \<le> b \<and> b \<le> 0xBF else if a = 0xF4 then 0x80 \<le> b \<and> b \<le> 0x8F else utf8_cont b) \<and>
            utf8_cont c \<and> utf8_cont d \<and> utf8_valid ws)"

definition from_utf8 :: "bytes \<Rightarrow> string option" where
  "from_utf8 bs = (if utf8_valid bs then Some (string_of_bytes bs) else None)"

end
