(* ===== verification/Vfs.thy ===== *)
theory Vfs
  imports Rust_Str User_Ptr
begin

text \<open>
  \<^verbatim>\<open>kernel/src/vfs.rs\<close>: path normalisation, the mount table and the operations that route a path
  to a mounted file system. The traits \<^verbatim>\<open>VfsNode\<close> and \<^verbatim>\<open>FileSystem\<close> are records of functions; a
  file system acts on a store \<open>'s\<close> shared by all of them.
\<close>

section \<open>Interfaces\<close>

datatype VfsError = NotFound | NotADirectory | NotAFile | ReadOnly | PermissionDenied
  | PathTraversal | InvalidPath | AlreadyExists | NoSpace | IoError | NotSupported

datatype VfsNodeKind = File | Directory

record VfsDirEntry =
  de_name :: string
  de_kind :: VfsNodeKind
  de_size :: nat

text \<open>An open node: its kind, its size and its read method (offset, buffer length).\<close>

record vfs_node =
  node_kind :: VfsNodeKind
  node_size :: nat
  node_read :: "nat \<Rightarrow> nat \<Rightarrow> (VfsError, bytes) res"

record 's file_system =
  fs_open :: "string \<Rightarrow> 's \<Rightarrow> (VfsError, vfs_node) res"
  fs_list_dir :: "string \<Rightarrow> 's \<Rightarrow> (VfsError, VfsDirEntry list) res"
  fs_create_file :: "string \<Rightarrow> bytes \<Rightarrow> 's \<Rightarrow> (VfsError, unit) res \<times> 's"
  fs_delete_file :: "string \<Rightarrow> 's \<Rightarrow> (VfsError, unit) res \<times> 's"
  fs_create_dir :: "string \<Rightarrow> 's \<Rightarrow> (VfsError, unit) res \<times> 's"
  fs_delete_dir :: "string \<Rightarrow> 's \<Rightarrow> (VfsError, unit) res \<times> 's"
  fs_read_file :: "string \<Rightarrow> 's \<Rightarrow> (VfsError, bytes) res"

text \<open>The default methods of the trait: everything that writes is refused.\<close>

definition default_create_file :: "string \<Rightarrow> bytes \<Rightarrow> 's \<Rightarrow> (VfsError, unit) res \<times> 's" where
  "default_create_file path data s = (Err VfsError.ReadOnly, s)"

definition default_delete :: "string \<Rightarrow> 's \<Rightarrow> (VfsError, unit) res \<times> 's" where
  "default_delete path s = (Err VfsError.ReadOnly, s)"

text \<open>
  The default \<^verbatim>\<open>read_file\<close>: read until a read returns no bytes, with a 4096-byte buffer when the
  node reports size 0 and into the rest of a buffer of the node's size otherwise. A node that never
  returns 0 keeps the loop running: \<open>None\<close>. A node that claims more bytes than the buffer holds
  makes the slicing panic.
\<close>

partial_function (option) read_chunks ::
  "(nat \<Rightarrow> nat \<Rightarrow> (VfsError, bytes) res) \<Rightarrow> nat \<Rightarrow> bytes \<Rightarrow> (VfsError, bytes) res option" where
  "read_chunks rd offset data =
     (case rd offset 4096 of
        Err e \<Rightarrow> Some (Err e)
      | Panic \<Rightarrow> Some Panic
      | Ok d \<Rightarrow>
          if length d = 0 then Some (Ok data)
          else if length d > 4096 then Some Panic
          else read_chunks rd (offset + length d) (data @ d))"

partial_function (option) read_sized ::
  "(nat \<Rightarrow> nat \<Rightarrow> (VfsError, bytes) res) \<Rightarrow> nat \<Rightarrow> nat \<Rightarrow> bytes \<Rightarrow> (VfsError, bytes) res option" where
  "read_sized rd sz offset data =
     (if offset > sz then Some Panic
      else case rd offset (sz - offset) of
        Err e \<Rightarrow> Some (Err e)
      | Panic \<Rightarrow> Some Panic
      | Ok d \<Rightarrow>
          if length d = 0 then Some (Ok data)
          else read_sized rd sz (offset + length d) (data @ d))"

definition default_read_file ::
  "('s \<Rightarrow> (VfsError, vfs_node) res) \<Rightarrow> 's \<Rightarrow> (VfsError, bytes) res option" where
  "default_read_file op s =
     (case op s of
        Err e \<Rightarrow> Some (Err e)
      | Panic \<Rightarrow> Some Panic
      | Ok node \<Rightarrow>
          if node_size node = 0 then read_chunks (node_read node) 0 []
          else read_sized (node_read node) (node_size node) 0 [])"

section \<open>Paths\<close>

text \<open>The loop of \<^verbatim>\<open>normalize_path\<close> over the components; \<open>result\<close> starts as \<^verbatim>\<open>"/"\<close>.\<close>

fun normalize_loop :: "string \<Rightarrow> string list \<Rightarrow> (VfsError, string) res" where
  "normalize_loop result [] = Ok result"
| "normalize_loop result (component # rest) =
     (if component = [] then normalize_loop result rest
      else if component = ''.'' then normalize_loop result rest
      else if component = ''..'' then Err VfsError.PathTraversal
      else normalize_loop ((if length result > 1 then result @ ''/'' else result) @ component) rest)"

definition normalize_path :: "string \<Rightarrow> (VfsError, string) res" where
  "normalize_path path =
     (if path = [] then Ok ''/'' else normalize_loop ''/'' (split_on (CHR ''/'') path))"

definition validate_relative_path :: "string \<Rightarrow> (VfsError, string) res" where
  "validate_relative_path path =
     (if path = [] then Err InvalidPath
      else if starts_with ''/'' path then Err InvalidPath
      else if ''..'' \<in> set (split_on (CHR ''/'') path) then Err VfsError.PathTraversal
      else Ok path)"

definition vfs_error_to_syscall :: "VfsError \<Rightarrow> SyscallError" where
  "vfs_error_to_syscall e = (case e of
      NotFound \<Rightarrow> FileNotFound | NotADirectory \<Rightarrow> InvalidArgument | NotAFile \<Rightarrow> InvalidArgument
    | ReadOnly \<Rightarrow> SyscallError.ReadOnly | PermissionDenied \<Rightarrow> SyscallError.PermissionDenied
    | PathTraversal \<Rightarrow> SyscallError.PathTraversal | InvalidPath \<Rightarrow> InvalidArgument
    | AlreadyExists \<Rightarrow> Other | NoSpace \<Rightarrow> Other | IoError \<Rightarrow> Other
    | NotSupported \<Rightarrow> SyscallError.NotSupported)"

section \<open>The mount table\<close>

text \<open>
  \<^verbatim>\<open>BTreeMap<String, MountEntry>\<close>: an association list in key order. The factory of an entry is the
  file system it makes.
\<close>

type_synonym 's mounts = "(string \<times> 's file_system) list"

fun mount :: "string \<Rightarrow> 's file_system \<Rightarrow> 's mounts \<Rightarrow> 's mounts" where
  "mount mp fs [] = [(mp, fs)]"
| "mount mp fs ((k, f) # m) =
     (if k = mp then (mp, fs) # m
      else if mp < k then (mp, fs) # (k, f) # m
      else (k, f) # mount mp fs m)"

definition mount_matches :: "string \<Rightarrow> string \<Rightarrow> bool" where
  "mount_matches key path = (path = key \<or> starts_with (key @ ''/'') path \<or> key = ''/'')"

fun best_mount :: "string \<Rightarrow> 's mounts \<Rightarrow> (string \<times> 's file_system) option \<Rightarrow> nat \<Rightarrow> (string \<times> 's file_system) option" where
  "best_mount path [] best best_len = best"
| "best_mount path ((k, f) # m) best best_len =
     (if mount_matches k path \<and> length k > best_len then best_mount path m (Some (k, f)) (length k)
      else best_mount path m best best_len)"

text \<open>\<^verbatim>\<open>&normalized_path[n..]\<close> panics when \<open>n\<close> exceeds the length.\<close>

definition str_from :: "nat \<Rightarrow> string \<Rightarrow> (VfsError, string) res" where
  "str_from n s = (if n \<le> length s then Ok (drop n s) else Panic)"

definition resolve :: "'s mounts \<Rightarrow> string \<Rightarrow> (VfsError, 's file_system \<times> string) res" where
  "resolve m path =
     (case best_mount path m None 0 of
        None \<Rightarrow> Err NotFound
      | Some (k, f) \<Rightarrow>
          res_bind (if k = ''/'' then str_from 1 path
                    else if path = k then Ok []
                    else str_from (length k + 1) path) (\<lambda>relative. Ok (f, relative)))"

definition mount_points :: "'s mounts \<Rightarrow> string list" where
  "mount_points m = filter (\<lambda>k. k \<noteq> ''/'') (map fst m)"

text \<open>\<^verbatim>\<open>init\<close>: the devices that were found decide which file systems are mounted.\<close>

definition vfs_init :: "'s file_system \<Rightarrow> 's file_system \<Rightarrow> 's file_system option \<Rightarrow> 's file_system option \<Rightarrow>
    's file_system option \<Rightarrow> 's file_system option \<Rightarrow> 's mounts" where
  "vfs_init root proc host ninep ahci nvme =
     (let m = mount ''/proc'' proc (mount ''/'' root []);
          m = (case host of None \<Rightarrow> m | Some f \<Rightarrow> mount ''/host'' f m);
          m = (case ninep of None \<Rightarrow> m | Some f \<Rightarrow> mount ''/9p'' f m);
          m = (case ahci of None \<Rightarrow> m | Some f \<Rightarrow> mount ''/ahci'' f m)
      in (case nvme of None \<Rightarrow> m | Some f \<Rightarrow> mount ''/nvme'' f m))"

section \<open>Operations\<close>

definition vfs_route :: "'s mounts \<Rightarrow> string \<Rightarrow> (VfsError, 's file_system \<times> string) res" where
  "vfs_route m path = res_bind (normalize_path path) (resolve m)"

definition vfs_open :: "'s mounts \<Rightarrow> string \<Rightarrow> 's \<Rightarrow> (VfsError, vfs_node) res" where
  "vfs_open m path s = res_bind (vfs_route m path) (\<lambda>(fs, relative). fs_open fs relative s)"

definition add_mount_entries :: "string list \<Rightarrow> VfsDirEntry list \<Rightarrow> VfsDirEntry list" where
  "add_mount_entries mps entries =
     fold (\<lambda>mp es. let name = trim_start_matches (CHR ''/'') mp in
             if \<exists>e\<in>set es. eq_ignore_ascii_case (de_name e) name then es
             else es @ [\<lparr>de_name = name, de_kind = Directory, de_size = 0\<rparr>]) mps entries"

definition vfs_list_dir :: "'s mounts \<Rightarrow> string \<Rightarrow> 's \<Rightarrow> (VfsError, VfsDirEntry list) res" where
  "vfs_list_dir m path s =
     res_bind (normalize_path path) (\<lambda>normalized.
       res_bind (resolve m normalized) (\<lambda>(fs, relative).
         let mps = (if normalized = ''/'' then mount_points m else []) in
         res_bind (fs_list_dir fs relative s) (\<lambda>entries. Ok (add_mount_entries mps entries))))"

definition vfs_update :: "'s mounts \<Rightarrow> string \<Rightarrow> ('s file_system \<Rightarrow> string \<Rightarrow> 's \<Rightarrow> (VfsError, unit) res \<times> 's) \<Rightarrow>
    's \<Rightarrow> (VfsError, unit) res \<times> 's" where
  "vfs_update m path act s =
     (case vfs_route m path of Ok (fs, relative) \<Rightarrow> act fs relative s | Err e \<Rightarrow> (Err e, s) | Panic \<Rightarrow> (Panic, s))"

definition vfs_create_file :: "'s mounts \<Rightarrow> string \<Rightarrow> bytes \<Rightarrow> 's \<Rightarrow> (VfsError, unit) res \<times> 's" where
  "vfs_create_file m path data = vfs_update m path (\<lambda>fs rel. fs_create_file fs rel data)"

definition vfs_delete_file :: "'s mounts \<Rightarrow> string \<Rightarrow> 's \<Rightarrow> (VfsError, unit) res \<times> 's" where
  "vfs_delete_file m path = vfs_update m path fs_delete_file"

definition vfs_create_dir :: "'s mounts \<Rightarrow> string \<Rightarrow> 's \<Rightarrow> (VfsError, unit) res \<times> 's" where
  "vfs_create_dir m path = vfs_update m path fs_create_dir"

definition vfs_delete_dir :: "'s mounts \<Rightarrow> string \<Rightarrow> 's \<Rightarrow> (VfsError, unit) res \<times> 's" where
  "vfs_delete_dir m path = vfs_update m path fs_delete_dir"

definition vfs_read_file :: "'s mounts \<Rightarrow> string \<Rightarrow> 's \<Rightarrow> (VfsError, bytes) res" where
  "vfs_read_file m path s = res_bind (vfs_route m path) (\<lambda>(fs, relative). fs_read_file fs relative s)"

section \<open>Canonical paths\<close>

abbreviation slash :: char where "slash \<equiv> CHR ''/''"

definition good_component :: "string \<Rightarrow> bool" where
  "good_component c \<longleftrightarrow> c \<noteq> [] \<and> c \<noteq> ''.'' \<and> c \<noteq> ''..'' \<and> slash \<notin> set c"

definition path_of :: "string list \<Rightarrow> string" where
  "path_of cs = slash # join_with slash cs"

definition path_components :: "string \<Rightarrow> string list" where
  "path_components p = filter (\<lambda>c. c \<noteq> [] \<and> c \<noteq> ''.'') (split_on slash p)"

lemma join_snoc: "cs \<noteq> [] \<Longrightarrow> join_with c (cs @ [x]) = join_with c cs @ c # x"
  by (induction cs rule: join_with.induct) auto

lemma join_append: "xs \<noteq> [] \<Longrightarrow> ys \<noteq> [] \<Longrightarrow> join_with c (xs @ ys) = join_with c xs @ c # join_with c ys"
proof (induction xs rule: join_with.induct)
  case (2 c x)
  then show ?case by (cases ys) auto
qed auto

lemma join_eq_Nil_iff: "[] \<notin> set cs \<Longrightarrow> join_with c cs = [] \<longleftrightarrow> cs = []"
  by (cases "(c, cs)" rule: join_with.cases) auto

lemma path_of_snoc:
  "[] \<notin> set acc \<Longrightarrow>
     (if length (path_of acc) > 1 then path_of acc @ ''/'' else path_of acc) @ x = path_of (acc @ [x])"
  by (auto simp: path_of_def join_eq_Nil_iff join_snoc)

lemma normalize_loop_eq:
  "[] \<notin> set acc \<Longrightarrow> normalize_loop (path_of acc) cs =
     (if ''..'' \<in> set cs then Err VfsError.PathTraversal
      else Ok (path_of (acc @ filter (\<lambda>c. c \<noteq> [] \<and> c \<noteq> ''.'') cs)))"
proof (induction cs arbitrary: acc)
  case (Cons x cs)
  consider "x = []" | "x = ''.''" | "x = ''..''" | "x \<noteq> []" "x \<noteq> ''.''" "x \<noteq> ''..''" by blast
  then show ?case
  proof cases
    case 4
    then have "normalize_loop (path_of acc) (x # cs) = normalize_loop (path_of (acc @ [x])) cs"
      using path_of_snoc [OF Cons.prems, of x] by simp
    moreover have "[] \<notin> set (acc @ [x])" using Cons.prems 4 by simp
    ultimately show ?thesis using Cons.IH [of "acc @ [x]"] 4 by simp
  qed (use Cons in simp_all)
qed simp

lemma normalize_path_eq:
  "normalize_path p =
     (if ''..'' \<in> set (split_on slash p) then Err VfsError.PathTraversal else Ok (path_of (path_components p)))"
proof (cases "p = []")
  case True
  then show ?thesis by (simp add: normalize_path_def path_components_def path_of_def)
next
  case False
  then show ?thesis
    using normalize_loop_eq [of "[]" "split_on slash p"]
    by (simp add: normalize_path_def path_of_def path_components_def)
qed

lemma path_components_good:
  "''..'' \<notin> set (split_on slash p) \<Longrightarrow> c \<in> set (path_components p) \<Longrightarrow> good_component c"
  by (auto simp: path_components_def good_component_def dest: split_on_no_sep)

lemma split_path_of:
  assumes "\<And>c. c \<in> set cs \<Longrightarrow> slash \<notin> set c" and "cs \<noteq> []"
  shows "split_on slash (path_of cs) = [] # cs"
  using split_join [of cs slash] assms by (simp add: path_of_def)

lemma path_components_path_of:
  assumes "\<And>c. c \<in> set cs \<Longrightarrow> good_component c"
  shows "path_components (path_of cs) = cs" "''..'' \<notin> set (split_on slash (path_of cs))"
proof -
  have "path_components (path_of cs) = cs \<and> ''..'' \<notin> set (split_on slash (path_of cs))"
  proof (cases "cs = []")
    case True
    then show ?thesis by (simp add: path_components_def path_of_def)
  next
    case False
    have "filter (\<lambda>c. c \<noteq> [] \<and> c \<noteq> ''.'') cs = cs"
      using assms by (intro filter_True) (auto simp: good_component_def)
    with False assms show ?thesis
      by (auto simp: path_components_def good_component_def split_path_of)
  qed
  then show "path_components (path_of cs) = cs" "''..'' \<notin> set (split_on slash (path_of cs))" by simp_all
qed

lemma path_of_inject:
  assumes "\<And>c. c \<in> set cs \<Longrightarrow> good_component c" and "\<And>c. c \<in> set ds \<Longrightarrow> good_component c"
    and "path_of cs = path_of ds"
  shows "cs = ds"
  using path_components_path_of(1) [OF assms(1)] path_components_path_of(1) [OF assms(2)] assms(3) by metis

section \<open>Longest-prefix mounts\<close>

lemma split_join_append:
  "xs \<noteq> [] \<Longrightarrow> (\<And>x. x \<in> set xs \<Longrightarrow> c \<notin> set x) \<Longrightarrow>
     split_on c (join_with c xs @ c # t) = xs @ split_on c t"
  by (induction xs rule: join_with.induct) (auto simp: split_on_append)

lemma mount_matches_path_of:
  assumes ks: "\<And>c. c \<in> set ks \<Longrightarrow> good_component c" and cs: "\<And>c. c \<in> set cs \<Longrightarrow> good_component c"
  shows "mount_matches (path_of ks) (path_of cs) \<longleftrightarrow> prefix ks cs"
proof (cases "ks = []")
  case True
  then show ?thesis by (simp add: mount_matches_def path_of_def)
next
  case False
  note ns = ks cs
  have sl: "\<And>x. x \<in> set ks \<Longrightarrow> slash \<notin> set x" "\<And>x. x \<in> set cs \<Longrightarrow> slash \<notin> set x"
    using ns by (auto simp: good_component_def)
  have nroot: "path_of ks \<noteq> ''/''"
    using False ks join_eq_Nil_iff [of ks slash] by (auto simp: path_of_def good_component_def)
  have "starts_with (path_of ks @ ''/'') (path_of cs) \<longleftrightarrow> (\<exists>ys. ys \<noteq> [] \<and> cs = ks @ ys)"
  proof
    assume "starts_with (path_of ks @ ''/'') (path_of cs)"
    then obtain t where t: "join_with slash cs = join_with slash ks @ slash # t"
      by (auto simp: starts_with_iff path_of_def)
    then have "cs \<noteq> []" by auto
    then have "cs = split_on slash (join_with slash cs)" using split_join [of cs slash] sl by simp
    also have "\<dots> = ks @ split_on slash t" unfolding t using split_join_append [OF False] sl by simp
    finally show "\<exists>ys. ys \<noteq> [] \<and> cs = ks @ ys" by (metis split_on_not_Nil)
  next
    assume "\<exists>ys. ys \<noteq> [] \<and> cs = ks @ ys"
    then show "starts_with (path_of ks @ ''/'') (path_of cs)"
      using False by (auto simp: starts_with_iff path_of_def join_append)
  qed
  moreover have "path_of cs = path_of ks \<longleftrightarrow> cs = ks"
    using path_of_inject [OF cs ks] by auto
  ultimately show ?thesis
    using nroot by (auto simp: mount_matches_def prefix_def)
qed

lemma length_path_of_prefix:
  assumes "prefix ks cs" and "\<And>c. c \<in> set cs \<Longrightarrow> good_component c" and "ks \<noteq> cs"
  shows "length (path_of ks) < length (path_of cs)"
proof -
  from assms obtain ys where ys: "cs = ks @ ys" "ys \<noteq> []" by (auto simp: prefix_def)
  show ?thesis
  proof (cases "ks = []")
    case True
    with ys assms(2) join_eq_Nil_iff [of ys slash] show ?thesis
      by (auto simp: path_of_def good_component_def)
  next
    case False
    with ys show ?thesis by (simp add: path_of_def join_append)
  qed
qed

text \<open>The loop keeps the longest match so far.\<close>

lemma best_mount_spec:
  assumes "best_mount path m best len = r" and "\<And>k f. best = Some (k, f) \<Longrightarrow> len = length k"
    and "best = None \<Longrightarrow> len = 0"
  shows "(\<forall>(k, f)\<in>set m. mount_matches k path \<and> k \<noteq> [] \<longrightarrow> r \<noteq> None) \<and> (best \<noteq> None \<longrightarrow> r \<noteq> None) \<and>
    (\<forall>k f. r = Some (k, f) \<longrightarrow> ((k, f) \<in> set m \<and> mount_matches k path \<or> best = Some (k, f)) \<and> len \<le> length k \<and>
       (\<forall>(k', f')\<in>set m. mount_matches k' path \<longrightarrow> length k' \<le> length k))"
  using assms
proof (induction m arbitrary: best len)
  case (Cons x m)
  obtain k f where x: "x = (k, f)" by force
  show ?case
  proof (cases "mount_matches k path \<and> length k > len")
    case True
    then have r: "best_mount path m (Some (k, f)) (length k) = r" using Cons.prems(1) x by simp
    from Cons.IH [OF r] show ?thesis
      using True x by fastforce
  next
    case False
    then have r: "best_mount path m best len = r" using Cons.prems(1) x by (auto split: if_splits)
    note ih = Cons.IH [OF r Cons.prems(2,3)]
    have "k = [] \<or> \<not> mount_matches k path" if "best = None" using that False Cons.prems(3) by auto
    then show ?thesis
      using ih False x by (cases best) fastforce+
  qed
qed auto

definition mounts_ok :: "'s mounts \<Rightarrow> bool" where
  "mounts_ok m \<longleftrightarrow> ''/'' \<in> fst ` set m \<and> (\<forall>k\<in>fst ` set m. \<exists>ks. k = path_of ks \<and> (\<forall>c\<in>set ks. good_component c))"

lemma resolve_path_of:
  assumes m: "mounts_ok m" and cs: "\<And>c. c \<in> set cs \<Longrightarrow> good_component c"
  shows "\<exists>ks ys f. cs = ks @ ys \<and> (path_of ks, f) \<in> set m \<and> resolve m (path_of cs) = Ok (f, join_with slash ys) \<and>
    (\<forall>k'\<in>fst ` set m. \<forall>ks'. k' = path_of ks' \<and> (\<forall>c\<in>set ks'. good_component c) \<and> prefix ks' cs \<longrightarrow> prefix ks' ks)"
proof -
  define r where "r = best_mount (path_of cs) m None 0"
  note spec = best_mount_spec [OF r_def [symmetric], simplified]
  from m obtain f0 where "(''/'', f0) \<in> set m" by (auto simp: mounts_ok_def)
  moreover have "mount_matches ''/'' (path_of cs)" by (simp add: mount_matches_def)
  ultimately have "r \<noteq> None" using spec by blast
  then obtain k f where r: "r = Some (k, f)" by auto
  then have best: "best_mount (path_of cs) m None 0 = Some (k, f)" by (simp add: r_def)
  from r spec have kf: "(k, f) \<in> set m" "mount_matches k (path_of cs)"
    and long: "\<And>k' f'. (k', f') \<in> set m \<Longrightarrow> mount_matches k' (path_of cs) \<Longrightarrow> length k' \<le> length k"
    by blast+
  from m kf(1) obtain ks where ks: "k = path_of ks" "\<forall>c\<in>set ks. good_component c"
    by (force simp: mounts_ok_def)
  from kf(2) ks obtain ys where ys: "cs = ks @ ys"
    using mount_matches_path_of [of ks cs] cs by (auto simp: prefix_def)
  have "resolve m (path_of cs) = Ok (f, join_with slash ys)"
  proof (cases "ks = []")
    case True
    with ks ys show ?thesis
      unfolding resolve_def best by (simp add: path_of_def str_from_def)
  next
    case False
    have nroot: "path_of ks \<noteq> ''/''"
      using False ks join_eq_Nil_iff [of ks slash] by (auto simp: path_of_def good_component_def)
    show ?thesis
    proof (cases "ys = []")
      case True
      with nroot ks ys show ?thesis unfolding resolve_def best by simp
    next
      case ne: False
      have "path_of cs \<noteq> path_of ks" using path_of_inject [of cs ks] cs ks ys ne by auto
      with nroot ks ys ne False show ?thesis
        unfolding resolve_def best by (simp add: path_of_def join_append str_from_def)
    qed
  qed
  moreover have "prefix ks' ks" if "path_of ks' \<in> fst ` set m" "\<forall>c\<in>set ks'. good_component c" "prefix ks' cs" for ks'
  proof (rule ccontr)
    assume "\<not> prefix ks' ks"
    moreover have "prefix ks cs" using ys by simp
    ultimately have "prefix ks ks'" "ks \<noteq> ks'" using prefix_same_cases [OF that(3)] by auto
    then have "length (path_of ks) < length (path_of ks')"
      using length_path_of_prefix [of ks ks'] that(2) by blast
    moreover from that have "length (path_of ks') \<le> length k"
      using long mount_matches_path_of [of ks' cs] cs by force
    ultimately show False using ks by simp
  qed
  ultimately show ?thesis using ys kf ks by blast
qed

lemma mount_fst: "fst ` set (mount mp f m) = insert mp (fst ` set m)"
  by (induction mp f m rule: mount.induct) (simp_all add: insert_commute)

lemma vfs_init_ok: "mounts_ok (vfs_init root proc host ninep ahci nvme)"
proof -
  have gp: "\<exists>ks. slash # k = path_of ks \<and> (\<forall>c\<in>set ks. good_component c)" if "good_component k" for k
    using that by (intro exI [of _ "[k]"]) (simp add: path_of_def)
  have "good_component ''proc''" "good_component ''host''" "good_component ''9p''"
    "good_component ''ahci''" "good_component ''nvme''" by (simp_all add: good_component_def)
  moreover have "\<exists>ks. ''/'' = path_of ks \<and> (\<forall>c\<in>set ks. good_component c)"
    by (intro exI [of _ "[]"]) (simp add: path_of_def)
  ultimately show ?thesis
    using gp by (auto simp: mounts_ok_def vfs_init_def Let_def mount_fst split: option.splits)
qed

section \<open>Reading a whole file\<close>

text \<open>A node that serves the bytes \<open>d\<close>, as the nodes of the file systems do.\<close>

definition serves :: "bytes \<Rightarrow> (nat \<Rightarrow> nat \<Rightarrow> (VfsError, bytes) res) \<Rightarrow> bool" where
  "serves d rd \<longleftrightarrow> (\<forall>off n. rd off n = Ok (take n (drop off d)))"

lemma read_chunks_serves:
  assumes "serves d rd" and "off \<le> length d"
  shows "read_chunks rd off (take off d) = Some (Ok d)"
  using assms(2)
proof (induction "length d - off" arbitrary: off rule: less_induct)
  case less
  let ?c = "take 4096 (drop off d)"
  have rd: "rd off 4096 = Ok ?c" using assms(1) by (simp add: serves_def)
  show ?case
  proof (cases "off = length d")
    case True
    then show ?thesis using rd by (subst read_chunks.simps) simp
  next
    case False
    with less.prems have lt: "off < length d" by simp
    have step: "take off d @ ?c = take (off + length ?c) d" by (simp add: take_add min_def)
    have "read_chunks rd off (take off d) = read_chunks rd (off + length ?c) (take off d @ ?c)"
      using lt by (subst read_chunks.simps) (simp add: rd min_def)
    also have "\<dots> = Some (Ok d)"
      unfolding step using lt by (intro less.hyps) auto
    finally show ?thesis .
  qed
qed

lemma read_sized_serves:
  assumes "serves d rd" and "sz = length d" and "off \<le> length d"
  shows "read_sized rd sz off (take off d) = Some (Ok d)"
proof (cases "off = length d")
  case True
  then show ?thesis using assms by (subst read_sized.simps) (simp add: serves_def)
next
  case False
  have "read_sized rd sz off (take off d) = read_sized rd sz (length d) d"
    using assms False by (subst read_sized.simps) (simp add: serves_def)
  also have "\<dots> = Some (Ok d)"
    using assms by (subst read_sized.simps) (simp add: serves_def)
  finally show ?thesis .
qed

section \<open>Properties\<close>



text \<open>
  C16: Routing picks the deepest mount. With the root mounted and canonical mount points, every
  canonical path resolves; the chosen mount point is an ancestor (or the path itself), every other
  mounted ancestor is one of its ancestors, and the file system receives exactly the remaining
  components. A mount point never captures a sibling whose name merely starts like it.
\<close>

theorem resolve_longest_mount:
  assumes "mounts_ok m" and "\<forall>c\<in>set cs. good_component c"
  shows "\<exists>ks ys f. cs = ks @ ys \<and> (path_of ks, f) \<in> set m \<and> resolve m (path_of cs) = Ok (f, join_with slash ys) \<and>
    (\<forall>k'\<in>fst ` set m. \<forall>ks'. k' = path_of ks' \<and> (\<forall>c\<in>set ks'. good_component c) \<and> prefix ks' cs \<longrightarrow> prefix ks' ks)"
  using assms by (intro resolve_path_of) simp_all

definition null_fs :: "unit file_system" where
  "null_fs = \<lparr>fs_open = \<lambda>_ _. Err NotFound, fs_list_dir = \<lambda>_ _. Ok [], fs_create_file = default_create_file,
     fs_delete_file = default_delete, fs_create_dir = default_delete, fs_delete_dir = default_delete,
     fs_read_file = \<lambda>_ _. Err NotFound\<rparr>"

theorem resolve_longest_mount_witness:
  "resolve (vfs_init null_fs null_fs None None None None) ''/process'' = Ok (null_fs, ''process'') \<and>
   (\<exists>ks ys f. [''proc'', ''meminfo''] = ks @ ys \<and> prefix [''proc''] ks \<and>
      resolve (vfs_init null_fs null_fs None None None None) ''/proc/meminfo'' = Ok (f, join_with slash ys))"
proof -
  have g: "\<forall>c\<in>set [''proc'', ''meminfo'']. good_component c"
    by (simp add: good_component_def)
  let ?m = "vfs_init null_fs null_fs None None None None"
  obtain ks ys f where r: "[''proc'', ''meminfo''] = ks @ ys"
    "resolve ?m (path_of [''proc'', ''meminfo'']) = Ok (f, join_with slash ys)"
    "\<forall>k'\<in>fst ` set ?m. \<forall>ks'. k' = path_of ks' \<and> (\<forall>c\<in>set ks'. good_component c) \<and>
       prefix ks' [''proc'', ''meminfo''] \<longrightarrow> prefix ks' ks"
    using resolve_longest_mount [OF vfs_init_ok [of null_fs null_fs None None None None] g] by (elim exE conjE) (rule that)
  have "path_of [''proc''] \<in> fst ` set ?m"
    by (simp add: vfs_init_def Let_def mount_fst path_of_def)
  with r(3) have "prefix [''proc''] ks"
    by (auto simp: good_component_def)
  moreover have "resolve ?m ''/process'' = Ok (null_fs, ''process'')"
    by (simp add: resolve_def vfs_init_def Let_def mount_matches_def starts_with_def str_from_def)
  moreover have "path_of [''proc'', ''meminfo''] = ''/proc/meminfo''" by (simp add: path_of_def)
  ultimately show ?thesis using r(1,2) by metis
qed


definition mem_node :: "bytes \<Rightarrow> vfs_node" where
  "mem_node d = \<lparr>node_kind = File, node_size = 0, node_read = \<lambda>off n. Ok (take n (drop off d))\<rparr>"


end
