(* ===== verification/Handle.thy ===== *)
theory Handle
  imports Vfs Pipe
begin

text \<open>
  \<^verbatim>\<open>kernel/src/handle.rs\<close>: capabilities. A handle is a slot index and an unforgeable token; the
  kernel keeps the entry (rights, kind, path, file data, position) in a global table. Closing a dirty
  file writes it back through the VFS, closing a pipe end goes to the pipe table, so the state holds
  the handle table, the token counter, the pipe table and the store of the file systems. Sizes and positions are
  natural numbers; the seek arithmetic is done in checked 64-bit signed integers as in the source.
\<close>

section \<open>State\<close>

definition HANDLE_RIGHT_READ :: u32 where "HANDLE_RIGHT_READ = 0x0001"
definition HANDLE_RIGHT_WRITE :: u32 where "HANDLE_RIGHT_WRITE = 0x0002"
definition HANDLE_RIGHT_SEEK :: u32 where "HANDLE_RIGHT_SEEK = 0x0004"
definition HANDLE_RIGHT_STAT :: u32 where "HANDLE_RIGHT_STAT = 0x0008"
definition HANDLE_RIGHT_ENUM :: u32 where "HANDLE_RIGHT_ENUM = 0x0010"
definition HANDLE_RIGHT_CREATE :: u32 where "HANDLE_RIGHT_CREATE = 0x0020"
definition HANDLE_RIGHT_DELETE :: u32 where "HANDLE_RIGHT_DELETE = 0x0040"
definition HANDLE_RIGHT_LOOKUP :: u32 where "HANDLE_RIGHT_LOOKUP = 0x0080"

definition HANDLE_RIGHTS_FILE_READ :: u32 where
  "HANDLE_RIGHTS_FILE_READ = HANDLE_RIGHT_READ OR HANDLE_RIGHT_SEEK OR HANDLE_RIGHT_STAT"
definition HANDLE_RIGHTS_FILE_RW :: u32 where
  "HANDLE_RIGHTS_FILE_RW = HANDLE_RIGHT_READ OR HANDLE_RIGHT_WRITE OR HANDLE_RIGHT_SEEK OR HANDLE_RIGHT_STAT"
definition HANDLE_RIGHTS_DIRECTORY :: u32 where
  "HANDLE_RIGHTS_DIRECTORY = HANDLE_RIGHT_STAT OR HANDLE_RIGHT_ENUM OR HANDLE_RIGHT_CREATE OR
     HANDLE_RIGHT_DELETE OR HANDLE_RIGHT_LOOKUP"
definition HANDLE_RIGHTS_DIRECTORY_READ :: u32 where
  "HANDLE_RIGHTS_DIRECTORY_READ = HANDLE_RIGHT_STAT OR HANDLE_RIGHT_ENUM OR HANDLE_RIGHT_LOOKUP"

lemmas rights_defs = HANDLE_RIGHT_READ_def HANDLE_RIGHT_WRITE_def HANDLE_RIGHT_SEEK_def HANDLE_RIGHT_STAT_def
  HANDLE_RIGHT_ENUM_def HANDLE_RIGHT_CREATE_def HANDLE_RIGHT_DELETE_def HANDLE_RIGHT_LOOKUP_def
  HANDLE_RIGHTS_FILE_READ_def HANDLE_RIGHTS_FILE_RW_def HANDLE_RIGHTS_DIRECTORY_def
  HANDLE_RIGHTS_DIRECTORY_READ_def

record Handle =
  hid :: u64
  htoken :: u64

datatype HandleKind = HFile | HDirectory | PipeRead | PipeWrite

record HandleEntry =
  he_token :: u64
  he_rights :: u32
  he_kind :: HandleKind
  he_path :: string
  he_data :: bytes
  he_pos :: nat
  he_dirty :: bool
  he_pipe_id :: "nat option"

record 's kernel =
  handles :: "HandleEntry option list"
  token_counter :: u64
  pipes :: pipe_table
  fs_store :: 's

section \<open>Lookup and insertion\<close>

definition next_token :: "'s kernel \<Rightarrow> u64 \<times> 's kernel" where
  "next_token k = (token_counter k * 0x9E3779B97F4A7C15, k\<lparr>token_counter := token_counter k + 1\<rparr>)"

definition get_entry :: "HandleEntry option list \<Rightarrow> Handle \<Rightarrow> (SyscallError, HandleEntry) res" where
  "get_entry table h =
     (if unat (hid h) \<ge> length table then Err InvalidHandle
      else case table ! unat (hid h) of
        Some entry \<Rightarrow> if he_token entry = htoken h then Ok entry else Err InvalidHandle
      | None \<Rightarrow> Err InvalidHandle)"

definition insert_entry :: "HandleEntry \<Rightarrow> u64 \<Rightarrow> 's kernel \<Rightarrow> Handle \<times> 's kernel" where
  "insert_entry entry tok k =
     (case slot_insert entry (handles k) of
        (i, table) \<Rightarrow> (\<lparr>hid = of_nat i, htoken = tok\<rparr>, k\<lparr>handles := table\<rparr>))"

definition set_entry :: "Handle \<Rightarrow> HandleEntry option \<Rightarrow> 's kernel \<Rightarrow> 's kernel" where
  "set_entry h e k = k\<lparr>handles := (handles k)[unat (hid h) := e]\<rparr>"

section \<open>Creation\<close>

definition new_entry :: "u64 \<Rightarrow> u32 \<Rightarrow> HandleKind \<Rightarrow> string \<Rightarrow> bytes \<Rightarrow> nat \<Rightarrow> nat option \<Rightarrow> HandleEntry" where
  "new_entry tok r kd p d ps pid =
     \<lparr>he_token = tok, he_rights = r, he_kind = kd, he_path = p, he_data = d, he_pos = ps, he_dirty = False, he_pipe_id = pid\<rparr>"

definition create_handle_with_path :: "bytes \<Rightarrow> u32 \<Rightarrow> string \<Rightarrow> 's kernel \<Rightarrow> Handle \<times> 's kernel" where
  "create_handle_with_path d r p k =
     (case next_token k of (tok, k) \<Rightarrow> insert_entry (new_entry tok r HFile p d 0 None) tok k)"

definition create_handle :: "bytes \<Rightarrow> u32 \<Rightarrow> 's kernel \<Rightarrow> Handle \<times> 's kernel" where
  "create_handle d r k = create_handle_with_path d r [] k"

definition create_directory_handle :: "string \<Rightarrow> u32 \<Rightarrow> 's kernel \<Rightarrow> Handle \<times> 's kernel" where
  "create_directory_handle p r k =
     (case next_token k of (tok, k) \<Rightarrow> insert_entry (new_entry tok r HDirectory p [] 0 None) tok k)"

definition duplicate_handle :: "Handle \<Rightarrow> 's kernel \<Rightarrow> (SyscallError, Handle) res \<times> 's kernel" where
  "duplicate_handle h k =
     (case get_entry (handles k) h of
        Ok entry \<Rightarrow>
          (case next_token k of (tok, k) \<Rightarrow>
             let k = (if he_kind entry = PipeWrite then
                        (case he_pipe_id entry of Some pid \<Rightarrow> k\<lparr>pipes := add_writer pid (pipes k)\<rparr> | None \<Rightarrow> k)
                      else k) in
             (case insert_entry (new_entry tok (he_rights entry) (he_kind entry) (he_path entry) (he_data entry) 0 (he_pipe_id entry)) tok k
              of (h', k) \<Rightarrow> (Ok h', k)))
      | Err e \<Rightarrow> (Err e, k) | Panic \<Rightarrow> (Panic, k))"

definition create_pipe_handles :: "'s kernel \<Rightarrow> (Handle \<times> Handle) \<times> 's kernel" where
  "create_pipe_handles k =
     (case pipe_create (pipes k) of (pid, pt) \<Rightarrow>
        let k = k\<lparr>pipes := pt\<rparr> in
        (case next_token k of (rt, k) \<Rightarrow>
         case insert_entry (new_entry rt HANDLE_RIGHT_READ PipeRead [] [] 0 (Some pid)) rt k of (rh, k) \<Rightarrow>
         case next_token k of (wt, k) \<Rightarrow>
         case insert_entry (new_entry wt HANDLE_RIGHT_WRITE PipeWrite [] [] 0 (Some pid)) wt k of (wh, k) \<Rightarrow>
         ((rh, wh), k)))"

section \<open>Input and output\<close>

text \<open>The bytes read; \<open>n\<close> is the length of the caller's buffer.\<close>

definition handle_read :: "Handle \<Rightarrow> nat \<Rightarrow> 's kernel \<Rightarrow> (SyscallError, bytes) res \<times> 's kernel" where
  "handle_read h n k =
     (case get_entry (handles k) h of
        Ok entry \<Rightarrow>
          if (he_rights entry AND HANDLE_RIGHT_READ) = 0 then (Err SyscallError.PermissionDenied, k)
          else if he_kind entry = PipeRead then
            (case he_pipe_id entry of
               None \<Rightarrow> (Err InvalidHandle, k)
             | Some pid \<Rightarrow>
                 (case pipe_read pid n (pipes k) of
                    (Ok d, pt) \<Rightarrow> (Ok d, k\<lparr>pipes := pt\<rparr>)
                  | (Err PipeError.WouldBlock, pt) \<Rightarrow> (Err SyscallError.WouldBlock, k\<lparr>pipes := pt\<rparr>)
                  | (Err _, pt) \<Rightarrow> (Err Other, k\<lparr>pipes := pt\<rparr>)
                  | (Panic, pt) \<Rightarrow> (Panic, k\<lparr>pipes := pt\<rparr>)))
          else if he_kind entry \<noteq> HFile then (Err SyscallError.NotSupported, k)
          else if he_pos entry \<ge> length (he_data entry) then (Ok [], k)
          else
            let copy_len = min (length (he_data entry) - he_pos entry) n in
            (Ok (take copy_len (drop (he_pos entry) (he_data entry))),
             set_entry h (Some (entry\<lparr>he_pos := he_pos entry + copy_len\<rparr>)) k)
      | Err e \<Rightarrow> (Err e, k) | Panic \<Rightarrow> (Panic, k))"

definition handle_write :: "Handle \<Rightarrow> bytes \<Rightarrow> 's kernel \<Rightarrow> (SyscallError, nat) res \<times> 's kernel" where
  "handle_write h b k =
     (case get_entry (handles k) h of
        Ok entry \<Rightarrow>
          if (he_rights entry AND HANDLE_RIGHT_WRITE) = 0 then (Err SyscallError.PermissionDenied, k)
          else if he_kind entry = PipeWrite then
            (case he_pipe_id entry of
               None \<Rightarrow> (Err InvalidHandle, k)
             | Some pid \<Rightarrow>
                 (case pipe_write pid b (pipes k) of
                    (Ok n, pt) \<Rightarrow> (Ok n, k\<lparr>pipes := pt\<rparr>)
                  | (Err PipeError.BrokenPipe, pt) \<Rightarrow> (Err SyscallError.BrokenPipe, k\<lparr>pipes := pt\<rparr>)
                  | (Err _, pt) \<Rightarrow> (Err Other, k\<lparr>pipes := pt\<rparr>)
                  | (Panic, pt) \<Rightarrow> (Panic, k\<lparr>pipes := pt\<rparr>)))
          else if he_kind entry \<noteq> HFile then (Err SyscallError.NotSupported, k)
          else
            let e = he_pos entry + length b;
                d = (if e > length (he_data entry) then he_data entry @ replicate (e - length (he_data entry)) 0 else he_data entry) in
            (Ok (length b), set_entry h (Some (entry\<lparr>he_data := blit (he_pos entry) b d, he_pos := e, he_dirty := True\<rparr>)) k)
      | Err e \<Rightarrow> (Err e, k) | Panic \<Rightarrow> (Panic, k))"

definition handle_close :: "'s mounts \<Rightarrow> Handle \<Rightarrow> 's kernel \<Rightarrow> (SyscallError, unit) res \<times> 's kernel" where
  "handle_close m h k =
     (case get_entry (handles k) h of
        Ok entry \<Rightarrow>
          if he_kind entry = PipeRead then
            (case he_pipe_id entry of
               None \<Rightarrow> (Err InvalidHandle, k)
             | Some pid \<Rightarrow> (Ok (), (set_entry h None k)\<lparr>pipes := close_reader pid (pipes k)\<rparr>))
          else if he_kind entry = PipeWrite then
            (case he_pipe_id entry of
               None \<Rightarrow> (Err InvalidHandle, k)
             | Some pid \<Rightarrow> (Ok (), (set_entry h None k)\<lparr>pipes := close_writer pid (pipes k)\<rparr>))
          else if he_dirty entry \<and> he_path entry \<noteq> [] then
            (case vfs_delete_file m (he_path entry) (fs_store k) of (r1, st1) \<Rightarrow>
               if is_Panic r1 then (Panic, (set_entry h None k)\<lparr>fs_store := st1\<rparr>)
               else case vfs_create_file m (he_path entry) (he_data entry) st1 of (r2, st2) \<Rightarrow>
                 (map_err (\<lambda>_. Other) r2, (set_entry h None k)\<lparr>fs_store := st2\<rparr>))
          else (Ok (), set_entry h None k)
      | Err e \<Rightarrow> (Err e, k) | Panic \<Rightarrow> (Panic, k))"

section \<open>Rights and metadata\<close>

definition restrict_rights :: "Handle \<Rightarrow> u32 \<Rightarrow> 's kernel \<Rightarrow> (SyscallError, Handle) res \<times> 's kernel" where
  "restrict_rights h new_rights k =
     (case get_entry (handles k) h of
        Ok entry \<Rightarrow>
          if (new_rights AND NOT (he_rights entry)) \<noteq> 0 then (Err SyscallError.PermissionDenied, k)
          else
            (case next_token k of (tok, k) \<Rightarrow>
               (case insert_entry (new_entry tok (he_rights entry AND new_rights) (he_kind entry) (he_path entry)
                    (he_data entry) (he_pos entry) (he_pipe_id entry)) tok k of (h', k) \<Rightarrow> (Ok h', k)))
      | Err e \<Rightarrow> (Err e, k) | Panic \<Rightarrow> (Panic, k))"

definition get_rights :: "Handle \<Rightarrow> 's kernel \<Rightarrow> (SyscallError, u32) res" where
  "get_rights h k = res_bind (get_entry (handles k) h) (\<lambda>e. Ok (he_rights e))"

definition check_rights :: "Handle \<Rightarrow> u32 \<Rightarrow> 's kernel \<Rightarrow> (SyscallError, unit) res" where
  "check_rights h required k =
     res_bind (get_entry (handles k) h) (\<lambda>e.
       if (he_rights e AND required) = required then Ok () else Err SyscallError.PermissionDenied)"

definition get_kind :: "Handle \<Rightarrow> 's kernel \<Rightarrow> (SyscallError, HandleKind) res" where
  "get_kind h k = res_bind (get_entry (handles k) h) (\<lambda>e. Ok (he_kind e))"

definition get_path :: "Handle \<Rightarrow> 's kernel \<Rightarrow> (SyscallError, string) res" where
  "get_path h k = res_bind (get_entry (handles k) h) (\<lambda>e. Ok (he_path e))"

definition get_size :: "Handle \<Rightarrow> 's kernel \<Rightarrow> (SyscallError, nat) res" where
  "get_size h k =
     res_bind (get_entry (handles k) h) (\<lambda>e.
       if (he_rights e AND HANDLE_RIGHT_STAT) = 0 then Err SyscallError.PermissionDenied else Ok (length (he_data e)))"

record HandleStat =
  stat_size :: nat
  stat_kind :: nat
  stat_rights :: u64

definition handle_stat :: "Handle \<Rightarrow> 's kernel \<Rightarrow> (SyscallError, HandleStat) res" where
  "handle_stat h k =
     res_bind (get_entry (handles k) h) (\<lambda>e.
       if (he_rights e AND HANDLE_RIGHT_STAT) = 0 then Err SyscallError.PermissionDenied
       else Ok \<lparr>stat_size = length (he_data e),
              stat_kind = (case he_kind e of HFile \<Rightarrow> 0 | HDirectory \<Rightarrow> 1 | PipeRead \<Rightarrow> 2 | PipeWrite \<Rightarrow> 3),
              stat_rights = ucast (he_rights e)\<rparr>)"

definition SEEK_SET :: u64 where "SEEK_SET = 0"
definition SEEK_CUR :: u64 where "SEEK_CUR = 1"
definition SEEK_END :: u64 where "SEEK_END = 2"

text \<open>Checked addition of \<^verbatim>\<open>i64\<close>.\<close>

definition i64_add :: "int \<Rightarrow> int \<Rightarrow> int option" where
  "i64_add a b = (if - (2 ^ 63) \<le> a + b \<and> a + b < 2 ^ 63 then Some (a + b) else None)"

definition handle_seek :: "Handle \<Rightarrow> u64 \<Rightarrow> u64 \<Rightarrow> 's kernel \<Rightarrow> (SyscallError, nat) res \<times> 's kernel" where
  "handle_seek h offset whence k =
     (case get_entry (handles k) h of
        Ok entry \<Rightarrow>
          if (he_rights entry AND HANDLE_RIGHT_SEEK) = 0 then (Err SyscallError.PermissionDenied, k)
          else if he_kind entry \<noteq> HFile then (Err SyscallError.NotSupported, k)
          else
            let sz = int (length (he_data entry));
                base = (if whence = SEEK_SET then Some 0
                        else if whence = SEEK_CUR then Some (int (he_pos entry))
                        else if whence = SEEK_END then Some sz else None) in
            (case base of
               None \<Rightarrow> (Err InvalidArgument, k)
             | Some b \<Rightarrow>
                 (case i64_add b (sint offset) of
                    None \<Rightarrow> (Panic, k)
                  | Some p \<Rightarrow>
                      let new_pos = nat (min (max p 0) sz) in
                      (Ok new_pos, set_entry h (Some (entry\<lparr>he_pos := new_pos\<rparr>)) k)))
      | Err e \<Rightarrow> (Err e, k) | Panic \<Rightarrow> (Panic, k))"

section \<open>Lookup facts\<close>

lemma get_entry_Ok_iff:
  "get_entry t h = Ok e \<longleftrightarrow> slot_get t (unat (hid h)) = Some e \<and> he_token e = htoken h"
  by (auto simp: get_entry_def slot_get_def split: option.splits if_splits)

lemma get_entry_cases: "get_entry t h = Err InvalidHandle \<or> (\<exists>e. get_entry t h = Ok e)"
  by (auto simp: get_entry_def split: option.splits if_splits)

lemma get_entry_not_Panic: "get_entry t h \<noteq> Panic"
  using get_entry_cases [of t h] by auto

section \<open>Effects on the table\<close>

text \<open>
  What an operation can do to the table and the token counter: nothing, change the data, position
  or dirty flag of an entry, empty a slot, or insert an entry with a fresh token.
\<close>

definition same_cap :: "HandleEntry \<Rightarrow> HandleEntry \<Rightarrow> bool" where
  "same_cap e f \<longleftrightarrow> he_token f = he_token e \<and> he_rights f = he_rights e \<and> he_kind f = he_kind e \<and>
     he_path f = he_path e \<and> he_pipe_id f = he_pipe_id e"

definition token_of :: "u64 \<Rightarrow> u64" where
  "token_of n = n * 0x9E3779B97F4A7C15"

inductive table_step :: "HandleEntry option list \<times> u64 \<Rightarrow> HandleEntry option list \<times> u64 \<Rightarrow> bool" where
  ts_update: "slot_get t i = Some e \<Longrightarrow> same_cap e f \<Longrightarrow> table_step (t, c) (t[i := Some f], c)"
| ts_clear: "table_step (t, c) (t[i := None], c)"
| ts_insert: "he_token e = token_of c \<Longrightarrow> table_step (t, c) (snd (slot_insert e t), c + 1)"

inductive_cases table_stepE: "table_step x y"

text \<open>At most \<open>n\<close> tokens are drawn.\<close>

inductive table_steps :: "nat \<Rightarrow> HandleEntry option list \<times> u64 \<Rightarrow> HandleEntry option list \<times> u64 \<Rightarrow> bool" where
  steps_refl: "table_steps n x x"
| steps_use: "table_step x y \<Longrightarrow> snd y = snd x \<Longrightarrow> table_steps n y z \<Longrightarrow> table_steps n x z"
| steps_draw: "table_step x y \<Longrightarrow> table_steps n y z \<Longrightarrow> table_steps (Suc n) x z"

lemma table_steps_trans: "table_steps a x y \<Longrightarrow> table_steps b y z \<Longrightarrow> table_steps (a + b) x z"
proof (induction rule: table_steps.induct)
  case (steps_refl n x)
  have "table_steps c x z \<Longrightarrow> table_steps (c + n) x z" for c
    by (induction rule: table_steps.induct)
      (auto intro: table_steps.intros simp: add.commute)
  from this [OF steps_refl] show ?case by (simp add: add.commute)
next
  case (steps_use x y n z')
  then show ?case by (auto intro: table_steps.steps_use)
next
  case (steps_draw x y n z')
  then show ?case by (auto intro: table_steps.steps_draw)
qed

lemma steps_update:
  "slot_get t i = Some e \<Longrightarrow> same_cap e f \<Longrightarrow> table_steps n (t, c) (t[i := Some f], c)"
  by (rule steps_use [OF ts_update _ steps_refl]) simp_all

lemma steps_clear: "table_steps n (t, c) (t[i := None], c)"
  by (rule steps_use [OF ts_clear _ steps_refl]) simp_all

lemma steps_insert: "he_token e = token_of c \<Longrightarrow> table_steps (Suc n) (t, c) (snd (slot_insert e t), c + 1)"
  by (rule steps_draw [OF ts_insert steps_refl])

abbreviation caps :: "'s kernel \<Rightarrow> HandleEntry option list \<times> u64" where
  "caps k \<equiv> (handles k, token_counter k)"

text \<open>The operations as one type, and the state after a sequence of them.\<close>

datatype handle_op = OCreate bytes u32 string | OCreateDir string u32 | ODup Handle | OPipe
  | ORead Handle nat | OWrite Handle bytes | OClose Handle | ORestrict Handle u32 | OSeek Handle u64 u64

fun handle_exec :: "'s mounts \<Rightarrow> handle_op \<Rightarrow> 's kernel \<Rightarrow> 's kernel" where
  "handle_exec m (OCreate d r p) k = snd (create_handle_with_path d r p k)"
| "handle_exec m (OCreateDir p r) k = snd (create_directory_handle p r k)"
| "handle_exec m (ODup h) k = snd (duplicate_handle h k)"
| "handle_exec m OPipe k = snd (create_pipe_handles k)"
| "handle_exec m (ORead h n) k = snd (handle_read h n k)"
| "handle_exec m (OWrite h b) k = snd (handle_write h b k)"
| "handle_exec m (OClose h) k = snd (handle_close m h k)"
| "handle_exec m (ORestrict h r) k = snd (restrict_rights h r k)"
| "handle_exec m (OSeek h off w) k = snd (handle_seek h off w k)"

definition handle_run :: "'s mounts \<Rightarrow> handle_op list \<Rightarrow> 's kernel \<Rightarrow> 's kernel" where
  "handle_run m ops k = fold (handle_exec m) ops k"

lemma caps_insert_new:
  "caps (snd (case next_token k of (tok, k) \<Rightarrow> insert_entry (new_entry tok r kd p d ps pid) tok k)) =
     (snd (slot_insert (new_entry (token_of (token_counter k)) r kd p d ps pid) (handles k)), token_counter k + 1)"
  by (simp add: next_token_def insert_entry_def token_of_def split: prod.splits)

lemma token_new_entry [simp]: "he_token (new_entry tok r kd p d ps pid) = tok"
  by (simp add: new_entry_def)

lemma exec_create: "table_steps 2 (caps k) (caps (handle_exec m (OCreate d r p) k))"
  unfolding handle_exec.simps create_handle_with_path_def caps_insert_new
  by (simp add: steps_insert numeral_2_eq_2)

lemma exec_create_dir: "table_steps 2 (caps k) (caps (handle_exec m (OCreateDir p r) k))"
  unfolding handle_exec.simps create_directory_handle_def caps_insert_new
  by (simp add: steps_insert numeral_2_eq_2)

lemma exec_dup: "table_steps 2 (caps k) (caps (handle_exec m (ODup h) k))"
proof (cases "get_entry (handles k) h")
  case (Ok e)
  then have "caps (handle_exec m (ODup h) k) =
      (snd (slot_insert (new_entry (token_of (token_counter k)) (he_rights e) (he_kind e) (he_path e) (he_data e) 0
         (he_pipe_id e)) (handles k)), token_counter k + 1)"
    by (auto simp: duplicate_handle_def next_token_def insert_entry_def token_of_def Let_def
        split: prod.splits option.splits)
  then show ?thesis by (simp add: steps_insert numeral_2_eq_2)
qed (simp_all add: duplicate_handle_def steps_refl)

lemma exec_restrict: "table_steps 2 (caps k) (caps (handle_exec m (ORestrict h r) k))"
proof (cases "\<exists>e. get_entry (handles k) h = Ok e \<and> (r AND NOT (he_rights e)) = 0")
  case True
  then obtain e where "get_entry (handles k) h = Ok e" "(r AND NOT (he_rights e)) = 0" by blast
  then have "caps (handle_exec m (ORestrict h r) k) =
      (snd (slot_insert (new_entry (token_of (token_counter k)) (he_rights e AND r) (he_kind e) (he_path e) (he_data e)
         (he_pos e) (he_pipe_id e)) (handles k)), token_counter k + 1)"
    by (simp add: restrict_rights_def next_token_def insert_entry_def token_of_def split: prod.splits)
  then show ?thesis by (simp add: steps_insert numeral_2_eq_2)
next
  case False
  then have "handle_exec m (ORestrict h r) k = k"
    by (auto simp: restrict_rights_def split: res.splits)
  then show ?thesis by (simp add: steps_refl)
qed

lemma exec_pipe: "table_steps 2 (caps k) (caps (handle_exec m OPipe k))"
proof -
  let ?c = "token_counter k"
  obtain pid pt where pc: "pipe_create (pipes k) = (pid, pt)" by force
  let ?r = "new_entry (token_of ?c) HANDLE_RIGHT_READ PipeRead [] [] 0 (Some pid)"
  let ?w = "new_entry (token_of (?c + 1)) HANDLE_RIGHT_WRITE PipeWrite [] [] 0 (Some pid)"
  have "caps (handle_exec m OPipe k) = (snd (slot_insert ?w (snd (slot_insert ?r (handles k)))), ?c + 1 + 1)"
    using pc by (simp add: create_pipe_handles_def Let_def next_token_def insert_entry_def token_of_def split: prod.splits)
  moreover have "table_steps (1 + 1) (caps k) (snd (slot_insert ?w (snd (slot_insert ?r (handles k)))), ?c + 1 + 1)"
    using table_steps_trans [OF steps_insert [of ?r ?c 0 "handles k"] steps_insert [of ?w "?c + 1" 0 "snd (slot_insert ?r (handles k))"]]
    by simp
  ultimately show ?thesis by (simp add: numeral_2_eq_2)
qed

text \<open>Reading, writing, seeking and closing draw no token: they keep the table or take one step of it.\<close>

definition quiet_step :: "'s kernel \<Rightarrow> 's kernel \<Rightarrow> bool" where
  "quiet_step k k' \<longleftrightarrow> caps k' = caps k \<or> table_step (caps k) (caps k') \<and> token_counter k' = token_counter k"

lemma quiet_steps: "quiet_step k k' \<Longrightarrow> table_steps n (caps k) (caps k')"
  unfolding quiet_step_def using steps_refl steps_use [OF _ _ steps_refl] by fastforce

lemma quiet_update:
  "slot_get (handles k) i = Some e \<Longrightarrow> same_cap e f \<Longrightarrow>
     caps k' = caps k \<or> caps k' = ((handles k)[i := Some f], token_counter k) \<Longrightarrow> quiet_step k k'"
  unfolding quiet_step_def using ts_update by auto

lemma quiet_clear:
  "caps k' = caps k \<or> caps k' = ((handles k)[i := None], token_counter k) \<Longrightarrow> quiet_step k k'"
  unfolding quiet_step_def using ts_clear by auto

lemma quiet_refl [simp]: "quiet_step k k"
  by (simp add: quiet_step_def)

lemma quiet_read: "quiet_step k (handle_exec m (ORead h n) k)"
proof (cases "get_entry (handles k) h")
  case (Ok e)
  let ?f = "e\<lparr>he_pos := he_pos e + min (length (he_data e) - he_pos e) n\<rparr>"
  show ?thesis
  proof (rule quiet_update)
    from Ok show "slot_get (handles k) (unat (hid h)) = Some e" by (simp add: get_entry_Ok_iff)
    show "same_cap e ?f" by (simp add: same_cap_def)
    show "caps (handle_exec m (ORead h n) k) = caps k \<or>
        caps (handle_exec m (ORead h n) k) = ((handles k)[unat (hid h) := Some ?f], token_counter k)"
      using Ok by (auto simp: handle_read_def set_entry_def Let_def
          split: option.splits prod.splits res.splits PipeError.splits)
  qed
qed (simp_all add: handle_read_def)

lemma quiet_write: "quiet_step k (handle_exec m (OWrite h b) k)"
proof (cases "get_entry (handles k) h")
  case (Ok e)
  let ?last = "he_pos e + length b"
  let ?d = "if ?last > length (he_data e) then he_data e @ replicate (?last - length (he_data e)) 0 else he_data e"
  let ?f = "e\<lparr>he_data := blit (he_pos e) b ?d, he_pos := ?last, he_dirty := True\<rparr>"
  show ?thesis
  proof (rule quiet_update)
    from Ok show "slot_get (handles k) (unat (hid h)) = Some e" by (simp add: get_entry_Ok_iff)
    show "same_cap e ?f" by (simp add: same_cap_def)
    show "caps (handle_exec m (OWrite h b) k) = caps k \<or>
        caps (handle_exec m (OWrite h b) k) = ((handles k)[unat (hid h) := Some ?f], token_counter k)"
      using Ok by (auto simp: handle_write_def set_entry_def Let_def
          split: option.splits prod.splits res.splits PipeError.splits)
  qed
qed (simp_all add: handle_write_def)

lemma quiet_seek: "quiet_step k (handle_exec m (OSeek h off w) k)"
proof (cases "get_entry (handles k) h")
  case (Ok e)
  from Ok have g: "slot_get (handles k) (unat (hid h)) = Some e" by (simp add: get_entry_Ok_iff)
  have "caps (handle_exec m (OSeek h off w) k) = caps k \<or>
      (\<exists>p. caps (handle_exec m (OSeek h off w) k) =
         ((handles k)[unat (hid h) := Some (e\<lparr>he_pos := p\<rparr>)], token_counter k))"
    using Ok by (auto simp: handle_seek_def set_entry_def Let_def split: option.splits)
  moreover have "same_cap e (e\<lparr>he_pos := p\<rparr>)" for p
    by (simp add: same_cap_def)
  ultimately show ?thesis using quiet_update [OF g] by blast
qed (simp_all add: handle_seek_def)

lemma quiet_close: "quiet_step k (handle_exec m (OClose h) k)"
proof (cases "get_entry (handles k) h")
  case (Ok e)
  then show ?thesis
    by (intro quiet_clear [where i = "unat (hid h)"])
      (auto simp: handle_close_def set_entry_def split: option.splits prod.splits)
qed (simp_all add: handle_close_def)

lemmas quiet_ops = quiet_read quiet_write quiet_close quiet_seek

lemmas exec_steps = exec_create exec_create_dir exec_dup exec_pipe exec_restrict quiet_ops [THEN quiet_steps]

lemma exec_table_steps: "table_steps 2 (caps k) (caps (handle_exec m p k))"
  by (cases p) (simp_all only: exec_steps)

lemma run_table_steps: "table_steps (2 * length ops) (caps k) (caps (handle_run m ops k))"
proof (induction ops arbitrary: k)
  case Nil
  then show ?case by (simp add: handle_run_def steps_refl)
next
  case (Cons p ops)
  from table_steps_trans [OF exec_table_steps [of k m p] Cons.IH [of "handle_exec m p k"]]
  show ?case by (simp add: handle_run_def)
qed

section \<open>Tokens\<close>

lemma token_of_inj: "token_of a = token_of b \<Longrightarrow> a = b"
proof -
  assume "token_of a = token_of b"
  then have "token_of a * 0xF1DE83E19937733D = token_of b * 0xF1DE83E19937733D" by simp
  moreover have inv: "(0x9E3779B97F4A7C15 * 0xF1DE83E19937733D :: u64) = 1" by simp
  ultimately show "a = b" unfolding token_of_def mult.assoc inv by simp
qed

text \<open>
  The counter stands at \<open>n\<close>; every live token was drawn before, and no two live entries share one.
\<close>

definition handles_inv :: "nat \<Rightarrow> HandleEntry option list \<times> u64 \<Rightarrow> bool" where
  "handles_inv n x \<longleftrightarrow> snd x = of_nat n \<and> 1 \<le> n \<and>
     (\<forall>i e. slot_get (fst x) i = Some e \<longrightarrow> (\<exists>j. 1 \<le> j \<and> j < n \<and> he_token e = token_of (of_nat j))) \<and>
     (\<forall>i j e f. slot_get (fst x) i = Some e \<and> slot_get (fst x) j = Some f \<and> he_token e = he_token f \<longrightarrow> i = j)"

lemma fresh_token:
  assumes "j < n" and "n < 2 ^ 64"
  shows "token_of (of_nat j) \<noteq> token_of (of_nat n)"
proof
  assume "token_of (of_nat j) = token_of (of_nat n)"
  then have "(of_nat j :: u64) = of_nat n" by (rule token_of_inj)
  then have "unat (of_nat j :: u64) = unat (of_nat n :: u64)" by simp
  then have "j mod 2 ^ 64 = n mod 2 ^ 64" by (simp add: unat_of_nat)
  with assms show False by simp
qed

lemma table_step_inv:
  assumes "table_step x y" and "handles_inv n x" and "n < 2 ^ 64"
  shows "handles_inv (if snd y = snd x then n else Suc n) y"
  using assms
proof (cases rule: table_step.cases)
  case (ts_update t i e f c)
  then show ?thesis
    using assms(2) by (auto simp: handles_inv_def slot_simps same_cap_def split: if_splits)
next
  case (ts_clear t c i)
  then show ?thesis
    using assms(2) by (auto simp: handles_inv_def slot_simps split: if_splits)
next
  case (ts_insert e c t)
  have c: "c = of_nat n" using assms(2) ts_insert by (simp add: handles_inv_def)
  have old: "\<exists>j. 1 \<le> j \<and> j < n \<and> he_token f = token_of (of_nat j)" if "slot_get t i = Some f" for i f
    using assms(2) ts_insert that by (auto simp: handles_inv_def)
  have ne: "he_token f \<noteq> he_token e" if "slot_get t i = Some f" for i f
    using old [OF that] fresh_token [OF _ assms(3)] ts_insert(3) c by metis
  have "snd y \<noteq> snd x" using ts_insert by simp
  moreover have "handles_inv (Suc n) y"
    unfolding handles_inv_def
  proof (intro conjI allI impI)
    show "snd y = of_nat (Suc n)" using ts_insert c by simp
    show "1 \<le> Suc n" by simp
    show "\<exists>j. 1 \<le> j \<and> j < Suc n \<and> he_token f = token_of (of_nat j)" if "slot_get (fst y) i = Some f" for i f
    proof (cases "i = fst (slot_insert e t)")
      case True
      with that ts_insert have "f = e" by (simp add: slot_simps)
      moreover have "1 \<le> n" using assms(2) by (simp add: handles_inv_def)
      ultimately show ?thesis using ts_insert c by auto
    next
      case False
      with that ts_insert have "slot_get t i = Some f" by (simp add: slot_simps)
      from old [OF this] show ?thesis by auto
    qed
    show "i = j" if "slot_get (fst y) i = Some a \<and> slot_get (fst y) j = Some b \<and> he_token a = he_token b" for i j a b
    proof -
      have uniq: "i = j" if "slot_get t i = Some a" "slot_get t j = Some b"
        using assms(2) ts_insert that \<open>_ \<and> _ \<and> he_token a = he_token b\<close> by (auto simp: handles_inv_def)
      with that ts_insert ne show ?thesis
        by (auto simp: slot_simps split: if_splits)
    qed
  qed
  ultimately show ?thesis by simp
qed

text \<open>A token that was drawn and that no live entry carries.\<close>

definition retired :: "u64 \<Rightarrow> nat \<Rightarrow> HandleEntry option list \<times> u64 \<Rightarrow> bool" where
  "retired tok n x \<longleftrightarrow> (\<exists>j<n. tok = token_of (of_nat j)) \<and> (\<forall>i e. slot_get (fst x) i = Some e \<longrightarrow> he_token e \<noteq> tok)"

lemma table_step_retired:
  assumes "table_step x y" and "handles_inv n x" and "n < 2 ^ 64" and "retired tok n x"
  shows "retired tok (if snd y = snd x then n else Suc n) y"
  using assms
proof (cases rule: table_step.cases)
  case (ts_update t i e f c)
  then show ?thesis
    using assms(4) by (auto simp: retired_def slot_simps same_cap_def split: if_splits)
next
  case (ts_clear t c i)
  then show ?thesis
    using assms(4) by (auto simp: retired_def slot_simps split: if_splits)
next
  case (ts_insert e c t)
  obtain j where j: "j < n" "tok = token_of (of_nat j)" using assms(4) by (auto simp: retired_def)
  have "he_token e \<noteq> tok"
    using fresh_token [OF j(1) assms(3)] j(2) ts_insert assms(2) by (auto simp: handles_inv_def)
  moreover have "\<exists>j<Suc n. tok = token_of (of_nat j)" using j by (auto intro: exI [of _ j])
  ultimately show ?thesis
    using assms(4) ts_insert by (auto simp: retired_def slot_simps split: if_splits)
qed

lemma table_steps_retired:
  assumes "table_steps d x y" and "handles_inv n x" and "n + d < 2 ^ 64" and "retired tok n x"
  shows "\<exists>n'. n \<le> n' \<and> n' \<le> n + d \<and> handles_inv n' y \<and> retired tok n' y"
  using assms
proof (induction arbitrary: n rule: table_steps.induct)
  case (steps_refl d x)
  then show ?case by auto
next
  case (steps_use x y d z)
  from steps_use.prems have n: "n < 2 ^ 64" by simp
  have "handles_inv n y" "retired tok n y"
    using table_step_inv [OF steps_use.hyps(1) steps_use.prems(1) n]
      table_step_retired [OF steps_use.hyps(1) steps_use.prems(1) n steps_use.prems(3)] steps_use.hyps(2)
    by simp_all
  with steps_use.IH [of n] steps_use.prems show ?case by simp
next
  case (steps_draw x y d z)
  from steps_draw.prems have n: "n < 2 ^ 64" by simp
  let ?n = "if snd y = snd x then n else Suc n"
  have y: "handles_inv ?n y" "retired tok ?n y"
    using table_step_inv [OF steps_draw.hyps(1) steps_draw.prems(1) n]
      table_step_retired [OF steps_draw.hyps(1) steps_draw.prems(1) n steps_draw.prems(3)]
    by simp_all
  have "?n + d < 2 ^ 64" using steps_draw.prems(2) by auto
  from steps_draw.IH [OF y(1) this y(2)] obtain n' where n': "?n \<le> n'" "n' \<le> ?n + d" "handles_inv n' z" "retired tok n' z"
    by blast
  then have "n \<le> n'" "n' \<le> n + Suc d" by (auto split: if_splits)
  with n' show ?case by blast
qed

lemma retired_invalid: "retired (htoken h) n (t, c) \<Longrightarrow> get_entry t h = Err InvalidHandle"
  using get_entry_cases [of t h] by (auto simp: retired_def get_entry_Ok_iff)

lemma close_clears:
  "get_entry (handles k) h = Ok e \<Longrightarrow> he_kind e \<in> {PipeRead, PipeWrite} \<longrightarrow> he_pipe_id e \<noteq> None \<Longrightarrow>
   handles (snd (handle_close m h k)) = (handles k)[unat (hid h) := None] \<and>
   token_counter (snd (handle_close m h k)) = token_counter k"
  by (auto simp: handle_close_def set_entry_def split: prod.splits)

lemma close_retires:
  assumes inv: "handles_inv n (caps k)" and e: "get_entry (handles k) h = Ok e"
    and pipe: "he_kind e \<in> {PipeRead, PipeWrite} \<longrightarrow> he_pipe_id e \<noteq> None"
  shows "handles_inv n (caps (snd (handle_close m h k))) \<and> retired (htoken h) n (caps (snd (handle_close m h k)))"
proof -
  from e have g: "slot_get (handles k) (unat (hid h)) = Some e" "he_token e = htoken h"
    by (simp_all add: get_entry_Ok_iff)
  from inv g have "\<exists>j. 1 \<le> j \<and> j < n \<and> htoken h = token_of (of_nat j)"
    unfolding handles_inv_def by fastforce
  moreover have "unat (hid h) = i" if "slot_get (handles k) i = Some f" "he_token f = htoken h" for i f
    using inv g that unfolding handles_inv_def by simp
  ultimately have "retired (htoken h) n (caps (snd (handle_close m h k)))"
    unfolding retired_def using close_clears [OF e pipe] by (auto simp: slot_simps)
  moreover have "handles_inv n (caps (snd (handle_close m h k)))"
    using inv close_clears [OF e pipe] by (auto simp: handles_inv_def slot_simps split: if_splits)
  ultimately show ?thesis by blast
qed

definition empty_kernel :: "'s \<Rightarrow> 's kernel" where
  "empty_kernel st = \<lparr>handles = [], token_counter = 1, pipes = [], fs_store = st\<rparr>"

lemma handles_inv_empty: "handles_inv 1 (caps (empty_kernel st))"
  by (simp add: handles_inv_def empty_kernel_def slot_get_def)

lemma table_steps_inv:
  "table_steps d x y \<Longrightarrow> handles_inv n x \<Longrightarrow> n + d < 2 ^ 64 \<Longrightarrow> \<exists>n'. n \<le> n' \<and> n' \<le> n + d \<and> handles_inv n' y"
proof (induction arbitrary: n rule: table_steps.induct)
  case (steps_refl d x)
  then show ?case by auto
next
  case (steps_use x y d z)
  then have "handles_inv n y" using table_step_inv [OF steps_use.hyps(1) steps_use.prems(1)] by simp
  with steps_use show ?case by simp
next
  case (steps_draw x y d z)
  then have "handles_inv (if snd y = snd x then n else Suc n) y"
    using table_step_inv [OF steps_draw.hyps(1) steps_draw.prems(1)] by simp
  moreover have "(if snd y = snd x then n else Suc n) + d < 2 ^ 64" using steps_draw.prems(2) by auto
  ultimately obtain n' where n': "(if snd y = snd x then n else Suc n) \<le> n'"
      "n' \<le> (if snd y = snd x then n else Suc n) + d" "handles_inv n' z"
    using steps_draw.IH by blast
  then have "n \<le> n'" "n' \<le> n + Suc d" by (auto split: if_splits)
  with n'(3) show ?case by blast
qed

lemma reachable_inv:
  assumes "1 + 2 * length ops < 2 ^ 64"
  shows "\<exists>n. n \<le> 1 + 2 * length ops \<and> handles_inv n (caps (handle_run m ops (empty_kernel st)))"
  using table_steps_inv [OF run_table_steps [of ops "empty_kernel st" m] handles_inv_empty assms] by auto

lemma close_accepted:
  assumes "fst (handle_close m h k) \<noteq> Err InvalidHandle"
  obtains e where "get_entry (handles k) h = Ok e" and "he_kind e \<in> {PipeRead, PipeWrite} \<longrightarrow> he_pipe_id e \<noteq> None"
proof (cases "get_entry (handles k) h")
  case (Ok e)
  moreover from Ok assms have "he_kind e \<in> {PipeRead, PipeWrite} \<longrightarrow> he_pipe_id e \<noteq> None"
    by (cases "he_pipe_id e") (auto simp: handle_close_def)
  ultimately show thesis by (rule that)
next
  case (Err x)
  with get_entry_cases [of "handles k" h] assms show thesis by (simp add: handle_close_def)
qed (simp add: get_entry_not_Panic)

text \<open>
  C12: a closed handle stays closed. In any state the handle operations lead to from the empty table, if
  \<open>handle_close\<close> accepts a handle (whatever becomes of the write-back of a dirty file), the same handle value is
  refused with \<open>InvalidHandle\<close> after every further sequence of creations, duplications, restrictions,
  reads, writes, seeks and closes, although the slot itself is reused, as long as fewer than 2^64 tokens are drawn.
\<close>

theorem closed_handle_stays_closed:
  assumes "k = handle_run m ops0 (empty_kernel st)" and "fst (handle_close m h k) \<noteq> Err InvalidHandle"
    and "1 + 2 * (length ops0 + length ops) < 2 ^ 64"
  shows "get_entry (handles (handle_run m ops (snd (handle_close m h k)))) h = Err InvalidHandle"
proof -
  let ?k = "snd (handle_close m h k)"
  from assms(3) obtain n where n: "n \<le> 1 + 2 * length ops0" "handles_inv n (caps k)"
    using reachable_inv [of ops0 m st] assms(1) by auto
  obtain e where "get_entry (handles k) h = Ok e" "he_kind e \<in> {PipeRead, PipeWrite} \<longrightarrow> he_pipe_id e \<noteq> None"
    using close_accepted [OF assms(2)] .
  from close_retires [OF n(2) this] have r: "handles_inv n (caps ?k)" "retired (htoken h) n (caps ?k)" by auto
  from n(1) assms(3) have "n + 2 * length ops < 2 ^ 64" by simp
  from table_steps_retired [OF run_table_steps r(1) this r(2)]
  show ?thesis using retired_invalid by blast
qed

lemma closed_handle_stays_closed_witness:
  "get_entry (handles (handle_run [] [OCreate [2] 15 []] (snd (handle_close [] \<lparr>hid = 0, htoken = 0x9E3779B97F4A7C15\<rparr>
      (handle_run [] [OCreate [1] 15 []] (empty_kernel ())))))) \<lparr>hid = 0, htoken = 0x9E3779B97F4A7C15\<rparr> = Err InvalidHandle"
  by (rule closed_handle_stays_closed [OF refl])
    (simp_all add: handle_run_def create_handle_with_path_def next_token_def insert_entry_def slot_insert_def
      empty_kernel_def handle_close_def get_entry_def new_entry_def set_entry_def)

section \<open>Attenuation\<close>

text \<open>\<open>e\<close> is no stronger than \<open>f\<close>: the same object, no right that \<open>f\<close> lacks.\<close>

definition derived_from :: "HandleEntry \<Rightarrow> HandleEntry \<Rightarrow> bool" where
  "derived_from e f \<longleftrightarrow> he_kind e = he_kind f \<and> he_path e = he_path f \<and> he_pipe_id e = he_pipe_id f \<and>
     he_rights e AND NOT (he_rights f) = 0"

fun makes_object :: "handle_op \<Rightarrow> bool" where
  "makes_object (OCreate d r p) = True"
| "makes_object (OCreateDir p r) = True"
| "makes_object OPipe = True"
| "makes_object _ = False"

lemma derived_from_refl [simp]: "derived_from e e"
  by (simp add: derived_from_def)

lemma derived_from_trans: "derived_from a b \<Longrightarrow> derived_from b c \<Longrightarrow> derived_from a c"
proof -
  assume a: "derived_from a b" "derived_from b c"
  have "x AND NOT z = 0" if "x AND NOT y = 0" "y AND NOT z = 0" for x y z :: u32
    using that by (auto simp: bit_eq_iff bit_simps)
  with a show ?thesis by (auto simp: derived_from_def)
qed

lemma derived_same_cap: "same_cap e f \<Longrightarrow> derived_from f e"
  by (simp add: same_cap_def derived_from_def)

text \<open>The step relation of the operations that create no object: insertions are derived from a live entry.\<close>

inductive cap_step :: "HandleEntry option list \<Rightarrow> HandleEntry option list \<Rightarrow> bool" where
  cs_keep: "cap_step t t"
| cs_update: "slot_get t i = Some e \<Longrightarrow> same_cap e f \<Longrightarrow> cap_step t (t[i := Some f])"
| cs_clear: "cap_step t (t[i := None])"
| cs_derive: "slot_get t i = Some e \<Longrightarrow> derived_from f e \<Longrightarrow> cap_step t (snd (slot_insert f t))"

lemma cap_step_derived:
  assumes "cap_step t t'" and "slot_get t' i = Some e"
  shows "\<exists>j f. slot_get t j = Some f \<and> derived_from e f"
  using assms
proof (cases rule: cap_step.cases)
  case (cs_update j f g)
  show ?thesis
  proof (cases "i = j")
    case True
    with cs_update assms(2) have "derived_from e f" by (simp add: slot_simps derived_same_cap)
    with cs_update show ?thesis by blast
  next
    case False
    with cs_update assms(2) have "slot_get t i = Some e" by (simp add: slot_simps)
    then show ?thesis using derived_from_refl by blast
  qed
next
  case (cs_derive j f g)
  show ?thesis
  proof (cases "i = fst (slot_insert g t)")
    case True
    with cs_derive assms(2) have "e = g" by (simp add: slot_simps)
    with cs_derive show ?thesis by blast
  next
    case False
    with cs_derive assms(2) have "slot_get t i = Some e" by (simp add: slot_simps)
    then show ?thesis using derived_from_refl by blast
  qed
next
  case (cs_clear j)
  with assms(2) have "slot_get t i = Some e" by (simp add: slot_simps split: if_splits)
  then show ?thesis using derived_from_refl by blast
next
  case cs_keep
  with assms(2) show ?thesis using derived_from_refl by blast
qed

lemma derived_new_entry:
  "r AND NOT (he_rights e) = 0 \<Longrightarrow> derived_from (new_entry tok r (he_kind e) (he_path e) d ps (he_pipe_id e)) e"
  by (simp add: derived_from_def new_entry_def)

lemma and_not_sub [simp]: "(r AND s) AND NOT r = 0" "r AND NOT r = 0" for r s :: u32
  by (auto simp: bit_eq_iff bit_simps)

lemma cap_step_dup: "cap_step (handles k) (handles (handle_exec m (ODup h) k))"
proof (cases "get_entry (handles k) h")
  case (Ok e)
  then have g: "slot_get (handles k) (unat (hid h)) = Some e" by (simp add: get_entry_Ok_iff)
  let ?n = "new_entry (token_of (token_counter k)) (he_rights e) (he_kind e) (he_path e) (he_data e) 0 (he_pipe_id e)"
  from Ok have "handles (handle_exec m (ODup h) k) = snd (slot_insert ?n (handles k))"
    by (auto simp: duplicate_handle_def next_token_def insert_entry_def token_of_def Let_def
        split: prod.splits option.splits)
  moreover have "derived_from ?n e" by (rule derived_new_entry) simp
  ultimately show ?thesis using cs_derive [OF g] by simp
qed (simp_all add: duplicate_handle_def cs_keep)

lemma cap_step_restrict: "cap_step (handles k) (handles (handle_exec m (ORestrict h r) k))"
proof (cases "\<exists>e. get_entry (handles k) h = Ok e \<and> (r AND NOT (he_rights e)) = 0")
  case True
  then obtain e where e: "get_entry (handles k) h = Ok e" "(r AND NOT (he_rights e)) = 0" by blast
  then have g: "slot_get (handles k) (unat (hid h)) = Some e" by (simp add: get_entry_Ok_iff)
  let ?n = "new_entry (token_of (token_counter k)) (he_rights e AND r) (he_kind e) (he_path e) (he_data e) (he_pos e) (he_pipe_id e)"
  from e have "handles (handle_exec m (ORestrict h r) k) = snd (slot_insert ?n (handles k))"
    by (simp add: restrict_rights_def next_token_def insert_entry_def token_of_def split: prod.splits)
  moreover have "derived_from ?n e" by (rule derived_new_entry) simp
  ultimately show ?thesis using cs_derive [OF g] by simp
next
  case False
  then have "handle_exec m (ORestrict h r) k = k"
    by (auto simp: restrict_rights_def split: res.splits)
  then show ?thesis by (simp add: cs_keep)
qed

lemma quiet_cap_step:
  assumes "quiet_step k k'"
  shows "cap_step (handles k) (handles k')"
proof (cases "caps k' = caps k")
  case True
  then show ?thesis by (simp add: cs_keep)
next
  case False
  with assms have "table_step (caps k) (caps k')" "token_counter k' = token_counter k"
    by (auto simp: quiet_step_def)
  then show ?thesis by (auto elim!: table_stepE intro: cs_update cs_clear)
qed

lemma exec_cap_step: "\<not> makes_object p \<Longrightarrow> cap_step (handles k) (handles (handle_exec m p k))"
  by (cases p) (simp_all only: makes_object.simps cap_step_dup cap_step_restrict quiet_ops [THEN quiet_cap_step] simp_thms)

text \<open>
  C13: rights never grow. A sequence of duplications, restrictions, reads, writes, seeks and closes, on any handles
  in any order, leaves only entries that are derived from an entry that was live at the start: the same
  kind of object, the same path, the same pipe, and no right the original lacked.
\<close>

theorem rights_never_grow:
  assumes "\<forall>p\<in>set ops. \<not> makes_object p" and "slot_get (handles (handle_run m ops k)) i = Some e"
  shows "\<exists>j f. slot_get (handles k) j = Some f \<and> derived_from e f"
  using assms
proof (induction ops arbitrary: k)
  case Nil
  then show ?case by (auto simp: handle_run_def intro: derived_from_refl)
next
  case (Cons p ops)
  then have "\<exists>j f. slot_get (handles (handle_exec m p k)) j = Some f \<and> derived_from e f"
    using Cons.IH [of "handle_exec m p k"] by (simp add: handle_run_def)
  then obtain j f where f: "slot_get (handles (handle_exec m p k)) j = Some f" "derived_from e f" by blast
  from Cons.prems(1) have "cap_step (handles k) (handles (handle_exec m p k))" by (auto intro: exec_cap_step)
  from cap_step_derived [OF this f(1)] f(2) show ?case using derived_from_trans by blast
qed

definition sample_kernel :: "unit kernel" where
  "sample_kernel = snd (create_handle_with_path [1, 2, 3] HANDLE_RIGHTS_FILE_RW ''/f'' (empty_kernel ()))"

lemma sample_kernel_eq:
  "sample_kernel = \<lparr>handles = [Some (new_entry 0x9E3779B97F4A7C15 15 HFile ''/f'' [1, 2, 3] 0 None)], token_counter = 2,
     pipes = [], fs_store = ()\<rparr>"
  by (simp add: sample_kernel_def create_handle_with_path_def next_token_def insert_entry_def slot_insert_def
      empty_kernel_def rights_defs)

lemma rights_never_grow_witness:
  "\<exists>j f. slot_get (handles sample_kernel) j = Some f \<and>
     derived_from (new_entry (0x9E3779B97F4A7C15 * 2) 1 HFile ''/f'' [1, 2, 3] 0 None) f"
  by (rule rights_never_grow [where ops = "[ORestrict \<lparr>hid = 0, htoken = 0x9E3779B97F4A7C15\<rparr> 1]" and i = 1 and m = "[]"])
    (simp_all add: sample_kernel_eq handle_run_def restrict_rights_def get_entry_def next_token_def insert_entry_def
      slot_insert_def slot_get_def new_entry_def)

section \<open>Reading back what was written\<close>

lemma get_entry_set_entry:
  "get_entry (handles k) h = Ok e \<Longrightarrow> he_token f = he_token e \<Longrightarrow> get_entry (handles (set_entry h (Some f) k)) h = Ok f"
  by (auto simp: get_entry_Ok_iff set_entry_def slot_simps)

lemma get_entry_set_other:
  "hid g \<noteq> hid h \<Longrightarrow> get_entry (handles (set_entry h v k)) g = get_entry (handles k) g"
  by (simp add: get_entry_def set_entry_def word_unat_eq_iff)

lemma sint_of_small: "n < 2 ^ 63 \<Longrightarrow> sint (of_nat n :: u64) = int n"
  by (simp add: signed_of_nat signed_take_bit_int_eq_self)

lemma handle_write_file:
  assumes "get_entry (handles k) h = Ok e" "he_kind e = HFile" "he_rights e AND HANDLE_RIGHT_WRITE \<noteq> 0"
  shows "\<exists>d. handle_write h b k = (Ok (length b), set_entry h (Some (e\<lparr>he_data := d, he_pos := he_pos e + length b, he_dirty := True\<rparr>)) k) \<and>
     length d = max (length (he_data e)) (he_pos e + length b) \<and> take (length b) (drop (he_pos e) d) = b \<and>
     (\<forall>i<length (he_data e). i < he_pos e \<or> he_pos e + length b \<le> i \<longrightarrow> d ! i = he_data e ! i)"
proof -
  let ?p = "he_pos e" let ?n = "he_pos e + length b"
  let ?x = "if ?n > length (he_data e) then he_data e @ replicate (?n - length (he_data e)) 0 else he_data e"
  let ?d = "blit ?p b ?x"
  have len: "?n \<le> length ?x" "length ?x = max (length (he_data e)) ?n" by auto
  have "handle_write h b k = (Ok (length b), set_entry h (Some (e\<lparr>he_data := ?d, he_pos := ?n, he_dirty := True\<rparr>)) k)"
    using assms by (simp add: handle_write_def Let_def)
  moreover have "length ?d = max (length (he_data e)) ?n" using len by simp
  moreover have "take (length b) (drop ?p ?d) = b" using len by (simp only: take_drop_blit)
  moreover have "?d ! i = he_data e ! i" if "i < length (he_data e)" "i < ?p \<or> ?n \<le> i" for i
  proof -
    have "i < length ?x" using that by auto
    with that len(1) have "?d ! i = ?x ! i" by (auto simp: nth_blit)
    then show ?thesis using that by (auto simp: nth_append)
  qed
  ultimately show ?thesis by blast
qed

lemma handle_seek_set:
  assumes "get_entry (handles k) h = Ok e" "he_kind e = HFile" "he_rights e AND HANDLE_RIGHT_SEEK \<noteq> 0"
    and "p \<le> length (he_data e)" "p < 2 ^ 63"
  shows "handle_seek h (of_nat p) SEEK_SET k = (Ok p, set_entry h (Some (e\<lparr>he_pos := p\<rparr>)) k)"
  using assms by (simp add: handle_seek_def Let_def i64_add_def sint_of_small)

lemma handle_read_file:
  assumes "get_entry (handles k) h = Ok e" "he_kind e = HFile" "he_rights e AND HANDLE_RIGHT_READ \<noteq> 0"
  shows "fst (handle_read h n k) = Ok (take n (drop (he_pos e) (he_data e)))"
  using assms by (simp add: handle_read_def Let_def min_def)



section \<open>Restricting a pipe end\<close>

text \<open>
  \<open>restrict_rights\<close> copies a pipe's write end without counting the new writer. Closing the copy ends the stream for the
  reader while the original write handle is still open.
\<close>

definition pipe_trace :: "unit kernel" where
  "pipe_trace = handle_run [] [OPipe, ORestrict \<lparr>hid = 1, htoken = token_of 2\<rparr> 2, OClose \<lparr>hid = 2, htoken = token_of 3\<rparr>] (empty_kernel ())"

lemma restricted_pipe_ends_early:
  "fst (handle_read \<lparr>hid = 0, htoken = token_of 1\<rparr> 8 pipe_trace) = Ok [] \<and>
   is_Ok (get_entry (handles pipe_trace) \<lparr>hid = 1, htoken = token_of 2\<rparr>)"
  by code_simp

end
