(* ===== verification/Syscall_Fs.thy ===== *)
theory Syscall_Fs
  imports Handle
begin

text \<open>
  \<^verbatim>\<open>kernel/src/syscall/handle.rs\<close> and \<^verbatim>\<open>kernel/src/syscall/filesystem.rs\<close>: the system calls on handles and
  files. The state is the kernel state and the memory of the calling process, which the kernel
  reads and writes through validated pointers; a \<^verbatim>\<open>Handle\<close> in user memory is its id and its token, two
  little-endian 64-bit words. The mount table is fixed after boot and is an argument.
\<close>

section \<open>User memory\<close>

record 's machine =
  kern :: "'s kernel"
  umem :: "u64 \<Rightarrow> u8"

definition load_bytes :: "u64 \<Rightarrow> nat \<Rightarrow> (u64 \<Rightarrow> u8) \<Rightarrow> bytes" where
  "load_bytes addr n mem = map (\<lambda>i. mem (addr + of_nat i)) [0..<n]"

text \<open>Writing a byte sequence; the last write to an address wins.\<close>

fun store_bytes :: "u64 \<Rightarrow> bytes \<Rightarrow> (u64 \<Rightarrow> u8) \<Rightarrow> u64 \<Rightarrow> u8" where
  "store_bytes addr [] mem = mem"
| "store_bytes addr (b # bs) mem = store_bytes (addr + 1) bs (mem(addr := b))"

definition user_str :: "(u64 \<Rightarrow> u8) \<Rightarrow> u64 \<Rightarrow> u64 \<Rightarrow> (SyscallError, string) res" where
  "user_str mem arg_ptr arg_len =
     res_bind (user_slice_from_args arg_ptr arg_len) (\<lambda>s.
       case from_utf8 (as_slice mem s) of Some str \<Rightarrow> Ok str | None \<Rightarrow> Err InvalidUtf8)"

text \<open>\<^verbatim>\<open>UserPtr<Handle>\<close>: 16 bytes with alignment 8.\<close>

definition user_handle_ptr :: "u64 \<Rightarrow> (SyscallError, u64) res" where
  "user_handle_ptr arg = user_ptr_from_raw 8 arg"

definition read_handle :: "(u64 \<Rightarrow> u8) \<Rightarrow> u64 \<Rightarrow> Handle" where
  "read_handle mem addr =
     \<lparr>hid = from_le (load_bytes addr 8 mem), htoken = from_le (load_bytes (addr + 8) 8 mem)\<rparr>"

definition write_handle :: "u64 \<Rightarrow> Handle \<Rightarrow> (u64 \<Rightarrow> u8) \<Rightarrow> u64 \<Rightarrow> u8" where
  "write_handle addr h mem = store_bytes addr (le64 (hid h) @ le64 (htoken h)) mem"

definition write_stat :: "u64 \<Rightarrow> HandleStat \<Rightarrow> (u64 \<Rightarrow> u8) \<Rightarrow> u64 \<Rightarrow> u8" where
  "write_stat addr st mem =
     store_bytes addr (le64 (of_nat (stat_size st)) @ le64 (of_nat (stat_kind st)) @ le64 (stat_rights st)) mem"

definition with_kern :: "('s kernel \<Rightarrow> ('e, 'a) res \<times> 's kernel) \<Rightarrow> 's machine \<Rightarrow> ('e, 'a) res \<times> 's machine" where
  "with_kern f s = (case f (kern s) of (r, k) \<Rightarrow> (r, s\<lparr>kern := k\<rparr>))"

section \<open>Opening a path\<close>

definition dir_handle :: "string \<Rightarrow> u32 \<Rightarrow> 's kernel \<Rightarrow> (SyscallError, Handle) res \<times> 's kernel" where
  "dir_handle path rights k =
     (let dir_rights = (if rights = 0 then HANDLE_RIGHTS_DIRECTORY_READ else rights) in
      if (dir_rights AND (HANDLE_RIGHT_ENUM OR HANDLE_RIGHT_LOOKUP)) = 0 then (Err InvalidArgument, k)
      else case create_directory_handle path dir_rights k of (h, k) \<Rightarrow> (Ok h, k))"

definition open_path_to_handle :: "'s mounts \<Rightarrow> string \<Rightarrow> u32 \<Rightarrow> 's kernel \<Rightarrow> (SyscallError, Handle) res \<times> 's kernel" where
  "open_path_to_handle m path rights k =
     (if path = ''/'' \<or> path = [] then dir_handle ''/'' rights k
      else
        let has_write = ((rights AND HANDLE_RIGHT_WRITE) \<noteq> 0) in
        ok_then (map_err vfs_error_to_syscall (normalize_path path)) k (\<lambda>normalized.
          let is_procfs = starts_with ''/proc'' normalized in
          if has_write \<and> is_procfs then (Err SyscallError.ReadOnly, k)
          else case vfs_open m path (fs_store k) of
            Ok node \<Rightarrow>
              (case node_kind node of
                 Directory \<Rightarrow>
                   if has_write then (Err SyscallError.NotSupported, k) else dir_handle path rights k
               | File \<Rightarrow>
                   ok_then (map_err vfs_error_to_syscall (vfs_read_file m path (fs_store k))) k (\<lambda>d.
                     let file_rights = (if rights = 0 then
                           (if has_write then HANDLE_RIGHTS_FILE_RW else HANDLE_RIGHTS_FILE_READ) else rights) in
                     if \<not> has_write \<and> (file_rights AND HANDLE_RIGHT_READ) = 0 then (Err InvalidArgument, k)
                     else case create_handle_with_path d file_rights path k of (h, k) \<Rightarrow> (Ok h, k)))
          | Err NotAFile \<Rightarrow>
              if has_write then (Err SyscallError.NotSupported, k) else dir_handle path rights k
          | Err NotFound \<Rightarrow>
              if has_write then
                (case create_handle_with_path [] (if rights = 0 then HANDLE_RIGHTS_FILE_RW else rights) path k of (h, k) \<Rightarrow> (Ok h, k))
              else (Err FileNotFound, k)
          | Err e \<Rightarrow> (Err (vfs_error_to_syscall e), k)
          | Panic \<Rightarrow> (Panic, k)))"

definition sys_open :: "'s mounts \<Rightarrow> u64 \<Rightarrow> u64 \<Rightarrow> u64 \<Rightarrow> u64 \<Rightarrow> 's machine \<Rightarrow> (SyscallError, u64) res \<times> 's machine" where
  "sys_open m arg1 arg2 arg3 arg4 s =
     ok_then (user_str (umem s) arg1 arg2) s (\<lambda>path.
     ok_then (user_handle_ptr arg3) s (\<lambda>handle_ptr.
       case with_kern (open_path_to_handle m path (ucast arg4)) s of (r, s) \<Rightarrow>
       ok_then r s (\<lambda>h. (Ok 0, s\<lparr>umem := write_handle handle_ptr h (umem s)\<rparr>))))"

section \<open>Input and output on handles\<close>

text \<open>
  The loop of \<^verbatim>\<open>sys_handle_read\<close>: while the pipe has no data the task yields, and \<open>env i\<close> is what the
  other tasks do to the machine during the \<open>i\<close>-th yield. A wait that never ends is \<open>None\<close>.
\<close>

partial_function (option) handle_read_loop ::
  "(nat \<Rightarrow> 's machine \<Rightarrow> 's machine) \<Rightarrow> nat \<Rightarrow> Handle \<Rightarrow> user_slice \<Rightarrow> 's machine \<Rightarrow>
     ((SyscallError, u64) res \<times> 's machine) option" where
  "handle_read_loop env i h ubuf s =
     (case with_kern (handle_read h (unat (us_len ubuf))) s of
        (Ok d, s) \<Rightarrow> Some (Ok (of_nat (length d)), s\<lparr>umem := store_bytes (us_addr ubuf) d (umem s)\<rparr>)
      | (Err SyscallError.WouldBlock, s) \<Rightarrow> handle_read_loop env (Suc i) h ubuf (env i s)
      | (Err e, s) \<Rightarrow> Some (Err e, s)
      | (Panic, s) \<Rightarrow> Some (Panic, s))"

definition sys_handle_read :: "(nat \<Rightarrow> 's machine \<Rightarrow> 's machine) \<Rightarrow> u64 \<Rightarrow> u64 \<Rightarrow> u64 \<Rightarrow> 's machine \<Rightarrow>
    ((SyscallError, u64) res \<times> 's machine) option" where
  "sys_handle_read env arg1 arg2 arg3 s =
     (case user_handle_ptr arg1 of
        Err e \<Rightarrow> Some (Err e, s) | Panic \<Rightarrow> Some (Panic, s)
      | Ok handle_ptr \<Rightarrow>
          let h = read_handle (umem s) handle_ptr in
          (case user_slice_from_args arg2 arg3 of
             Err e \<Rightarrow> Some (Err e, s) | Panic \<Rightarrow> Some (Panic, s)
           | Ok ubuf \<Rightarrow> handle_read_loop env 0 h ubuf s))"

definition sys_handle_write :: "u64 \<Rightarrow> u64 \<Rightarrow> u64 \<Rightarrow> 's machine \<Rightarrow> (SyscallError, u64) res \<times> 's machine" where
  "sys_handle_write arg1 arg2 arg3 s =
     ok_then (user_handle_ptr arg1) s (\<lambda>handle_ptr.
       let h = read_handle (umem s) handle_ptr in
     ok_then (user_slice_from_args arg2 arg3) s (\<lambda>ubuf.
       case with_kern (handle_write h (as_slice (umem s) ubuf)) s of (r, s) \<Rightarrow>
       ok_then r s (\<lambda>n. (Ok (of_nat n), s))))"

definition sys_handle_close :: "'s mounts \<Rightarrow> u64 \<Rightarrow> 's machine \<Rightarrow> (SyscallError, u64) res \<times> 's machine" where
  "sys_handle_close m arg1 s =
     ok_then (user_handle_ptr arg1) s (\<lambda>handle_ptr.
       let h = read_handle (umem s) handle_ptr in
       case with_kern (handle_close m h) s of (r, s) \<Rightarrow> ok_then r s (\<lambda>_. (Ok 0, s)))"

definition sys_handle_stat :: "u64 \<Rightarrow> u64 \<Rightarrow> 's machine \<Rightarrow> (SyscallError, u64) res \<times> 's machine" where
  "sys_handle_stat arg1 arg2 s =
     ok_then (user_handle_ptr arg1) s (\<lambda>handle_ptr.
       let h = read_handle (umem s) handle_ptr in
     ok_then (user_ptr_from_raw 8 arg2) s (\<lambda>stat_ptr.
     ok_then (handle_stat h (kern s)) s (\<lambda>st.
       (Ok 0, s\<lparr>umem := write_stat stat_ptr st (umem s)\<rparr>))))"

definition sys_handle_seek :: "u64 \<Rightarrow> u64 \<Rightarrow> u64 \<Rightarrow> 's machine \<Rightarrow> (SyscallError, u64) res \<times> 's machine" where
  "sys_handle_seek arg1 arg2 arg3 s =
     ok_then (user_handle_ptr arg1) s (\<lambda>handle_ptr.
       let h = read_handle (umem s) handle_ptr in
       case with_kern (handle_seek h arg2 arg3) s of (r, s) \<Rightarrow> ok_then r s (\<lambda>p. (Ok (of_nat p), s)))"

definition sys_restrict_rights :: "u64 \<Rightarrow> u64 \<Rightarrow> u64 \<Rightarrow> 's machine \<Rightarrow> (SyscallError, u64) res \<times> 's machine" where
  "sys_restrict_rights arg1 arg2 arg3 s =
     ok_then (user_handle_ptr arg1) s (\<lambda>handle_ptr.
       let h = read_handle (umem s) handle_ptr in
     ok_then (user_handle_ptr arg3) s (\<lambda>new_handle_ptr.
       case with_kern (restrict_rights h (ucast arg2)) s of (r, s) \<Rightarrow>
       ok_then r s (\<lambda>h'. (Ok 0, s\<lparr>umem := write_handle new_handle_ptr h' (umem s)\<rparr>))))"

section \<open>Operations relative to a directory handle\<close>

definition validate_entry_name :: "string \<Rightarrow> (SyscallError, unit) res" where
  "validate_entry_name name =
     (if name = [] then Err InvalidArgument
      else if CHR ''/'' \<in> set name \<or> CHR 0x5C \<in> set name then Err InvalidArgument
      else if name = ''..'' \<or> name = ''.'' then Err SyscallError.PathTraversal
      else Ok ())"

definition build_child_path :: "string \<Rightarrow> string \<Rightarrow> string" where
  "build_child_path dir_path name =
     (if dir_path = [] \<or> dir_path = ''/'' then ''/'' @ name else dir_path @ ''/'' @ name)"

definition openat_error :: "VfsError \<Rightarrow> SyscallError" where
  "openat_error e = (case e of
     VfsError.PathTraversal \<Rightarrow> SyscallError.PathTraversal | InvalidPath \<Rightarrow> InvalidArgument | _ \<Rightarrow> Other)"

definition sys_openat :: "'s mounts \<Rightarrow> u64 \<Rightarrow> u64 \<Rightarrow> u64 \<Rightarrow> u64 \<Rightarrow> 's machine \<Rightarrow> (SyscallError, u64) res \<times> 's machine" where
  "sys_openat m arg1 arg2 arg3 arg4 s =
     ok_then (user_handle_ptr arg1) s (\<lambda>dir_handle_ptr.
       let dh = read_handle (umem s) dir_handle_ptr in
     ok_then (user_str (umem s) arg2 arg3) s (\<lambda>path.
     ok_then (user_handle_ptr arg4) s (\<lambda>new_handle_ptr.
     ok_then (check_rights dh HANDLE_RIGHT_LOOKUP (kern s)) s (\<lambda>_.
     ok_then (get_kind dh (kern s)) s (\<lambda>kd.
       if kd \<noteq> HDirectory then (Err InvalidArgument, s)
       else
     ok_then (map_err openat_error (validate_relative_path path)) s (\<lambda>_.
     ok_then (get_path dh (kern s)) s (\<lambda>dir_path.
       let full_path = (if dir_path = [] \<or> dir_path = ''/'' then ''/'' @ path else dir_path @ ''/'' @ path) in
     ok_then (get_rights dh (kern s)) s (\<lambda>parent_rights.
       case with_kern (open_path_to_handle m full_path parent_rights) s of (r, s) \<Rightarrow>
       ok_then r s (\<lambda>h. (Ok 0, s\<lparr>umem := write_handle new_handle_ptr h (umem s)\<rparr>))))))))))"

text \<open>What the three calls on a directory entry share: the checks, and the path of the entry.\<close>

definition child_target :: "Handle \<Rightarrow> u32 \<Rightarrow> string \<Rightarrow> 's machine \<Rightarrow> (SyscallError, string) res" where
  "child_target dh required name s =
     res_bind (check_rights dh required (kern s)) (\<lambda>_.
     res_bind (get_kind dh (kern s)) (\<lambda>kd.
       if kd \<noteq> HDirectory then Err InvalidArgument
       else res_bind (validate_entry_name name) (\<lambda>_.
         res_bind (get_path dh (kern s)) (\<lambda>dir_path. Ok (build_child_path dir_path name)))))"

definition sys_handle_create_file :: "'s mounts \<Rightarrow> u64 \<Rightarrow> u64 \<Rightarrow> u64 \<Rightarrow> u64 \<Rightarrow> 's machine \<Rightarrow>
    (SyscallError, u64) res \<times> 's machine" where
  "sys_handle_create_file m arg1 arg2 arg3 arg4 s =
     ok_then (user_handle_ptr arg1) s (\<lambda>dir_handle_ptr.
       let dh = read_handle (umem s) dir_handle_ptr in
     ok_then (user_str (umem s) arg2 arg3) s (\<lambda>name.
     ok_then (user_handle_ptr arg4) s (\<lambda>out_handle_ptr.
     ok_then (child_target dh HANDLE_RIGHT_CREATE name s) s (\<lambda>full_path.
       case vfs_delete_file m full_path (fs_store (kern s)) of (r1, st1) \<Rightarrow>
       if is_Panic r1 then (Panic, s\<lparr>kern := (kern s)\<lparr>fs_store := st1\<rparr>\<rparr>)
       else case vfs_create_file m full_path [] st1 of (r2, st2) \<Rightarrow>
       let s = s\<lparr>kern := (kern s)\<lparr>fs_store := st2\<rparr>\<rparr> in
       ok_then (map_err vfs_error_to_syscall r2) s (\<lambda>_.
         case create_handle_with_path [] HANDLE_RIGHTS_FILE_RW full_path (kern s) of (h, k) \<Rightarrow>
           (Ok 0, s\<lparr>kern := k, umem := write_handle out_handle_ptr h (umem s)\<rparr>))))))"

definition sys_handle_unlink :: "'s mounts \<Rightarrow> u64 \<Rightarrow> u64 \<Rightarrow> u64 \<Rightarrow> 's machine \<Rightarrow> (SyscallError, u64) res \<times> 's machine" where
  "sys_handle_unlink m arg1 arg2 arg3 s =
     ok_then (user_handle_ptr arg1) s (\<lambda>dir_handle_ptr.
       let dh = read_handle (umem s) dir_handle_ptr in
     ok_then (user_str (umem s) arg2 arg3) s (\<lambda>name.
     ok_then (child_target dh HANDLE_RIGHT_DELETE name s) s (\<lambda>full_path.
       case vfs_delete_file m full_path (fs_store (kern s)) of (r1, st1) \<Rightarrow>
       let s1 = s\<lparr>kern := (kern s)\<lparr>fs_store := st1\<rparr>\<rparr> in
       (case r1 of
          Ok _ \<Rightarrow> (Ok 0, s1)
        | Panic \<Rightarrow> (Panic, s1)
        | Err _ \<Rightarrow>
            (case vfs_delete_dir m full_path st1 of (r2, st2) \<Rightarrow>
               let s2 = s\<lparr>kern := (kern s)\<lparr>fs_store := st2\<rparr>\<rparr> in
               ok_then (map_err vfs_error_to_syscall r2) s2 (\<lambda>_. (Ok 0, s2)))))))"

definition sys_handle_mkdir :: "'s mounts \<Rightarrow> u64 \<Rightarrow> u64 \<Rightarrow> u64 \<Rightarrow> 's machine \<Rightarrow> (SyscallError, u64) res \<times> 's machine" where
  "sys_handle_mkdir m arg1 arg2 arg3 s =
     ok_then (user_handle_ptr arg1) s (\<lambda>dir_handle_ptr.
       let dh = read_handle (umem s) dir_handle_ptr in
     ok_then (user_str (umem s) arg2 arg3) s (\<lambda>name.
     ok_then (child_target dh HANDLE_RIGHT_CREATE name s) s (\<lambda>full_path.
       case vfs_create_dir m full_path (fs_store (kern s)) of (r, st) \<Rightarrow>
       let s = s\<lparr>kern := (kern s)\<lparr>fs_store := st\<rparr>\<rparr> in
       ok_then (map_err vfs_error_to_syscall r) s (\<lambda>_. (Ok 0, s)))))"

section \<open>Directory listings\<close>

text \<open>The loop of \<^verbatim>\<open>list_dir_to_buffer\<close>: the entry names, one per line, as far as they fit.\<close>

fun copy_entries :: "bytes \<Rightarrow> nat \<Rightarrow> VfsDirEntry list \<Rightarrow> bytes \<times> nat" where
  "copy_entries ubuf offset [] = (ubuf, offset)"
| "copy_entries ubuf offset (entry # entries) =
     (let name = bytes_of_string (de_name entry);
          is_dir = (de_kind entry = Directory);
          needed = length name + (if is_dir then 2 else 1) in
      if offset + needed > length ubuf then (ubuf, offset)
      else
        let ubuf = blit offset name ubuf;
            offset = offset + length name;
            (ubuf, offset) = (if is_dir then (ubuf[offset := 0x2F], offset + 1) else (ubuf, offset)) in
        copy_entries (ubuf[offset := 0x0A]) (offset + 1) entries)"

definition list_dir_to_buffer :: "'s mounts \<Rightarrow> string \<Rightarrow> bytes \<Rightarrow> 's kernel \<Rightarrow> (SyscallError, bytes \<times> nat) res" where
  "list_dir_to_buffer m path ubuf k =
     res_bind (map_err vfs_error_to_syscall (vfs_list_dir m path (fs_store k))) (\<lambda>entries.
       Ok (copy_entries ubuf 0 entries))"

definition sys_dir_list :: "'s mounts \<Rightarrow> u64 \<Rightarrow> u64 \<Rightarrow> u64 \<Rightarrow> u64 \<Rightarrow> 's machine \<Rightarrow> (SyscallError, u64) res \<times> 's machine" where
  "sys_dir_list m arg1 arg2 arg3 arg4 s =
     ok_then (user_str (umem s) arg1 arg2) s (\<lambda>path.
     ok_then (user_slice_from_args arg3 arg4) s (\<lambda>ubuf.
     ok_then (list_dir_to_buffer m path (as_slice (umem s) ubuf) (kern s)) s (\<lambda>(b, written).
       (Ok (of_nat written), s\<lparr>umem := store_bytes (us_addr ubuf) b (umem s)\<rparr>))))"

definition sys_handle_enum :: "'s mounts \<Rightarrow> u64 \<Rightarrow> u64 \<Rightarrow> u64 \<Rightarrow> 's machine \<Rightarrow> (SyscallError, u64) res \<times> 's machine" where
  "sys_handle_enum m arg1 arg2 arg3 s =
     ok_then (user_handle_ptr arg1) s (\<lambda>handle_ptr.
       let h = read_handle (umem s) handle_ptr in
     ok_then (user_slice_from_args arg2 arg3) s (\<lambda>ubuf.
     ok_then (check_rights h HANDLE_RIGHT_ENUM (kern s)) s (\<lambda>_.
     ok_then (get_kind h (kern s)) s (\<lambda>kd.
       if kd \<noteq> HDirectory then (Err InvalidArgument, s)
       else
     ok_then (get_path h (kern s)) s (\<lambda>path.
     ok_then (list_dir_to_buffer m path (as_slice (umem s) ubuf) (kern s)) s (\<lambda>(b, written).
       (Ok (of_nat written), s\<lparr>umem := store_bytes (us_addr ubuf) b (umem s)\<rparr>)))))))"

section \<open>Operations on paths\<close>

definition sys_file_delete :: "'s mounts \<Rightarrow> u64 \<Rightarrow> u64 \<Rightarrow> 's machine \<Rightarrow> (SyscallError, u64) res \<times> 's machine" where
  "sys_file_delete m arg1 arg2 s =
     ok_then (user_str (umem s) arg1 arg2) s (\<lambda>path.
       case vfs_delete_file m path (fs_store (kern s)) of (r, st) \<Rightarrow>
       let s = s\<lparr>kern := (kern s)\<lparr>fs_store := st\<rparr>\<rparr> in
       ok_then (map_err vfs_error_to_syscall r) s (\<lambda>_. (Ok 0, s)))"

definition sys_file_write :: "'s mounts \<Rightarrow> u64 \<Rightarrow> u64 \<Rightarrow> u64 \<Rightarrow> u64 \<Rightarrow> 's machine \<Rightarrow> (SyscallError, u64) res \<times> 's machine" where
  "sys_file_write m arg1 arg2 arg3 arg4 s =
     ok_then (user_str (umem s) arg1 arg2) s (\<lambda>path.
     ok_then (user_slice_from_args arg3 arg4) s (\<lambda>d.
       case vfs_delete_file m path (fs_store (kern s)) of (r1, st1) \<Rightarrow>
       if is_Panic r1 then (Panic, s\<lparr>kern := (kern s)\<lparr>fs_store := st1\<rparr>\<rparr>)
       else case vfs_create_file m path (as_slice (umem s) d) st1 of (r2, st2) \<Rightarrow>
       let s = s\<lparr>kern := (kern s)\<lparr>fs_store := st2\<rparr>\<rparr> in
       ok_then (map_err vfs_error_to_syscall r2) s (\<lambda>_. (Ok 0, s))))"

definition sys_dir_create :: "'s mounts \<Rightarrow> u64 \<Rightarrow> u64 \<Rightarrow> 's machine \<Rightarrow> (SyscallError, u64) res \<times> 's machine" where
  "sys_dir_create m arg1 arg2 s =
     ok_then (user_str (umem s) arg1 arg2) s (\<lambda>path.
       case vfs_create_dir m path (fs_store (kern s)) of (r, st) \<Rightarrow>
       let s = s\<lparr>kern := (kern s)\<lparr>fs_store := st\<rparr>\<rparr> in
       ok_then (map_err vfs_error_to_syscall r) s (\<lambda>_. (Ok 0, s)))"

definition sys_dir_remove :: "'s mounts \<Rightarrow> u64 \<Rightarrow> u64 \<Rightarrow> 's machine \<Rightarrow> (SyscallError, u64) res \<times> 's machine" where
  "sys_dir_remove m arg1 arg2 s =
     ok_then (user_str (umem s) arg1 arg2) s (\<lambda>path.
       case vfs_delete_dir m path (fs_store (kern s)) of (r, st) \<Rightarrow>
       let s = s\<lparr>kern := (kern s)\<lparr>fs_store := st\<rparr>\<rparr> in
       ok_then (map_err vfs_error_to_syscall r) s (\<lambda>_. (Ok 0, s)))"

section \<open>Memory facts\<close>

lemma store_bytes_apply:
  "length bs \<le> 2 ^ 64 \<Longrightarrow> store_bytes addr bs mem a =
     (if unat (a - addr) < length bs then bs ! unat (a - addr) else mem a)"
proof (induction bs arbitrary: addr mem)
  case (Cons b bs)
  have u: "unat (a - (addr + 1)) = unat (a - addr) - 1" if "a \<noteq> addr"
  proof -
    from that have "a - addr \<noteq> 0" by simp
    then have "1 \<le> a - addr" by (simp add: word_le_nat_alt unat_gt_0 Suc_le_eq)
    then have "unat (a - addr - 1) = unat (a - addr) - 1" by (simp add: unat_sub)
    then show ?thesis by (simp add: algebra_simps)
  qed
  show ?case
  proof (cases "a = addr")
    case True
    have "unat (- 1 :: u64) = 2 ^ 64 - 1" by (simp add: unsigned_minus_1_eq_mask mask_eq_exp_minus_1)
    then show ?thesis using True Cons by simp
  next
    case False
    then have "unat (a - addr) \<noteq> 0" by (simp add: unat_eq_zero)
    then show ?thesis using False Cons u by (auto simp: nth_Cons')
  qed
qed simp

lemma load_store:
  assumes "k + n \<le> length bs" and "length bs \<le> 2 ^ 64"
  shows "load_bytes (addr + of_nat k) n (store_bytes addr bs mem) = take n (drop k bs)"
proof (rule nth_equalityI)
  show "length (load_bytes (addr + of_nat k) n (store_bytes addr bs mem)) = length (take n (drop k bs))"
    using assms by (simp add: load_bytes_def)
next
  fix i assume "i < length (load_bytes (addr + of_nat k) n (store_bytes addr bs mem))"
  then have i: "i < n" by (simp add: load_bytes_def)
  have "addr + of_nat k + of_nat i - addr = (of_nat (k + i) :: u64)" by simp
  moreover have "unat (of_nat (k + i) :: u64) = k + i" using i assms by (simp add: unat_of_nat del: of_nat_add)
  ultimately show "load_bytes (addr + of_nat k) n (store_bytes addr bs mem) ! i = take n (drop k bs) ! i"
    using i assms by (simp add: load_bytes_def store_bytes_apply)
qed

lemma read_write_handle [simp]: "read_handle (write_handle addr h mem) addr = h"
  using load_store [of 0 8 "le64 (hid h) @ le64 (htoken h)" addr mem]
    load_store [of 8 8 "le64 (hid h) @ le64 (htoken h)" addr mem]
  by (simp add: read_handle_def write_handle_def)

section \<open>Opening relative to a directory\<close>

lemma get_entry_inserted:
  assumes "insert_entry e tok k = (h, k')" and "he_token e = tok" and "length (handles k) < 2 ^ 64"
  shows "get_entry (handles k') h = Ok e"
proof -
  obtain i t where it: "slot_insert e (handles k) = (i, t)" by force
  then have h: "h = \<lparr>hid = of_nat i, htoken = tok\<rparr>" "handles k' = t"
    using assms(1) by (auto simp: insert_entry_def)
  have "i \<le> length (handles k)"
    using it by (auto simp: slot_insert_def split: option.splits dest: position_SomeD)
  then have "unat (of_nat i :: u64) = i" using assms(3) by (simp add: unat_of_nat)
  moreover have "slot_get t i = Some e" using slot_get_insert [of e "handles k" i] it by simp
  ultimately show ?thesis using h assms(2) by (simp add: get_entry_Ok_iff)
qed

text \<open>A handle \<open>h\<close> made in \<open>k\<close> for \<open>path\<close>.\<close>

definition made_for :: "'s kernel \<Rightarrow> string \<Rightarrow> u32 \<Rightarrow> Handle \<Rightarrow> 's kernel \<Rightarrow> bool" where
  "made_for k path rights h k' \<longleftrightarrow>
     (\<exists>kd d. (h, k') = (case next_token k of (tok, k) \<Rightarrow> insert_entry (new_entry tok rights kd path d 0 None) tok k) \<and>
        kd \<in> {HFile, HDirectory})"

lemma made_for_dir: "create_directory_handle path rights k = (h, k') \<Longrightarrow> made_for k path rights h k'"
  unfolding made_for_def create_directory_handle_def by (rule exI [of _ HDirectory], rule exI [of _ "[]"]) simp

lemma made_for_file: "create_handle_with_path d rights path k = (h, k') \<Longrightarrow> made_for k path rights h k'"
  unfolding made_for_def create_handle_with_path_def by (rule exI [of _ HFile], rule exI [of _ d]) simp

lemma case_Ok_pair [simp]: "(case p of (h, k) \<Rightarrow> (Ok h, k)) = (Ok a, b) \<longleftrightarrow> p = (a, b)"
  by (auto split: prod.splits)

lemma dir_handle_Ok: "dir_handle path rights k = (Ok h, k') \<Longrightarrow> rights \<noteq> 0 \<Longrightarrow> made_for k path rights h k'"
  by (auto simp: dir_handle_def Let_def made_for_dir split: if_splits)

lemma made_for_entry:
  assumes "made_for k path rights h k'" and "length (handles k) < 2 ^ 64"
  obtains e where "get_entry (handles k') h = Ok e" "he_path e = path" "he_rights e = rights"
    "he_kind e \<in> {HFile, HDirectory}" "he_pos e = 0" "\<not> he_dirty e" "fs_store k' = fs_store k"
proof -
  from assms(1) obtain kd d where m: "insert_entry (new_entry (token_counter k * 0x9E3779B97F4A7C15) rights kd path d 0 None)
      (token_counter k * 0x9E3779B97F4A7C15) (k\<lparr>token_counter := token_counter k + 1\<rparr>) = (h, k')" "kd \<in> {HFile, HDirectory}"
    by (auto simp: made_for_def next_token_def)
  have "fs_store k' = fs_store k" using m(1) by (auto simp: insert_entry_def split: prod.splits)
  with get_entry_inserted [OF m(1)] assms(2) m(2) show thesis
    by (intro that) (auto simp: new_entry_def)
qed

lemma open_path_Ok:
  assumes "open_path_to_handle m path rights k = (Ok h, k')" and "path \<noteq> ''/''" and "path \<noteq> []" and "rights \<noteq> 0"
  shows "made_for k path rights h k' \<and> ''..'' \<notin> set (split_on slash path)"
proof -
  from assms obtain n where n: "normalize_path path = Ok n"
    by (cases "normalize_path path") (auto simp: open_path_to_handle_def Let_def)
  then have "''..'' \<notin> set (split_on slash path)" by (auto simp: normalize_path_eq split: if_splits)
  moreover have "made_for k path rights h k'"
    using assms n
    by (auto simp: open_path_to_handle_def Let_def ok_then_Ok_iff dir_handle_Ok made_for_file
        split: if_splits res.splits VfsNodeKind.splits VfsError.splits)
  ultimately show ?thesis by blast
qed

lemma split_on_concat: "split_on c (x @ c # y) = split_on c x @ split_on c y"
proof (induction x)
  case (Cons a x)
  obtain u us where "split_on c x = u # us" by (cases "split_on c x") auto
  with Cons show ?case by auto
qed simp

lemma path_components_child:
  assumes "full = (if d = [] \<or> d = ''/'' then ''/'' @ p else d @ ''/'' @ p)"
  shows "path_components full = path_components d @ path_components p"
  using assms split_on_concat [of slash d p] split_on_concat [of slash "[]" p]
  by (auto simp: path_components_def)

lemma ok_thenE:
  assumes "ok_then r s f = (Ok b, t)"
  obtains a where "r = Ok a" and "f a = (Ok b, t)"
  using assms by (auto simp: ok_then_Ok_iff)

lemma with_kern_write:
  "(case with_kern f s of (r, s) \<Rightarrow> ok_then r s (\<lambda>h. (Ok 0, s\<lparr>umem := write_handle p h (umem s)\<rparr>))) = (Ok v, s') \<longleftrightarrow>
     (\<exists>h k'. f (kern s) = (Ok h, k') \<and> v = 0 \<and> s' = s\<lparr>kern := k', umem := write_handle p h (umem s)\<rparr>)"
  by (auto simp: with_kern_def ok_then_Ok_iff split: prod.splits)

lemma access_Ok_iff:
  "check_rights h r k = Ok u \<longleftrightarrow> (\<exists>e. get_entry (handles k) h = Ok e \<and> he_rights e AND r = r)"
  "get_kind h k = Ok kd \<longleftrightarrow> (\<exists>e. get_entry (handles k) h = Ok e \<and> kd = he_kind e)"
  "get_path h k = Ok p \<longleftrightarrow> (\<exists>e. get_entry (handles k) h = Ok e \<and> p = he_path e)"
  "get_rights h k = Ok q \<longleftrightarrow> (\<exists>e. get_entry (handles k) h = Ok e \<and> q = he_rights e)"
  "user_handle_ptr a = Ok x \<Longrightarrow> x = a"
  by (auto simp: check_rights_def get_kind_def get_path_def get_rights_def res_bind_Ok_iff user_handle_ptr_def
      user_ptr_from_raw_def split: if_splits)

lemma sys_openat_Ok:
  assumes "sys_openat m arg1 arg2 arg3 arg4 s = (Ok v, s')"
  obtains dir path h k' where "get_entry (handles (kern s)) (read_handle (umem s) arg1) = Ok dir"
    "he_rights dir AND HANDLE_RIGHT_LOOKUP = HANDLE_RIGHT_LOOKUP" "he_kind dir = HDirectory"
    "user_str (umem s) arg2 arg3 = Ok path" "is_Ok (validate_relative_path path)"
    "open_path_to_handle m (if he_path dir = [] \<or> he_path dir = ''/'' then ''/'' @ path else he_path dir @ ''/'' @ path)
       (he_rights dir) (kern s) = (Ok h, k')"
    "s' = s\<lparr>kern := k', umem := write_handle arg4 h (umem s)\<rparr>"
proof -
  from assms obtain p1 path p4 u1 kd where
    p: "user_handle_ptr arg1 = Ok p1" "user_str (umem s) arg2 arg3 = Ok path" "user_handle_ptr arg4 = Ok p4"
    and r: "check_rights (read_handle (umem s) p1) HANDLE_RIGHT_LOOKUP (kern s) = Ok u1"
      "get_kind (read_handle (umem s) p1) (kern s) = Ok kd"
    and rest: "(if kd \<noteq> HDirectory then (Err InvalidArgument, s)
       else ok_then (map_err openat_error (validate_relative_path path)) s (\<lambda>_.
         ok_then (get_path (read_handle (umem s) p1) (kern s)) s (\<lambda>dir_path.
         ok_then (get_rights (read_handle (umem s) p1) (kern s)) s (\<lambda>parent_rights.
         case with_kern (open_path_to_handle m (if dir_path = [] \<or> dir_path = ''/'' then ''/'' @ path else dir_path @ ''/'' @ path) parent_rights) s of (r, s) \<Rightarrow>
         ok_then r s (\<lambda>h. (Ok 0, s\<lparr>umem := write_handle p4 h (umem s)\<rparr>)))))) = (Ok v, s')"
    unfolding sys_openat_def Let_def by (elim ok_thenE)
  from p have "p1 = arg1" "p4 = arg4" by (auto dest: access_Ok_iff(5))
  moreover from r obtain dir where d: "get_entry (handles (kern s)) (read_handle (umem s) p1) = Ok dir"
      "he_rights dir AND HANDLE_RIGHT_LOOKUP = HANDLE_RIGHT_LOOKUP" "kd = he_kind dir"
    by (auto simp: access_Ok_iff)
  moreover from rest have kd: "kd = HDirectory" by (auto split: if_splits)
  moreover from rest kd have "is_Ok (validate_relative_path path)"
    by (cases "validate_relative_path path") auto
  moreover from rest kd d obtain h k' where
    "open_path_to_handle m (if he_path dir = [] \<or> he_path dir = ''/'' then ''/'' @ path else he_path dir @ ''/'' @ path)
       (he_rights dir) (kern s) = (Ok h, k')" "s' = s\<lparr>kern := k', umem := write_handle p4 h (umem s)\<rparr>"
    by (auto simp: ok_then_Ok_iff access_Ok_iff with_kern_write)
  ultimately show thesis using p(2) that by blast
qed


text \<open>A process that holds a writable directory handle on \<^verbatim>\<open>/d\<close> opens \<^verbatim>\<open>a\<close>: the handle is at address 8, the path at 24.\<close>

definition demo_machine :: "'s \<Rightarrow> 's machine" where
  "demo_machine st = \<lparr>kern = snd (create_directory_handle ''/d'' 0xE2 (empty_kernel st)),
     umem = write_handle 8 \<lparr>hid = 0, htoken = 0x9E3779B97F4A7C15\<rparr> (\<lambda>_. 97)\<rparr>"

lemma demo_machine_kern:
  "kern (demo_machine st) = \<lparr>handles = [Some (new_entry 0x9E3779B97F4A7C15 0xE2 HDirectory ''/d'' [] 0 None)], token_counter = 2,
     pipes = [], fs_store = st\<rparr>"
  by (simp add: demo_machine_def create_directory_handle_def next_token_def insert_entry_def slot_insert_def empty_kernel_def)

lemma demo_machine_mem:
  "read_handle (umem (demo_machine st)) 8 = \<lparr>hid = 0, htoken = 0x9E3779B97F4A7C15\<rparr>" "umem (demo_machine st) 24 = 97"
  by (simp add: demo_machine_def) (simp add: demo_machine_def write_handle_def store_bytes_apply)

lemma demo_machine_str: "user_str (umem (demo_machine st)) 24 1 = Ok ''a''"
proof -
  have "char_of (97 :: nat) = CHR ''a''" by code_simp
  then show ?thesis
    by (simp add: user_str_def user_slice_from_args_def user_slice_from_raw_def cmul_def cadd_def USER_SPACE_START_def
        USER_SPACE_END_def as_slice_def demo_machine_mem from_utf8_def string_of_bytes_def)
qed

lemma demo_machine_ptr: "user_handle_ptr 8 = Ok 8" "user_handle_ptr 32 = Ok 32"
  by (simp_all add: user_handle_ptr_def user_ptr_from_raw_def USER_SPACE_START_def USER_SPACE_END_def)

lemmas demo_machine_facts = demo_machine_kern demo_machine_mem(1) demo_machine_str demo_machine_ptr


section \<open>Authority over directory entries\<close>

text \<open>The caller's first argument is a directory handle with the required right, and \<open>target\<close> names an entry right in it.\<close>

definition authorised_child :: "'s machine \<Rightarrow> u64 \<Rightarrow> u32 \<Rightarrow> u64 \<Rightarrow> u64 \<Rightarrow> string \<Rightarrow> bool" where
  "authorised_child s arg1 required arg2 arg3 target \<longleftrightarrow>
     (\<exists>dir name. get_entry (handles (kern s)) (read_handle (umem s) arg1) = Ok dir \<and> he_kind dir = HDirectory \<and>
        he_rights dir AND required = required \<and> user_str (umem s) arg2 arg3 = Ok name \<and> good_component name \<and>
        path_components target = path_components (he_path dir) @ [name])"

lemma validate_entry_name_Ok: "validate_entry_name name = Ok u \<Longrightarrow> good_component name"
  by (auto simp: validate_entry_name_def good_component_def split: if_splits)

lemma path_components_single: "good_component name \<Longrightarrow> path_components name = [name]"
  by (auto simp: path_components_def good_component_def split_on_single)

lemma child_target_Ok:
  assumes "child_target (read_handle (umem s) p1) required name s = Ok target" and "user_handle_ptr arg1 = Ok p1"
    and "user_str (umem s) arg2 arg3 = Ok name"
  shows "authorised_child s arg1 required arg2 arg3 target"
proof -
  from assms(2) have "p1 = arg1" by (rule access_Ok_iff(5))
  with assms(1) obtain dir u where d: "get_entry (handles (kern s)) (read_handle (umem s) arg1) = Ok dir"
      "he_kind dir = HDirectory" "he_rights dir AND required = required" "validate_entry_name name = Ok u"
      "target = build_child_path (he_path dir) name"
    by (auto simp: child_target_def res_bind_Ok_iff access_Ok_iff split: if_splits)
  then have g: "good_component name" by (simp add: validate_entry_name_Ok)
  have "path_components target = path_components (he_path dir) @ path_components name"
    using d(5) unfolding build_child_path_def by (rule path_components_child)
  then show ?thesis
    unfolding authorised_child_def using d assms(3) g by (auto simp: path_components_single)
qed

lemma ok_then_store:
  assumes "ok_then r s f = (q, s')" and "fs_store (kern s') \<noteq> fs_store (kern s)"
  obtains a where "r = Ok a" "f a = (q, s')"
  using assms by (cases r) auto

lemma ok_then_same_state: "snd (ok_then r s (\<lambda>a. (g a, s))) = s"
  by (cases r) auto

lemma unlink_authorised:
  assumes "sys_handle_unlink m arg1 arg2 arg3 s = (q, s')" and "fs_store (kern s') \<noteq> fs_store (kern s)"
  shows "\<exists>t. authorised_child s arg1 HANDLE_RIGHT_DELETE arg2 arg3 t \<and>
    (let st = snd (vfs_delete_file m t (fs_store (kern s))) in fs_store (kern s') \<in> {st, snd (vfs_delete_dir m t st)})"
proof -
  from assms obtain p1 name t where p: "user_handle_ptr arg1 = Ok p1" "user_str (umem s) arg2 arg3 = Ok name"
      "child_target (read_handle (umem s) p1) HANDLE_RIGHT_DELETE name s = Ok t"
    and b: "(case vfs_delete_file m t (fs_store (kern s)) of (r1, st1) \<Rightarrow>
       case r1 of Ok _ \<Rightarrow> (Ok 0, s\<lparr>kern := (kern s)\<lparr>fs_store := st1\<rparr>\<rparr>)
        | Err _ \<Rightarrow> (case vfs_delete_dir m t st1 of (r2, st2) \<Rightarrow>
             ok_then (map_err vfs_error_to_syscall r2) (s\<lparr>kern := (kern s)\<lparr>fs_store := st2\<rparr>\<rparr>)
               (\<lambda>_. (Ok 0, s\<lparr>kern := (kern s)\<lparr>fs_store := st2\<rparr>\<rparr>)))
        | Panic \<Rightarrow> (Panic, s\<lparr>kern := (kern s)\<lparr>fs_store := st1\<rparr>\<rparr>)) = (q, s')"
    unfolding sys_handle_unlink_def Let_def by (elim ok_then_store) blast+
  have "ok_then (map_err vfs_error_to_syscall r) x (\<lambda>_. (Ok 0, x)) = (q, s') \<Longrightarrow> s' = x" for r x
    by (cases r) auto
  with b have "let st = snd (vfs_delete_file m t (fs_store (kern s))) in fs_store (kern s') \<in> {st, snd (vfs_delete_dir m t st)}"
    by (fastforce split: prod.splits res.splits)
  with child_target_Ok [OF p(3,1,2)] show ?thesis by blast
qed

lemma mkdir_authorised:
  assumes "sys_handle_mkdir m arg1 arg2 arg3 s = (q, s')" and "fs_store (kern s') \<noteq> fs_store (kern s)"
  shows "\<exists>t. authorised_child s arg1 HANDLE_RIGHT_CREATE arg2 arg3 t \<and>
    fs_store (kern s') = snd (vfs_create_dir m t (fs_store (kern s)))"
proof -
  from assms obtain p1 name t where p: "user_handle_ptr arg1 = Ok p1" "user_str (umem s) arg2 arg3 = Ok name"
      "child_target (read_handle (umem s) p1) HANDLE_RIGHT_CREATE name s = Ok t"
    and b: "(case vfs_create_dir m t (fs_store (kern s)) of (r, st) \<Rightarrow>
       ok_then (map_err vfs_error_to_syscall r) (s\<lparr>kern := (kern s)\<lparr>fs_store := st\<rparr>\<rparr>)
         (\<lambda>_. (Ok 0, s\<lparr>kern := (kern s)\<lparr>fs_store := st\<rparr>\<rparr>))) = (q, s')"
    unfolding sys_handle_mkdir_def Let_def by (elim ok_then_store) blast+
  have "ok_then (map_err vfs_error_to_syscall r) x (\<lambda>_. (Ok 0, x)) = (q, s') \<Longrightarrow> s' = x" for r x
    by (cases r) auto
  with b have "fs_store (kern s') = snd (vfs_create_dir m t (fs_store (kern s)))"
    by (fastforce split: prod.splits)
  with child_target_Ok [OF p(3,1,2)] show ?thesis by blast
qed

lemma create_file_authorised:
  assumes "sys_handle_create_file m arg1 arg2 arg3 arg4 s = (q, s')" and "fs_store (kern s') \<noteq> fs_store (kern s)"
  shows "\<exists>t. authorised_child s arg1 HANDLE_RIGHT_CREATE arg2 arg3 t \<and>
    (let st = snd (vfs_delete_file m t (fs_store (kern s))) in fs_store (kern s') \<in> {st, snd (vfs_create_file m t [] st)})"
proof -
  from assms obtain p1 name p4 t where p: "user_handle_ptr arg1 = Ok p1" "user_str (umem s) arg2 arg3 = Ok name"
      "child_target (read_handle (umem s) p1) HANDLE_RIGHT_CREATE name s = Ok t"
    and b: "(case vfs_delete_file m t (fs_store (kern s)) of (r1, st1) \<Rightarrow>
       if is_Panic r1 then (Panic, s\<lparr>kern := (kern s)\<lparr>fs_store := st1\<rparr>\<rparr>)
       else case vfs_create_file m t [] st1 of (r2, st2) \<Rightarrow>
         ok_then (map_err vfs_error_to_syscall r2) (s\<lparr>kern := (kern s)\<lparr>fs_store := st2\<rparr>\<rparr>) (\<lambda>_.
           case create_handle_with_path [] HANDLE_RIGHTS_FILE_RW t (kern (s\<lparr>kern := (kern s)\<lparr>fs_store := st2\<rparr>\<rparr>)) of (h, k) \<Rightarrow>
             (Ok 0, s\<lparr>kern := (kern s)\<lparr>fs_store := st2\<rparr>\<rparr>\<lparr>kern := k, umem := write_handle p4 h (umem (s\<lparr>kern := (kern s)\<lparr>fs_store := st2\<rparr>\<rparr>))\<rparr>))) = (q, s')"
    unfolding sys_handle_create_file_def Let_def by (elim ok_then_store) blast+
  obtain r1 st1 where d: "vfs_delete_file m t (fs_store (kern s)) = (r1, st1)" by force
  obtain r2 st2 where c: "vfs_create_file m t [] st1 = (r2, st2)" by force
  have st: "fs_store (snd (create_handle_with_path d r p k)) = fs_store k" for d r p and k :: "'a kernel"
    by (simp add: create_handle_with_path_def next_token_def insert_entry_def split: prod.splits)
  from b d c have "fs_store (kern s') \<in> {st1, st2}"
    using st [of "[]" HANDLE_RIGHTS_FILE_RW t "(kern s)\<lparr>fs_store := st2\<rparr>"]
    by (cases r2) (auto split: if_splits prod.splits)
  with child_target_Ok [OF p(3,1,2)] d c show ?thesis by (auto simp: Let_def)
qed

text \<open>
  C19: a directory handle gives authority over the entries of its directory and nothing else. If \<open>sys_handle_unlink\<close>,
  \<open>sys_handle_mkdir\<close> or \<open>sys_handle_create_file\<close> changes any file system, whether the call succeeds or fails, then the handle passed
  is a live directory handle with the delete or create right, the name is one ordinary path component, and
  the change is the one the VFS makes for the path of that entry in that directory.
\<close>

theorem directory_calls_confined:
  "(fs_store (kern (snd (sys_handle_unlink m arg1 arg2 arg3 s))) \<noteq> fs_store (kern s) \<longrightarrow>
     (\<exists>t. authorised_child s arg1 HANDLE_RIGHT_DELETE arg2 arg3 t \<and>
       (let st = snd (vfs_delete_file m t (fs_store (kern s))) in
        fs_store (kern (snd (sys_handle_unlink m arg1 arg2 arg3 s))) \<in> {st, snd (vfs_delete_dir m t st)}))) \<and>
   (fs_store (kern (snd (sys_handle_mkdir m arg1 arg2 arg3 s))) \<noteq> fs_store (kern s) \<longrightarrow>
     (\<exists>t. authorised_child s arg1 HANDLE_RIGHT_CREATE arg2 arg3 t \<and>
       fs_store (kern (snd (sys_handle_mkdir m arg1 arg2 arg3 s))) = snd (vfs_create_dir m t (fs_store (kern s))))) \<and>
   (fs_store (kern (snd (sys_handle_create_file m arg1 arg2 arg3 arg4 s))) \<noteq> fs_store (kern s) \<longrightarrow>
     (\<exists>t. authorised_child s arg1 HANDLE_RIGHT_CREATE arg2 arg3 t \<and>
       (let st = snd (vfs_delete_file m t (fs_store (kern s))) in
        fs_store (kern (snd (sys_handle_create_file m arg1 arg2 arg3 arg4 s))) \<in> {st, snd (vfs_create_file m t [] st)})))"
  using unlink_authorised [OF prod.collapse [symmetric]] mkdir_authorised [OF prod.collapse [symmetric]]
    create_file_authorised [OF prod.collapse [symmetric]] by (intro conjI impI)

text \<open>A file system whose only operation is to make a directory, which sets its one-bit store.\<close>

definition flag_fs :: "bool file_system" where
  "flag_fs = \<lparr>fs_open = \<lambda>_ _. Err NotFound, fs_list_dir = \<lambda>_ _. Ok [], fs_create_file = default_create_file,
     fs_delete_file = default_delete, fs_create_dir = \<lambda>_ _. (Ok (), True), fs_delete_dir = default_delete,
     fs_read_file = \<lambda>_ _. Err NotFound\<rparr>"

lemma directory_calls_confined_witness:
  "\<exists>t. authorised_child (demo_machine False) 8 HANDLE_RIGHT_CREATE 24 1 t \<and>
     True = snd (vfs_create_dir [(''/'', flag_fs)] t False)"
proof -
  have "fs_store (kern (snd (sys_handle_mkdir [(''/'', flag_fs)] 8 24 1 (demo_machine False)))) = True"
    by (simp add: sys_handle_mkdir_def demo_machine_facts child_target_def check_rights_def get_entry_def get_kind_def get_path_def
        new_entry_def rights_defs validate_entry_name_def build_child_path_def vfs_create_dir_def vfs_update_def
        normalize_path_def vfs_route_def resolve_def mount_matches_def str_from_def flag_fs_def Let_def)
  moreover have "fs_store (kern (demo_machine False)) = False" by (simp add: demo_machine_facts)
  ultimately show ?thesis
    using directory_calls_confined [where m = "[(''/'', flag_fs)]" and s = "demo_machine False" and ?arg1.0 = 8 and ?arg2.0 = 24
      and ?arg3.0 = 1] by simp
qed

section \<open>Listings\<close>

definition entry_line :: "VfsDirEntry \<Rightarrow> bytes" where
  "entry_line e = bytes_of_string (de_name e) @ (if de_kind e = Directory then [0x2F] else []) @ [0x0A]"

lemma list_update_blit: "i < length xs \<Longrightarrow> xs[i := v] = blit i [v] xs"
  by (simp add: blit_def upd_conv_take_nth_drop)

lemma blit_blit: "off + length a + length b \<le> length xs \<Longrightarrow> blit (off + length a) b (blit off a xs) = blit off (a @ b) xs"
  by (simp add: blit_def ac_simps)

lemma copy_entries_step:
  "copy_entries ubuf offset (entry # entries) =
     (if offset + length (entry_line entry) > length ubuf then (ubuf, offset)
      else copy_entries (blit offset (entry_line entry) ubuf) (offset + length (entry_line entry)) entries)"
proof (cases "offset + length (entry_line entry) > length ubuf")
  case True
  then show ?thesis by (auto simp: entry_line_def Let_def)
next
  case False
  let ?n = "bytes_of_string (de_name entry)"
  have len: "length (blit offset ?n ubuf) = length ubuf" using False by (auto simp: entry_line_def split: if_splits)
  show ?thesis
  proof (cases "de_kind entry = Directory")
    case True
    with False have fit: "offset + length ?n + 2 \<le> length ubuf" by (simp add: entry_line_def)
    have "(blit offset ?n ubuf)[offset + length ?n := 0x2F] = blit offset (?n @ [0x2F]) ubuf"
      using fit len blit_blit [of offset ?n "[0x2F]" ubuf] by (simp add: list_update_blit)
    moreover have "(blit offset (?n @ [0x2F]) ubuf)[offset + length ?n + 1 := 0x0A] = blit offset (?n @ [0x2F] @ [0x0A]) ubuf"
      using fit blit_blit [of offset "?n @ [0x2F]" "[0x0A]" ubuf] by (simp add: list_update_blit)
    ultimately show ?thesis using True False fit by (simp add: entry_line_def Let_def add.assoc)
  next
    case nd: False
    with False have fit: "offset + length ?n + 1 \<le> length ubuf" by (simp add: entry_line_def)
    have "(blit offset ?n ubuf)[offset + length ?n := 0x0A] = blit offset (?n @ [0x0A]) ubuf"
      using fit len blit_blit [of offset ?n "[0x0A]" ubuf] by (simp add: list_update_blit)
    then show ?thesis using nd False fit by (simp add: entry_line_def Let_def)
  qed
qed

lemma copy_entries_spec:
  assumes "offset \<le> length ubuf"
  shows "\<exists>n\<le>length es. let t = concat (map entry_line (take n es)) in
     copy_entries ubuf offset es = (blit offset t ubuf, offset + length t) \<and> offset + length t \<le> length ubuf \<and>
     (n < length es \<longrightarrow> length ubuf < offset + length t + length (entry_line (es ! n)))"
  using assms
proof (induction es arbitrary: ubuf offset)
  case Nil
  then show ?case by (simp add: blit_def Let_def)
next
  case (Cons e es)
  let ?l = "entry_line e"
  show ?case
  proof (cases "offset + length ?l > length ubuf")
    case True
    then have "copy_entries ubuf offset (e # es) = (ubuf, offset)" by (simp only: copy_entries_step if_True)
    with True Cons.prems show ?thesis by (intro exI [of _ 0]) (simp add: blit_def)
  next
    case False
    then have c: "copy_entries ubuf offset (e # es) = copy_entries (blit offset ?l ubuf) (offset + length ?l) es"
      by (simp only: copy_entries_step if_False)
    have "offset + length ?l \<le> length (blit offset ?l ubuf)" using False by simp
    from Cons.IH [OF this] obtain n where n: "n \<le> length es"
      and r: "copy_entries (blit offset ?l ubuf) (offset + length ?l) es =
          (blit (offset + length ?l) (concat (map entry_line (take n es))) (blit offset ?l ubuf),
           offset + length ?l + length (concat (map entry_line (take n es))))"
      and b: "offset + length ?l + length (concat (map entry_line (take n es))) \<le> length ubuf"
        "n < length es \<longrightarrow> length ubuf < offset + length ?l + length (concat (map entry_line (take n es))) + length (entry_line (es ! n))"
      using False by (auto simp: Let_def)
    show ?thesis
    proof (intro exI [of _ "Suc n"] conjI)
      show "Suc n \<le> length (e # es)" using n by simp
      show "let t = concat (map entry_line (take (Suc n) (e # es))) in
         copy_entries ubuf offset (e # es) = (blit offset t ubuf, offset + length t) \<and> offset + length t \<le> length ubuf \<and>
         (Suc n < length (e # es) \<longrightarrow> length ubuf < offset + length t + length (entry_line ((e # es) ! Suc n)))"
        using c r b blit_blit [of offset ?l "concat (map entry_line (take n es))" ubuf] by (simp add: Let_def add.assoc)
    qed
  qed
qed

declare copy_entries.simps(2) [simp del]

text \<open>
  C20: a directory listing is cut only between entries. \<open>list_dir_to_buffer\<close> fills the buffer with the lines of the first
  \<open>n\<close> entries the VFS lists, each the name, a slash for a directory and a newline, reports exactly their length, leaves the rest
  of the buffer alone, never runs past its end, and stops before the end of the list only when the next line does not fit.
\<close>

theorem listing_whole_lines:
  assumes "vfs_list_dir m path (fs_store k) = Ok es"
  shows "\<exists>n\<le>length es. let t = concat (map entry_line (take n es)) in
     list_dir_to_buffer m path ubuf k = Ok (t @ drop (length t) ubuf, length t) \<and> length t \<le> length ubuf \<and>
     (n < length es \<longrightarrow> length ubuf < length t + length (entry_line (es ! n)))"
  using copy_entries_spec [of 0 ubuf es] assms by (simp add: list_dir_to_buffer_def blit_def)

lemma listing_whole_lines_witness:
  "\<exists>n\<le>1. let t = concat (map entry_line (take n [\<lparr>de_name = ''proc'', de_kind = Directory, de_size = 0\<rparr>])) in
     list_dir_to_buffer (vfs_init null_fs null_fs None None None None) ''/'' [1, 2, 3, 4, 5, 6, 7] (empty_kernel ()) =
       Ok (t @ drop (length t) [1, 2, 3, 4, 5, 6, 7], length t)"
proof -
  have "vfs_list_dir (vfs_init null_fs null_fs None None None None) ''/'' (fs_store (empty_kernel ())) =
      Ok [\<lparr>de_name = ''proc'', de_kind = Directory, de_size = 0\<rparr>]"
    by code_simp
  from listing_whole_lines [OF this, of "[1, 2, 3, 4, 5, 6, 7]"] show ?thesis by (auto simp: Let_def)
qed

section \<open>Limits of the checks\<close>

text \<open>
  \<^verbatim>\<open>UserPtr::from_raw\<close> checks the first byte only: a 16-byte \<^verbatim>\<open>Handle\<close> at the last aligned address of user space is accepted
  although its token lies beyond the end.
\<close>

lemma user_ptr_ignores_size:
  "user_handle_ptr 0x7FFFFFFFFFF8 = Ok 0x7FFFFFFFFFF8 \<and> (0x7FFFFFFFFFF8 :: u64) + 15 > USER_SPACE_END"
  by (simp add: user_handle_ptr_def user_ptr_from_raw_def USER_SPACE_START_def USER_SPACE_END_def)

text \<open>
  The write check for \<^verbatim>\<open>/proc\<close> compares plain prefixes: an ordinary file whose name begins with \<^verbatim>\<open>proc\<close> in the root directory
  is treated as part of procfs and cannot be opened for writing, although the mount table routes it to the root file system.
\<close>

lemma proc_prefix_refused:
  "open_path_to_handle m ''/process.txt'' HANDLE_RIGHTS_FILE_RW k = (Err SyscallError.ReadOnly, k)"
  by (simp add: open_path_to_handle_def normalize_path_def starts_with_def rights_defs Let_def)

end
