(* ===== verification/Scheduler.thy ===== *)
theory Scheduler
  imports Handle
begin

text \<open>
  \<^verbatim>\<open>kernel/src/scheduler.rs\<close>: the task table, round-robin selection, sleeping and waking, process and thread creation,
  waiting for children and threads, environment variables. A task's stack contents, the assembly context
  switch and the saved user-mode registers are not modelled: switching is the change of \<^verbatim>\<open>current\<close> and of the task states. A
  user process is represented by the frame of its page table; the ELF loader's result is an argument.
\<close>

section \<open>State\<close>

datatype TaskState = Ready | Running | Sleeping u64 | Finished

record Task =
  tid :: u64
  tname :: string
  tstate :: TaskState
  tstack :: bool
  tcr3 :: "u64 option"
  tproc :: "u64 option"
  tuser :: bool
  tparent :: "u64 option"
  texit_code :: int
  treaped :: bool
  tenv :: "(string \<times> string) list"
  tleader :: "u64 option"
  tstdin :: "Handle option"
  tstdout :: "Handle option"

record ThreadEntryInfo =
  te_entry :: u64
  te_arg :: u64
  te_stack_top :: u64

record sched =
  tasks :: "Task list"
  current :: nat
  next_id :: u64
  thread_infos :: "(u64 \<times> ThreadEntryInfo) list"

definition set_state :: "TaskState \<Rightarrow> nat \<Rightarrow> sched \<Rightarrow> sched" where
  "set_state st i s = s\<lparr>tasks := (tasks s)[i := (tasks s ! i)\<lparr>tstate := st\<rparr>]\<rparr>"

abbreviation cur_task :: "sched \<Rightarrow> Task" where
  "cur_task s \<equiv> tasks s ! current s"

section \<open>Creation\<close>

definition kernel_task :: "u64 \<Rightarrow> string \<Rightarrow> TaskState \<Rightarrow> bool \<Rightarrow> Task" where
  "kernel_task i name st stack =
     \<lparr>tid = i, tname = name, tstate = st, tstack = stack, tcr3 = None, tproc = None, tuser = False, tparent = None,
      texit_code = 0, treaped = False, tenv = [], tleader = None, tstdin = None, tstdout = None\<rparr>"

definition empty_sched :: sched where
  "empty_sched = \<lparr>tasks = [], current = 0, next_id = 0, thread_infos = []\<rparr>"

definition sched_init :: "sched \<Rightarrow> sched" where
  "sched_init s = s\<lparr>next_id := next_id s + 1, tasks := tasks s @ [kernel_task (next_id s) ''kernel'' Running False], current := 0\<rparr>"

text \<open>\<^verbatim>\<open>sched.next_id += 1\<close> is a checked addition.\<close>

definition push_task :: "(u64 \<Rightarrow> Task) \<Rightarrow> sched \<Rightarrow> (string, u64) res \<times> sched" where
  "push_task mk s =
     (case cadd (next_id s) 1 of
        None \<Rightarrow> (Panic, s)
      | Some n \<Rightarrow> (Ok (next_id s), s\<lparr>next_id := n, tasks := tasks s @ [mk (next_id s)]\<rparr>))"

definition spawn :: "string \<Rightarrow> sched \<Rightarrow> (string, u64) res \<times> sched" where
  "spawn name s = push_task (\<lambda>i. kernel_task i name Ready True) s"

text \<open>\<open>proc\<close> is what \<^verbatim>\<open>create_elf_process\<close> returned: the page table frame of the new process.\<close>

definition spawn_user :: "string \<Rightarrow> (string, u64) res \<Rightarrow> sched \<Rightarrow> (string, u64) res \<times> sched" where
  "spawn_user name proc s =
     (let parent_env_vars = (if tasks s = [] then [] else tenv (cur_task s)) in
      ok_then proc s (\<lambda>frame.
        let parent_id = (if tasks s = [] then None else Some (tid (cur_task s))) in
        push_task (\<lambda>i. \<lparr>tid = i, tname = name, tstate = Ready, tstack = True, tcr3 = Some frame, tproc = Some frame, tuser = True,
          tparent = parent_id, texit_code = 0, treaped = False, tenv = parent_env_vars, tleader = None, tstdin = None, tstdout = None\<rparr>) s))"

fun set_handles :: "u64 \<Rightarrow> Handle option \<Rightarrow> Handle option \<Rightarrow> Task list \<Rightarrow> Task list" where
  "set_handles i hin hout [] = []"
| "set_handles i hin hout (t # ts) =
     (if tid t = i then t\<lparr>tstdin := hin, tstdout := hout\<rparr> # ts else t # set_handles i hin hout ts)"

definition spawn_user_redirected :: "string \<Rightarrow> (string, u64) res \<Rightarrow> Handle option \<Rightarrow> Handle option \<Rightarrow> sched \<Rightarrow> (string, u64) res \<times> sched" where
  "spawn_user_redirected name proc hin hout s =
     (case spawn_user name proc s of (r, s) \<Rightarrow>
      ok_then r s (\<lambda>i. (Ok i, if hin \<noteq> None \<or> hout \<noteq> None then s\<lparr>tasks := set_handles i hin hout (tasks s)\<rparr> else s)))"

text \<open>\<open>num\<close> prints a number (\<^verbatim>\<open>format!\<close>).\<close>

definition spawn_thread :: "(u64 \<Rightarrow> string) \<Rightarrow> u64 \<Rightarrow> u64 \<Rightarrow> u64 \<Rightarrow> sched \<Rightarrow> (string, u64) res \<times> sched" where
  "spawn_thread num entry_point user_stack_top arg s =
     (case tcr3 (cur_task s) of
        None \<Rightarrow> (Err ''only user processes can create threads'', s)
      | Some cr3 \<Rightarrow>
          let me = cur_task s; leader_id = (case tleader me of Some l \<Rightarrow> l | None \<Rightarrow> tid me) in
          (case push_task (\<lambda>i. \<lparr>tid = i, tname = ''thread-'' @ num i, tstate = Ready, tstack = True, tcr3 = Some cr3, tproc = None,
                tuser = True, tparent = Some (tid me), texit_code = 0, treaped = False, tenv = tenv me,
                tleader = Some leader_id, tstdin = tstdin me, tstdout = tstdout me\<rparr>) s of (r, s) \<Rightarrow>
           ok_then r s (\<lambda>i. (Ok i, s\<lparr>thread_infos := thread_infos s @
             [(i, \<lparr>te_entry = entry_point, te_arg = arg, te_stack_top = user_stack_top\<rparr>)]\<rparr>))))"

text \<open>The part of \<^verbatim>\<open>thread_entry_wrapper\<close> that takes the thread's start values out of the table.\<close>

definition take_thread_info :: "u64 \<Rightarrow> sched \<Rightarrow> ThreadEntryInfo option \<times> sched" where
  "take_thread_info i s =
     (case position (\<lambda>p. fst p = i) (thread_infos s) of
        Some n \<Rightarrow> (Some (snd (thread_infos s ! n)), s\<lparr>thread_infos := remove_nth n (thread_infos s)\<rparr>)
      | None \<Rightarrow> (None, s))"

section \<open>Switching\<close>

text \<open>The search for the next \<^verbatim>\<open>Ready\<close> task, from the one after the current and once around.\<close>

definition next_ready :: "sched \<Rightarrow> nat option" where
  "next_ready s =
     (let n = length (tasks s) in
      find (\<lambda>idx. tstate (tasks s ! idx) = Ready) (map (\<lambda>i. (current s + i) mod n) [1..<n + 1]))"

definition switch_to :: "nat \<Rightarrow> sched \<Rightarrow> sched" where
  "switch_to next_idx s =
     (let s = (if tstate (cur_task s) = Running then set_state Ready (current s) s else s) in
      (set_state Running next_idx s)\<lparr>current := next_idx\<rparr>)"

text \<open>\<^verbatim>\<open>Idle\<close>: no task to switch to; the caller itself continues after the next interrupt.\<close>

datatype yield_result = Switched nat | Idle

definition yield_now :: "sched \<Rightarrow> yield_result \<times> sched" where
  "yield_now s = (case next_ready s of None \<Rightarrow> (Idle, s) | Some next_idx \<Rightarrow> (Switched next_idx, switch_to next_idx s))"

definition wake_sleepers :: "u64 \<Rightarrow> sched \<Rightarrow> sched" where
  "wake_sleepers now s =
     s\<lparr>tasks := map (\<lambda>t. case tstate t of Sleeping wake_at \<Rightarrow> if now \<ge> wake_at then t\<lparr>tstate := Ready\<rparr> else t | _ \<Rightarrow> t) (tasks s)\<rparr>"

text \<open>\<open>free\<close>: the scheduler lock could be taken.\<close>

definition preempt :: "bool \<Rightarrow> u64 \<Rightarrow> sched \<Rightarrow> sched" where
  "preempt free now s =
     (if \<not> free then s
      else
        let s = wake_sleepers now s in
        if length (tasks s) \<le> 1 then s
        else case next_ready s of None \<Rightarrow> s | Some next_idx \<Rightarrow> switch_to next_idx s)"

section \<open>Sleeping and waking\<close>

definition set_current_sleeping :: "u64 \<Rightarrow> sched \<Rightarrow> sched" where
  "set_current_sleeping wake_at s = set_state (Sleeping wake_at) (current s) s"

definition is_sleeping :: "TaskState \<Rightarrow> bool" where
  "is_sleeping st = (case st of Sleeping _ \<Rightarrow> True | _ \<Rightarrow> False)"

definition wake_task :: "u64 \<Rightarrow> sched \<Rightarrow> sched" where
  "wake_task task_id s =
     (case position (\<lambda>t. tid t = task_id) (tasks s) of
        Some i \<Rightarrow> if is_sleeping (tstate (tasks s ! i)) then set_state Ready i s else s
      | None \<Rightarrow> s)"

text \<open>\<^verbatim>\<open>TIMER_TICK_COUNT + ticks\<close> and \<^verbatim>\<open>ms * 182\<close> are checked.\<close>

definition sleep_ticks :: "u64 \<Rightarrow> u64 \<Rightarrow> sched \<Rightarrow> (SyscallError, yield_result) res \<times> sched" where
  "sleep_ticks now ticks s =
     ok_then (or_panic (cadd now ticks)) s (\<lambda>wake_at.
       case yield_now (set_current_sleeping wake_at s) of (y, s) \<Rightarrow> (Ok y, s))"

definition ms_to_ticks :: "u64 \<Rightarrow> u64 option" where
  "ms_to_ticks ms = map_option (\<lambda>p. max (p div 10000) 1) (cmul ms 182)"

definition sleep_ms :: "u64 \<Rightarrow> u64 \<Rightarrow> sched \<Rightarrow> (SyscallError, yield_result) res \<times> sched" where
  "sleep_ms now ms s = ok_then (or_panic (ms_to_ticks ms)) s (\<lambda>ticks. sleep_ticks now ticks s)"

section \<open>Queries\<close>

definition has_ready_tasks :: "sched \<Rightarrow> bool" where
  "has_ready_tasks s = (\<exists>t\<in>set (tasks s). tstate t = Ready \<or> is_sleeping (tstate t))"

definition current_task_id :: "sched \<Rightarrow> u64" where
  "current_task_id s = tid (cur_task s)"

definition current_task_cr3 :: "u64 \<Rightarrow> sched \<Rightarrow> u64" where
  "current_task_cr3 kernel_cr3 s = (case tcr3 (cur_task s) of Some f \<Rightarrow> f | None \<Rightarrow> kernel_cr3)"

definition task_exists :: "u64 \<Rightarrow> sched \<Rightarrow> bool" where
  "task_exists task_id s = (\<exists>t\<in>set (tasks s). tid t = task_id \<and> tstate t \<noteq> Finished)"

definition find_task_id_by_name :: "string \<Rightarrow> sched \<Rightarrow> u64 option" where
  "find_task_id_by_name name s = map_option tid (find (\<lambda>t. tname t = name \<and> tstate t \<noteq> Finished) (tasks s))"

section \<open>Environment variables\<close>

definition get_env_var :: "string \<Rightarrow> sched \<Rightarrow> string option" where
  "get_env_var key s = map_option snd (find (\<lambda>p. fst p = key) (tenv (cur_task s)))"

definition list_env_vars :: "sched \<Rightarrow> string" where
  "list_env_vars s = concat (map (\<lambda>(k, v). k @ ''='' @ v @ [CHR 0x0A]) (tenv (cur_task s)))"

fun env_set :: "string \<Rightarrow> string \<Rightarrow> (string \<times> string) list \<Rightarrow> (string \<times> string) list" where
  "env_set key val [] = [(key, val)]"
| "env_set key val ((k, v) # rest) = (if k = key then (k, val) # rest else (k, v) # env_set key val rest)"

definition set_env_var :: "string \<Rightarrow> string \<Rightarrow> sched \<Rightarrow> sched" where
  "set_env_var key val s =
     s\<lparr>tasks := (tasks s)[current s := (cur_task s)\<lparr>tenv := env_set key val (tenv (cur_task s))\<rparr>]\<rparr>"

section \<open>Waiting\<close>

datatype WaitError = NoChild | NotChild | WTimeout

text \<open>One pass of the waiting loops over the task table: a result, or \<open>None\<close> to go on waiting.\<close>

definition reap :: "nat \<Rightarrow> sched \<Rightarrow> sched" where
  "reap i s = s\<lparr>tasks := (tasks s)[i := (tasks s ! i)\<lparr>treaped := True, tstack := False, tenv := []\<rparr>]\<rparr>"

definition wait_scan :: "u64 \<Rightarrow> u64 \<Rightarrow> sched \<Rightarrow> (WaitError, u64 \<times> int) res option \<times> sched" where
  "wait_scan my_id target s =
     (case position (\<lambda>t. tparent t = Some my_id \<and> tstate t = Finished \<and> \<not> treaped t \<and> (target = 0 \<or> tid t = target)) (tasks s) of
        Some idx \<Rightarrow> (Some (Ok (tid (tasks s ! idx), texit_code (tasks s ! idx))), reap idx s)
      | None \<Rightarrow>
          if target > 0 then
            (case find (\<lambda>t. tid t = target) (tasks s) of
               None \<Rightarrow> (Some (Err NoChild), s)
             | Some t \<Rightarrow>
                 if tparent t \<noteq> Some my_id then (Some (Err NotChild), s)
                 else if tstate t = Finished \<and> treaped t then (Some (Err NoChild), s)
                 else (None, s))
          else if \<exists>t\<in>set (tasks s). tparent t = Some my_id \<and> \<not> (tstate t = Finished \<and> treaped t) then (None, s)
          else (Some (Err NoChild), s))"

definition thread_scan :: "u64 \<Rightarrow> u64 \<Rightarrow> sched \<Rightarrow> (WaitError, int) res option \<times> sched" where
  "thread_scan my_id thread_id s =
     (case find (\<lambda>t. tid t = my_id) (tasks s) of
        None \<Rightarrow> (Some (Err NoChild), s)
      | Some me \<Rightarrow>
          let my_leader = (case tleader me of Some l \<Rightarrow> l | None \<Rightarrow> tid me) in
          (case position (\<lambda>t. tid t = thread_id) (tasks s) of
             None \<Rightarrow> (Some (Err NoChild), s)
           | Some idx \<Rightarrow>
               let t = tasks s ! idx in
               if tleader t \<noteq> Some my_leader then (Some (Err NotChild), s)
               else if tstate t = Finished \<and> \<not> treaped t then (Some (Ok (texit_code t)), reap idx s)
               else if tstate t = Finished \<and> treaped t then (Some (Err NoChild), s)
               else (None, s)))"

text \<open>The timeout test of the loops: \<^verbatim>\<open>elapsed_ticks * 55\<close> is checked.\<close>

definition wait_expired :: "u64 \<Rightarrow> u64 \<Rightarrow> u64 \<Rightarrow> bool option" where
  "wait_expired start_tick timeout_ms now =
     (if timeout_ms > 0 then map_option (\<lambda>e. e \<ge> timeout_ms) (cmul (saturating_sub now start_tick) 55) else Some False)"

text \<open>
  The loops. \<open>env i\<close> is what happens to the scheduler while the caller has yielded for the \<open>i\<close>-th time and \<open>clock i\<close> the timer
  tick it reads in that round; a wait without end is \<open>None\<close>.
\<close>

partial_function (option) wait_loop ::
  "(nat \<Rightarrow> sched \<Rightarrow> sched) \<Rightarrow> (nat \<Rightarrow> u64) \<Rightarrow> (sched \<Rightarrow> (WaitError, 'a) res option \<times> sched) \<Rightarrow> u64 \<Rightarrow> u64 \<Rightarrow> nat \<Rightarrow> sched \<Rightarrow>
     ((WaitError, 'a) res \<times> sched) option" where
  "wait_loop env clock scan start_tick timeout_ms i s =
     (case scan s of
        (Some r, s) \<Rightarrow> Some (r, s)
      | (None, s) \<Rightarrow>
          (case wait_expired start_tick timeout_ms (clock i) of
             None \<Rightarrow> Some (Panic, s)
           | Some expired \<Rightarrow>
               if expired then Some (Err WTimeout, s)
               else wait_loop env clock scan start_tick timeout_ms (Suc i) (env i s)))"

definition wait_for_child :: "(nat \<Rightarrow> sched \<Rightarrow> sched) \<Rightarrow> (nat \<Rightarrow> u64) \<Rightarrow> u64 \<Rightarrow> u64 \<Rightarrow> u64 \<Rightarrow> sched \<Rightarrow>
    ((WaitError, int) res \<times> sched) option" where
  "wait_for_child env clock start_tick target timeout_ms s =
     map_option (\<lambda>(r, s). (map_res id snd r, s)) (wait_loop env clock (wait_scan (current_task_id s) target) start_tick timeout_ms 0 s)"

definition WNOHANG :: u64 where "WNOHANG = 1"

text \<open>\<^verbatim>\<open>waitpid\<close> has no timeout; with \<^verbatim>\<open>WNOHANG\<close> it makes one pass.\<close>

definition waitpid :: "(nat \<Rightarrow> sched \<Rightarrow> sched) \<Rightarrow> u64 \<Rightarrow> u64 \<Rightarrow> sched \<Rightarrow> ((WaitError, u64 \<times> int) res \<times> sched) option" where
  "waitpid env target flags s =
     (if (flags AND WNOHANG) \<noteq> 0 then
        (case wait_scan (current_task_id s) target s of
           (Some r, s) \<Rightarrow> Some (r, s)
         | (None, s) \<Rightarrow> Some (Ok (0, 0), s))
      else wait_loop env (\<lambda>_. 0) (wait_scan (current_task_id s) target) 0 0 0 s)"

definition wait_for_thread :: "(nat \<Rightarrow> sched \<Rightarrow> sched) \<Rightarrow> (nat \<Rightarrow> u64) \<Rightarrow> u64 \<Rightarrow> u64 \<Rightarrow> u64 \<Rightarrow> sched \<Rightarrow>
    ((WaitError, int) res \<times> sched) option" where
  "wait_for_thread env clock start_tick thread_id timeout_ms s =
     wait_loop env clock (thread_scan (current_task_id s) thread_id) start_tick timeout_ms 0 s"

section \<open>Ending tasks\<close>

definition kill_all_threads_of_leader :: "u64 \<Rightarrow> sched \<Rightarrow> sched" where
  "kill_all_threads_of_leader leader_id s =
     s\<lparr>tasks := map (\<lambda>t. if tleader t = Some leader_id \<and> tstate t \<noteq> Finished
        then t\<lparr>tstate := Finished, texit_code := - 1\<rparr> else t) (tasks s)\<rparr>"

definition set_exit_code :: "int \<Rightarrow> sched \<Rightarrow> sched" where
  "set_exit_code code s = s\<lparr>tasks := (tasks s)[current s := (cur_task s)\<lparr>texit_code := code\<rparr>]\<rparr>"

text \<open>The locked part of \<^verbatim>\<open>kill_task\<close>; it hands out the process to destroy.\<close>

definition kill_mark :: "u64 \<Rightarrow> sched \<Rightarrow> (string, u64 option) res \<times> sched" where
  "kill_mark task_id s =
     (if task_id = tid (cur_task s) then (Err ''cannot kill self'', s)
      else case position (\<lambda>t. tid t = task_id) (tasks s) of
        None \<Rightarrow> (Err ''task not found'', s)
      | Some i \<Rightarrow>
          let t = tasks s ! i in
          if tstate t = Finished then (Err ''task already finished'', s)
          else (Ok (tproc t), s\<lparr>tasks := (tasks s)[i := t\<lparr>tstate := Finished, texit_code := - 1, tproc := None\<rparr>]\<rparr>))"

text \<open>The locked part of \<^verbatim>\<open>user_task_exit_handler\<close>.\<close>

definition exit_mark :: "sched \<Rightarrow> (u64 option \<times> u64 \<times> bool \<times> Handle option \<times> Handle option) \<times> sched" where
  "exit_mark s =
     (let t = cur_task s in
      ((tproc t, tid t, tleader t = None \<and> tproc t \<noteq> None, tstdin t, tstdout t),
       s\<lparr>tasks := (tasks s)[current s := t\<lparr>tstate := Finished, tstdin := None, tstdout := None, tproc := None\<rparr>]\<rparr>))"

definition thread_exit_mark :: "sched \<Rightarrow> u64 \<times> sched" where
  "thread_exit_mark s = (tid (cur_task s), set_state Finished (current s) s)"

text \<open>
  The locked part of \<^verbatim>\<open>abort_current_user_task_from_exception\<close>: the next ready task, or task 0 as a last resort.
\<close>

definition abort_clear :: "sched \<Rightarrow> sched" where
  "abort_clear s = s\<lparr>tasks := (tasks s)[current s := (cur_task s)\<lparr>texit_code := - 1, tstate := Finished, tproc := None\<rparr>]\<rparr>"

definition abort_pick :: "sched \<Rightarrow> nat option" where
  "abort_pick s =
     (case next_ready s of
        Some idx \<Rightarrow> Some idx
      | None \<Rightarrow> if tasks s \<noteq> [] \<and> tstate (tasks s ! 0) \<noteq> Finished \<and> current s \<noteq> 0 then Some 0 else None)"

definition abort_mark :: "sched \<Rightarrow> (u64 option \<times> u64) \<times> sched" where
  "abort_mark s =
     ((tproc (cur_task s), tid (cur_task s)),
      case abort_pick (abort_clear s) of
        None \<Rightarrow> abort_clear s
      | Some next_idx \<Rightarrow> (set_state Running next_idx (abort_clear s))\<lparr>current := next_idx\<rparr>)"

section \<open>Steps of the scheduler\<close>

text \<open>
  Every operation on the scheduler as one step. What the running task itself does (sleep, set its exit code, fault) it does only while
  it is not finished: after marking itself finished it only yields.
\<close>

inductive sched_step :: "sched \<Rightarrow> sched \<Rightarrow> bool" where
  step_spawn: "sched_step s (snd (spawn name s))"
| step_spawn_user: "sched_step s (snd (spawn_user name proc s))"
| step_spawn_redirected: "sched_step s (snd (spawn_user_redirected name proc hin hout s))"
| step_spawn_thread: "sched_step s (snd (spawn_thread num entry top arg s))"
| step_thread_info: "sched_step s (snd (take_thread_info i s))"
| step_yield: "sched_step s (snd (yield_now s))"
| step_preempt: "sched_step s (preempt free now s)"
| step_sleep: "tstate (cur_task s) \<noteq> Finished \<Longrightarrow> sched_step s (set_current_sleeping w s)"
| step_wake: "sched_step s (wake_task i s)"
| step_setenv: "sched_step s (set_env_var k v s)"
| step_wait: "sched_step s (snd (wait_scan me target s))"
| step_wait_thread: "sched_step s (snd (thread_scan me th s))"
| step_kill_threads: "sched_step s (kill_all_threads_of_leader l s)"
| step_exit_code: "tstate (cur_task s) \<noteq> Finished \<Longrightarrow> sched_step s (set_exit_code c s)"
| step_kill: "sched_step s (snd (kill_mark i s))"
| step_exit: "sched_step s (snd (exit_mark s))"
| step_thread_exit: "sched_step s (snd (thread_exit_mark s))"
| step_abort: "tstate (cur_task s) \<noteq> Finished \<Longrightarrow> sched_step s (snd (abort_mark s))"

definition boot :: sched where
  "boot = sched_init empty_sched"

definition reachable :: "sched \<Rightarrow> bool" where
  "reachable s \<longleftrightarrow> sched_step\<^sup>*\<^sup>* boot s"

text \<open>What a step may do to an existing task, and to the table.\<close>

definition task_kept :: "Task \<Rightarrow> Task \<Rightarrow> bool" where
  "task_kept t u \<longleftrightarrow> tid u = tid t \<and> tparent u = tparent t \<and> tleader u = tleader t \<and> (treaped t \<longrightarrow> treaped u) \<and>
     (tstate t = Finished \<longrightarrow> tstate u = Finished \<and> texit_code u = texit_code t)"

definition table_kept :: "sched \<Rightarrow> sched \<Rightarrow> bool" where
  "table_kept s s' \<longleftrightarrow> list_all2 task_kept (tasks s) (take (length (tasks s)) (tasks s')) \<and> length (tasks s) \<le> length (tasks s')"

lemma task_kept_refl [simp]: "task_kept t t"
  by (simp add: task_kept_def)

lemma task_kept_trans: "task_kept a b \<Longrightarrow> task_kept b c \<Longrightarrow> task_kept a c"
  by (auto simp: task_kept_def)

lemma table_kept_nth:
  "table_kept s s' \<longleftrightarrow> length (tasks s) \<le> length (tasks s') \<and> (\<forall>i<length (tasks s). task_kept (tasks s ! i) (tasks s' ! i))"
  by (auto simp: table_kept_def list_all2_conv_all_nth)

lemma table_kept_refl [simp]: "table_kept s s"
  by (simp add: table_kept_nth)

lemma table_kept_trans: "table_kept a b \<Longrightarrow> table_kept b c \<Longrightarrow> table_kept a c"
  by (auto simp: table_kept_nth intro: task_kept_trans)

lemma table_kept_update:
  "(i < length (tasks s) \<Longrightarrow> task_kept (tasks s ! i) u) \<Longrightarrow> table_kept s (s\<lparr>tasks := (tasks s)[i := u]\<rparr>)"
  by (auto simp: table_kept_nth nth_update_any)

lemma table_kept_map:
  "(\<And>t. task_kept t (f t)) \<Longrightarrow> table_kept s (s\<lparr>tasks := map f (tasks s)\<rparr>)"
  by (auto simp: table_kept_nth)

lemma table_kept_set_state:
  "(i < length (tasks s) \<Longrightarrow> tstate (tasks s ! i) = Finished \<Longrightarrow> st = Finished) \<Longrightarrow> table_kept s (set_state st i s)"
  unfolding set_state_def by (rule table_kept_update) (auto simp: task_kept_def)

lemma table_kept_same_tasks: "tasks s' = tasks s'' \<Longrightarrow> table_kept s s' \<longleftrightarrow> table_kept s s''"
  by (simp add: table_kept_nth)

lemma table_kept_current [simp]: "table_kept s (s'\<lparr>current := c\<rparr>) \<longleftrightarrow> table_kept s s'"
  by (simp add: table_kept_nth)

lemma table_kept_push: "table_kept s (snd (push_task mk s))"
  by (auto simp: push_task_def table_kept_nth nth_append split: option.splits)

text \<open>The task found is the ready one at the least distance around the table.\<close>

lemma next_ready_SomeD:
  assumes "next_ready s = Some j"
  obtains d where "1 \<le> d" "d \<le> length (tasks s)" "j = (current s + d) mod length (tasks s)" "tstate (tasks s ! j) = Ready"
    "\<And>e. 1 \<le> e \<Longrightarrow> e < d \<Longrightarrow> tstate (tasks s ! ((current s + e) mod length (tasks s))) \<noteq> Ready"
proof -
  let ?n = "length (tasks s)" and ?P = "\<lambda>idx. tstate (tasks s ! idx) = Ready"
  let ?xs = "map (\<lambda>i. (current s + i) mod ?n) [1..<?n + 1]"
  have nth: "?xs ! i = (current s + Suc i) mod ?n" if "i < ?n" for i
    using that by (simp del: upt_Suc)
  from assms obtain i where i: "i < length ?xs" "?P (?xs ! i)" "j = ?xs ! i" "\<forall>e<i. \<not> ?P (?xs ! e)"
    unfolding next_ready_def Let_def find_Some_iff by blast
  from i(1) have n: "i < ?n" by (simp del: upt_Suc)
  show thesis
  proof (rule that [of "Suc i"])
    show "tstate (tasks s ! ((current s + e) mod ?n)) \<noteq> Ready" if "1 \<le> e" "e < Suc i" for e
      using that i(4) [rule_format, of "e - 1"] nth [of "e - 1"] n by (simp del: upt_Suc)
    show "j = (current s + Suc i) mod ?n" using i(3) nth [OF n] by (simp only:)
    show "tstate (tasks s ! j) = Ready" using i(2,3) by (simp only:)
  qed (use n in simp_all)
qed

lemma next_ready_Some:
  assumes "next_ready s = Some j"
  shows "j < length (tasks s) \<and> tstate (tasks s ! j) = Ready"
proof -
  from assms obtain d where "1 \<le> d" "d \<le> length (tasks s)" "j = (current s + d) mod length (tasks s)" "tstate (tasks s ! j) = Ready"
    by (rule next_ready_SomeD)
  moreover from this have "0 < length (tasks s)" by linarith
  ultimately show ?thesis by simp
qed

lemma next_ready_None: "next_ready s = None \<Longrightarrow> 1 \<le> d \<Longrightarrow> d \<le> length (tasks s) \<Longrightarrow>
    tstate (tasks s ! ((current s + d) mod length (tasks s))) \<noteq> Ready"
  unfolding next_ready_def Let_def find_None_iff by (auto simp del: upt_Suc)

lemma table_kept_switch:
  assumes "j < length (tasks s)" and "tstate (tasks s ! j) = Ready"
  shows "table_kept s (switch_to j s)"
proof -
  let ?s = "if tstate (cur_task s) = Running then set_state Ready (current s) s else s"
  have 1: "table_kept s ?s" by (auto intro!: table_kept_set_state)
  have "tstate (tasks ?s ! j) = Ready" using assms by (auto simp: set_state_def nth_update_any)
  then have "table_kept ?s (set_state Running j ?s)" by (intro table_kept_set_state) simp
  with 1 show ?thesis unfolding switch_to_def Let_def table_kept_current by (rule table_kept_trans)
qed

lemma table_kept_wake_sleepers: "table_kept s (wake_sleepers now s)"
  unfolding wake_sleepers_def by (rule table_kept_map) (auto simp: task_kept_def split: TaskState.splits)

lemma table_kept_preempt: "table_kept s (preempt free now s)"
proof -
  have "table_kept s (switch_to j (wake_sleepers now s))" if "next_ready (wake_sleepers now s) = Some j" for j
    using next_ready_Some [OF that] by (intro table_kept_trans [OF table_kept_wake_sleepers table_kept_switch]) simp_all
  then show ?thesis
    by (simp add: preempt_def Let_def table_kept_wake_sleepers split: option.split)
qed

lemma table_kept_reap: "table_kept s (reap i s)"
  unfolding reap_def by (rule table_kept_update) (auto simp: task_kept_def)

lemma table_kept_scans: "table_kept s (snd (wait_scan me target s))" "table_kept s (snd (thread_scan me th s))"
  by (auto simp: wait_scan_def thread_scan_def Let_def table_kept_reap split: option.splits)

lemma set_handles_kept: "list_all2 task_kept ts (set_handles i hin hout ts)"
  by (induction ts) (auto simp: task_kept_def list_all2_same)

lemma table_kept_redirected: "table_kept s (snd (spawn_user_redirected name proc hin hout s))"
proof -
  have u: "table_kept s (snd (spawn_user name proc s))"
    by (cases proc) (auto simp: spawn_user_def Let_def table_kept_push)
  have h: "table_kept t (t\<lparr>tasks := set_handles i hin hout (tasks t)\<rparr>)" for t i
    using set_handles_kept [of "tasks t" i hin hout] list_all2_lengthD [OF set_handles_kept [of "tasks t" i hin hout]]
    by (simp add: table_kept_def)
  show ?thesis
    using u table_kept_trans [OF u h]
    by (auto simp: spawn_user_redirected_def ok_then_def split: prod.splits res.splits)
qed

lemma table_kept_thread: "table_kept s (snd (spawn_thread num entry top arg s))"
proof (cases "tcr3 (cur_task s)")
  case (Some cr3)
  let ?mk = "\<lambda>i. \<lparr>tid = i, tname = ''thread-'' @ num i, tstate = Ready, tstack = True, tcr3 = Some cr3, tproc = None,
     tuser = True, tparent = Some (tid (cur_task s)), texit_code = 0, treaped = False, tenv = tenv (cur_task s),
     tleader = Some (case tleader (cur_task s) of Some l \<Rightarrow> l | None \<Rightarrow> tid (cur_task s)),
     tstdin = tstdin (cur_task s), tstdout = tstdout (cur_task s)\<rparr>"
  obtain r t where rt: "push_task ?mk s = (r, t)" by force
  with table_kept_push [of s ?mk] have k: "table_kept s t" by simp
  have "tasks (snd (spawn_thread num entry top arg s)) = tasks t"
    using Some rt by (cases r) (simp_all add: spawn_thread_def Let_def)
  with k show ?thesis by (simp add: table_kept_nth)
qed (simp add: spawn_thread_def)

lemma table_kept_user: "table_kept s (snd (spawn_user name proc s))"
  by (cases proc) (auto simp: spawn_user_def Let_def table_kept_push)

lemma table_kept_yield: "table_kept s (snd (yield_now s))"
  using next_ready_Some table_kept_switch by (auto simp: yield_now_def split: option.split)

lemma table_kept_wake: "table_kept s (wake_task i s)"
  by (auto simp: wake_task_def is_sleeping_def intro!: table_kept_set_state split: option.splits)

lemma table_kept_kill: "table_kept s (snd (kill_mark i s))"
  by (auto simp: kill_mark_def Let_def task_kept_def intro!: table_kept_update split: option.splits)

lemma abort_pick_Some: "abort_pick s = Some j \<Longrightarrow> j < length (tasks s) \<and> tstate (tasks s ! j) \<noteq> Finished"
  by (auto simp: abort_pick_def dest: next_ready_Some split: option.splits if_splits)

lemma table_kept_abort:
  assumes "tstate (cur_task s) \<noteq> Finished"
  shows "table_kept s (snd (abort_mark s))"
proof -
  have 1: "table_kept s (abort_clear s)"
    unfolding abort_clear_def using assms by (intro table_kept_update) (simp add: task_kept_def)
  show ?thesis
  proof (cases "abort_pick (abort_clear s)")
    case None
    with 1 show ?thesis by (simp add: abort_mark_def)
  next
    case (Some j)
    then have "table_kept (abort_clear s) (set_state Running j (abort_clear s))"
      by (intro table_kept_set_state) (auto dest: abort_pick_Some)
    with 1 Some show ?thesis by (auto simp: abort_mark_def intro: table_kept_trans)
  qed
qed

lemma step_kept: "sched_step s s' \<Longrightarrow> table_kept s s'"
proof (induction rule: sched_step.induct)
  case (step_thread_info s i)
  show ?case by (auto simp: take_thread_info_def table_kept_nth split: option.splits)
next
  case (step_sleep s w)
  then show ?case unfolding set_current_sleeping_def by (intro table_kept_set_state) simp
next
  case (step_setenv s k v)
  show ?case unfolding set_env_var_def by (rule table_kept_update) (simp add: task_kept_def)
next
  case (step_kill_threads s l)
  show ?case unfolding kill_all_threads_of_leader_def by (rule table_kept_map) (simp add: task_kept_def)
next
  case (step_exit_code s c)
  then show ?case unfolding set_exit_code_def by (intro table_kept_update) (simp add: task_kept_def)
next
  case (step_exit s)
  show ?case unfolding exit_mark_def Let_def snd_conv by (rule table_kept_update) (simp add: task_kept_def)
next
  case (step_thread_exit s)
  show ?case unfolding thread_exit_mark_def snd_conv by (rule table_kept_set_state) simp
qed (simp_all add: spawn_def table_kept_push table_kept_user table_kept_redirected table_kept_thread table_kept_yield
  table_kept_preempt table_kept_wake table_kept_scans table_kept_kill table_kept_abort)

lemma steps_kept: "sched_step\<^sup>*\<^sup>* s s' \<Longrightarrow> table_kept s s'"
  by (induction rule: rtranclp_induct) (auto intro: table_kept_trans step_kept)

section \<open>The invariant\<close>

definition sched_inv :: "sched \<Rightarrow> bool" where
  "sched_inv s \<longleftrightarrow> current s < length (tasks s) \<and> distinct (map tid (tasks s)) \<and> (\<forall>t\<in>set (tasks s). tid t < next_id s) \<and>
     (\<forall>i<length (tasks s). tstate (tasks s ! i) = Running \<longrightarrow> i = current s)"

text \<open>A step that changes tasks in place and moves \<open>current\<close> only as a switch does.\<close>

lemma inv_in_place:
  assumes "sched_inv s" and "length (tasks s') = length (tasks s)" and "map tid (tasks s') = map tid (tasks s)"
    and "next_id s' = next_id s" and "current s' < length (tasks s)"
    and "\<And>i. i < length (tasks s) \<Longrightarrow> tstate (tasks s' ! i) = Running \<Longrightarrow> i = current s'"
  shows "sched_inv s'"
proof -
  have "tid ` set (tasks s') = tid ` set (tasks s)" using assms(3) by (metis list.set_map)
  moreover have "\<forall>x\<in>tid ` set (tasks s). x < next_id s" using assms(1) by (auto simp: sched_inv_def)
  ultimately have "\<forall>t\<in>set (tasks s'). tid t < next_id s" by (metis image_eqI)
  with assms show ?thesis by (simp add: sched_inv_def)
qed

lemma inv_update:
  assumes "sched_inv s" and "i < length (tasks s) \<Longrightarrow> tid u = tid (tasks s ! i)"
    and "i < length (tasks s) \<Longrightarrow> tstate u = Running \<Longrightarrow> tstate (tasks s ! i) = Running"
  shows "sched_inv (s\<lparr>tasks := (tasks s)[i := u]\<rparr>)"
proof (rule inv_in_place [OF assms(1)])
  show "map tid (tasks (s\<lparr>tasks := (tasks s)[i := u]\<rparr>)) = map tid (tasks s)"
    using assms(2) by (cases "i < length (tasks s)") (simp_all add: map_update list_update_same_conv list_update_beyond)
  show "j = current (s\<lparr>tasks := (tasks s)[i := u]\<rparr>)"
    if "j < length (tasks s)" "tstate (tasks (s\<lparr>tasks := (tasks s)[i := u]\<rparr>) ! j) = Running" for j
    using that assms by (auto simp: sched_inv_def nth_update_any split: if_splits)
qed (use assms(1) in \<open>simp_all add: sched_inv_def\<close>)

lemma inv_map:
  assumes "sched_inv s" and "\<And>t. tid (f t) = tid t" and "\<And>t. tstate (f t) = Running \<Longrightarrow> tstate t = Running"
  shows "sched_inv (s\<lparr>tasks := map f (tasks s)\<rparr>)"
  by (rule inv_in_place [OF assms(1)]) (use assms in \<open>simp_all add: sched_inv_def\<close>)

lemma inv_set_state:
  "sched_inv s \<Longrightarrow> st \<noteq> Running \<Longrightarrow> sched_inv (set_state st i s)"
  unfolding set_state_def by (rule inv_update) simp_all

text \<open>Making \<open>j\<close> the running task once no task is.\<close>

lemma inv_run:
  assumes "sched_inv s" and "j < length (tasks s)" and "\<And>i. i < length (tasks s) \<Longrightarrow> tstate (tasks s ! i) \<noteq> Running"
  shows "sched_inv ((set_state Running j s)\<lparr>current := j\<rparr>)"
proof (rule inv_in_place [OF assms(1)])
  show "map tid (tasks ((set_state Running j s)\<lparr>current := j\<rparr>)) = map tid (tasks s)"
    using assms(2) by (simp add: set_state_def map_update list_update_same_conv)
  show "i = current ((set_state Running j s)\<lparr>current := j\<rparr>)"
    if "i < length (tasks s)" "tstate (tasks ((set_state Running j s)\<lparr>current := j\<rparr>) ! i) = Running" for i
    using that assms by (auto simp: set_state_def nth_update_any split: if_splits)
qed (use assms in \<open>simp_all add: set_state_def\<close>)

lemma inv_switch:
  assumes "sched_inv s" and "j < length (tasks s)"
  shows "sched_inv (switch_to j s)"
proof -
  let ?s = "if tstate (cur_task s) = Running then set_state Ready (current s) s else s"
  have "sched_inv ?s" using assms(1) by (simp add: inv_set_state)
  moreover have "tstate (tasks ?s ! i) \<noteq> Running" if "i < length (tasks ?s)" for i
  proof (cases "i = current s")
    case True
    with that show ?thesis by (simp add: set_state_def split: if_splits)
  next
    case False
    have "i < length (tasks s)" using that by (simp add: set_state_def split: if_splits)
    with False assms(1) have "tstate (tasks s ! i) \<noteq> Running" unfolding sched_inv_def by blast
    with False show ?thesis by (simp add: set_state_def)
  qed
  moreover have "j < length (tasks ?s)" using assms(2) by (simp add: set_state_def)
  ultimately show ?thesis unfolding switch_to_def Let_def by (intro inv_run)
qed

lemma inv_push:
  assumes "sched_inv s" and "\<And>i. tid (mk i) = i" and "\<And>i. tstate (mk i) \<noteq> Running"
  shows "sched_inv (snd (push_task mk s))"
proof (cases "cadd (next_id s) 1")
  case (Some n)
  then have n: "unat n = unat (next_id s) + 1" by (auto dest: unat_cadd)
  have old: "\<forall>t\<in>set (tasks s). tid t < next_id s" using assms(1) by (simp add: sched_inv_def)
  then have "\<forall>t\<in>set (tasks s). tid t < n" using n by (auto simp: word_less_nat_alt)
  moreover have "next_id s < n" using n by (simp add: word_less_nat_alt)
  moreover have "next_id s \<notin> tid ` set (tasks s)" using old by auto
  moreover have "tstate ((tasks s @ [mk (next_id s)]) ! i) = Running \<longrightarrow> i = current s" if "i < Suc (length (tasks s))" for i
    using that assms by (auto simp: sched_inv_def nth_append less_Suc_eq)
  ultimately show ?thesis
    using Some assms by (simp add: push_task_def sched_inv_def)
qed (use assms in \<open>simp add: push_task_def\<close>)

lemma inv_same_tasks: "sched_inv s \<Longrightarrow> tasks s' = tasks s \<Longrightarrow> current s' = current s \<Longrightarrow> next_id s' = next_id s \<Longrightarrow> sched_inv s'"
  by (simp add: sched_inv_def)

lemma inv_user: "sched_inv s \<Longrightarrow> sched_inv (snd (spawn_user name proc s))"
  by (cases proc) (auto simp: spawn_user_def Let_def intro!: inv_push)

lemma set_handles_shape:
  "map tid (set_handles i hin hout ts) = map tid ts \<and> map tstate (set_handles i hin hout ts) = map tstate ts"
  by (induction ts) auto

lemma inv_handles:
  assumes "sched_inv s"
  shows "sched_inv (s\<lparr>tasks := set_handles i hin hout (tasks s)\<rparr>)"
proof -
  let ?ts = "set_handles i hin hout (tasks s)"
  have m: "map tstate ?ts = map tstate (tasks s)" "map tid ?ts = map tid (tasks s)" using set_handles_shape by blast+
  from m(1) have l: "length ?ts = length (tasks s)" using map_eq_imp_length_eq by blast
  have st: "tstate (?ts ! j) = tstate (tasks s ! j)" if "j < length (tasks s)" for j
    using that l arg_cong [OF m(1), of "\<lambda>xs. xs ! j"] by simp
  show ?thesis
    by (rule inv_in_place [OF assms]) (use assms l m st in \<open>simp_all add: sched_inv_def\<close>)
qed

lemma inv_redirected: "sched_inv s \<Longrightarrow> sched_inv (snd (spawn_user_redirected name proc hin hout s))"
  using inv_user [of s name proc] inv_handles
  by (auto simp: spawn_user_redirected_def ok_then_def split: prod.splits res.splits)

lemma inv_thread:
  assumes "sched_inv s"
  shows "sched_inv (snd (spawn_thread num entry top arg s))"
proof (cases "tcr3 (cur_task s)")
  case (Some cr3)
  let ?mk = "\<lambda>i. \<lparr>tid = i, tname = ''thread-'' @ num i, tstate = Ready, tstack = True, tcr3 = Some cr3, tproc = None,
     tuser = True, tparent = Some (tid (cur_task s)), texit_code = 0, treaped = False, tenv = tenv (cur_task s),
     tleader = Some (case tleader (cur_task s) of Some l \<Rightarrow> l | None \<Rightarrow> tid (cur_task s)),
     tstdin = tstdin (cur_task s), tstdout = tstdout (cur_task s)\<rparr>"
  obtain r t where rt: "push_task ?mk s = (r, t)" by force
  moreover have "sched_inv (snd (push_task ?mk s))" using assms by (rule inv_push) simp_all
  ultimately have "sched_inv t" by simp
  moreover have "tasks (snd (spawn_thread num entry top arg s)) = tasks t \<and>
      current (snd (spawn_thread num entry top arg s)) = current t \<and> next_id (snd (spawn_thread num entry top arg s)) = next_id t"
    using Some rt by (cases r) (simp_all add: spawn_thread_def Let_def)
  ultimately show ?thesis by (simp add: sched_inv_def)
qed (use assms in \<open>simp add: spawn_thread_def\<close>)

lemma inv_wake_sleepers: "sched_inv s \<Longrightarrow> sched_inv (wake_sleepers now s)"
  unfolding wake_sleepers_def by (rule inv_map) (auto split: TaskState.splits if_splits)

lemma inv_preempt:
  assumes "sched_inv s"
  shows "sched_inv (preempt free now s)"
proof -
  have "sched_inv (switch_to j (wake_sleepers now s))" if "next_ready (wake_sleepers now s) = Some j" for j
    using inv_switch [OF inv_wake_sleepers [OF assms]] next_ready_Some [OF that] by blast
  then show ?thesis
    using assms by (simp add: preempt_def Let_def inv_wake_sleepers split: option.split)
qed

lemma inv_yield: "sched_inv s \<Longrightarrow> sched_inv (snd (yield_now s))"
  using next_ready_Some inv_switch by (auto simp: yield_now_def split: option.split)

lemma inv_reap: "sched_inv s \<Longrightarrow> sched_inv (reap i s)"
  unfolding reap_def by (rule inv_update) simp_all

lemma inv_scans: "sched_inv s \<Longrightarrow> sched_inv (snd (wait_scan me target s))" "sched_inv s \<Longrightarrow> sched_inv (snd (thread_scan me th s))"
  by (auto simp: wait_scan_def thread_scan_def Let_def inv_reap split: option.splits)

lemma inv_kill: "sched_inv s \<Longrightarrow> sched_inv (snd (kill_mark i s))"
  by (auto simp: kill_mark_def Let_def intro!: inv_update split: option.splits)

lemma inv_abort:
  assumes "sched_inv s"
  shows "sched_inv (snd (abort_mark s))"
proof -
  have c: "sched_inv (abort_clear s)" unfolding abort_clear_def using assms by (rule inv_update) simp_all
  have "tstate (tasks (abort_clear s) ! i) \<noteq> Running" if "i < length (tasks (abort_clear s))" for i
  proof (cases "i = current s")
    case True
    with that show ?thesis by (simp add: abort_clear_def)
  next
    case False
    have "i < length (tasks s)" using that by (simp add: abort_clear_def)
    with False assms have "tstate (tasks s ! i) \<noteq> Running" unfolding sched_inv_def by blast
    with False show ?thesis by (simp add: abort_clear_def)
  qed
  with c have "sched_inv ((set_state Running j (abort_clear s))\<lparr>current := j\<rparr>)" if "abort_pick (abort_clear s) = Some j" for j
    using abort_pick_Some [OF that] by (intro inv_run) simp_all
  with c show ?thesis by (simp add: abort_mark_def split: option.split)
qed

lemma step_inv: "sched_step s s' \<Longrightarrow> sched_inv s \<Longrightarrow> sched_inv s'"
proof (induction rule: sched_step.induct)
  case (step_spawn s name)
  then show ?case unfolding spawn_def by (rule inv_push) (simp_all add: kernel_task_def)
next
  case (step_thread_info s i)
  then show ?case by (auto simp: take_thread_info_def intro: inv_same_tasks split: option.splits)
next
  case (step_sleep s w)
  then show ?case by (simp add: set_current_sleeping_def inv_set_state)
next
  case (step_wake s i)
  then show ?case by (auto simp: wake_task_def intro!: inv_set_state split: option.splits)
next
  case (step_setenv s k v)
  then show ?case unfolding set_env_var_def by (rule inv_update) simp_all
next
  case (step_kill_threads s l)
  then show ?case unfolding kill_all_threads_of_leader_def by (rule inv_map) (auto split: if_splits)
next
  case (step_exit_code s c)
  then show ?case unfolding set_exit_code_def by (intro inv_update) simp_all
next
  case (step_exit s)
  then show ?case unfolding exit_mark_def Let_def snd_conv by (rule inv_update) simp_all
next
  case (step_thread_exit s)
  then show ?case unfolding thread_exit_mark_def snd_conv by (rule inv_set_state) simp
qed (simp_all add: inv_user inv_redirected inv_thread inv_yield inv_preempt inv_scans inv_kill inv_abort)

lemma boot_inv: "sched_inv boot"
  by (simp add: boot_def sched_init_def empty_sched_def kernel_task_def sched_inv_def)

lemma steps_inv: "sched_step\<^sup>*\<^sup>* s s' \<Longrightarrow> sched_inv s \<Longrightarrow> sched_inv s'"
  by (induction rule: rtranclp_induct) (auto intro: step_inv)

section \<open>Properties\<close>

text \<open>
  C21: in every state the scheduler can reach from boot, whatever the interleaving of spawning, yielding, timer ticks, sleeping, waking,
  waiting, killing, faulting and exiting: the current index is in range, task identifiers are unique and below the next one to be
  given out, and no task but the current one is marked running.
\<close>

theorem scheduler_invariant:
  assumes "reachable s"
  shows "current s < length (tasks s) \<and> distinct (map tid (tasks s)) \<and> (\<forall>t\<in>set (tasks s). tid t < next_id s) \<and>
    (\<forall>i<length (tasks s). tstate (tasks s ! i) = Running \<longrightarrow> i = current s)"
  using steps_inv [OF _ boot_inv] assms by (simp add: reachable_def sched_inv_def)

lemma reachable_spawn: "reachable (snd (spawn name boot))"
  unfolding reachable_def by (rule r_into_rtranclp) (rule step_spawn)

theorem scheduler_invariant_witness:
  "current (snd (spawn ''net'' boot)) < length (tasks (snd (spawn ''net'' boot))) \<and>
   distinct (map tid (tasks (snd (spawn ''net'' boot))))"
  using scheduler_invariant [OF reachable_spawn [of "''net''"]] by blast

text \<open>
  C22: a finished task is finished for good. Once a task is marked finished, every later state of the scheduler has it in the same
  slot with the same identifier and the same exit code, still finished, and the selection never picks it again.
\<close>

theorem finished_is_final:
  assumes "sched_step\<^sup>*\<^sup>* s s'" and "i < length (tasks s)" and "tstate (tasks s ! i) = Finished"
  shows "i < length (tasks s') \<and> tid (tasks s' ! i) = tid (tasks s ! i) \<and> tstate (tasks s' ! i) = Finished \<and>
    texit_code (tasks s' ! i) = texit_code (tasks s ! i) \<and> next_ready s' \<noteq> Some i"
proof -
  from steps_kept [OF assms(1)] assms(2) have k: "length (tasks s) \<le> length (tasks s')" "task_kept (tasks s ! i) (tasks s' ! i)"
    by (simp_all add: table_kept_nth)
  with assms have f: "tstate (tasks s' ! i) = Finished" by (simp add: task_kept_def)
  then have "next_ready s' \<noteq> Some i" using next_ready_Some [of s' i] by auto
  with k f assms show ?thesis by (simp add: task_kept_def)
qed

definition two_tasks :: sched where
  "two_tasks = snd (exit_mark (snd (spawn ''net'' boot)))"

lemma two_tasks_eq:
  "tasks two_tasks = [kernel_task 0 ''kernel'' Finished False, kernel_task 1 ''net'' Ready True]" "current two_tasks = 0"
  by (simp_all add: two_tasks_def exit_mark_def spawn_def push_task_def cadd_def boot_def sched_init_def empty_sched_def
      kernel_task_def)

theorem finished_is_final_witness:
  "tstate (tasks (snd (yield_now two_tasks)) ! 0) = Finished \<and> next_ready (snd (yield_now two_tasks)) \<noteq> Some 0"
proof -
  have "sched_step\<^sup>*\<^sup>* two_tasks (snd (yield_now two_tasks))" by (rule r_into_rtranclp) (rule step_yield)
  from finished_is_final [OF this, of 0] show ?thesis by (simp add: two_tasks_eq kernel_task_def)
qed

text \<open>
  C23: an exit status is reported once. When \<open>wait_scan\<close> (the pass of \<^verbatim>\<open>wait\<close> and \<^verbatim>\<open>waitpid\<close>) reports a task, that task is a finished, not
  yet reported child of the caller and the status is its exit code; and whatever happens afterwards, no later wait by any task, for a
  child or for a thread, reports it again.
\<close>

theorem exit_reported_once:
  assumes "reachable s" and "wait_scan me target s = (Some (Ok (c, code)), s1)" and "sched_step\<^sup>*\<^sup>* s1 s2"
  shows "(\<exists>t\<in>set (tasks s). tid t = c \<and> tparent t = Some me \<and> tstate t = Finished \<and> \<not> treaped t \<and> texit_code t = code) \<and>
    (\<forall>me' target' code'. fst (wait_scan me' target' s2) \<noteq> Some (Ok (c, code'))) \<and>
    (\<forall>me' code'. fst (thread_scan me' c s2) \<noteq> Some (Ok code'))"
proof -
  let ?P = "\<lambda>t. tparent t = Some me \<and> tstate t = Finished \<and> \<not> treaped t \<and> (target = 0 \<or> tid t = target)"
  from assms(2) obtain i where i: "position ?P (tasks s) = Some i"
    by (auto simp: wait_scan_def split: option.splits if_splits)
  with assms(2) have c: "c = tid (tasks s ! i)" "code = texit_code (tasks s ! i)" and s1: "s1 = reap i s"
    by (auto simp: wait_scan_def)
  from position_SomeD [OF i] have p: "i < length (tasks s)" "?P (tasks s ! i)" by auto
  have inv1: "sched_inv s1" using steps_inv [OF _ boot_inv] assms(1) s1 by (simp add: reachable_def inv_reap)
  then have inv2: "sched_inv s2" using assms(3) by (rule steps_inv [rotated])
  have "i < length (tasks s1)" "treaped (tasks s1 ! i)" "tid (tasks s1 ! i) = c" using p s1 c by (simp_all add: reap_def)
  with steps_kept [OF assms(3)] have r: "i < length (tasks s2)" "treaped (tasks s2 ! i)" "tid (tasks s2 ! i) = c"
    by (auto simp: table_kept_nth task_kept_def)
  have uniq: "j = i" if "j < length (tasks s2)" "tid (tasks s2 ! j) = c" for j
    using that r inv2 nth_eq_iff_index_eq [of "map tid (tasks s2)" j i] by (simp add: sched_inv_def)
  have "fst (wait_scan me' target' s2) \<noteq> Some (Ok (c, code'))" for me' target' code'
  proof
    let ?Q = "\<lambda>t. tparent t = Some me' \<and> tstate t = Finished \<and> \<not> treaped t \<and> (target' = 0 \<or> tid t = target')"
    assume "fst (wait_scan me' target' s2) = Some (Ok (c, code'))"
    then obtain j where j: "position ?Q (tasks s2) = Some j" "tid (tasks s2 ! j) = c"
      by (auto simp: wait_scan_def split: option.splits if_splits)
    from position_SomeD [OF j(1)] uniq [of j] j(2) r(2) show False by auto
  qed
  moreover have "fst (thread_scan me' c s2) \<noteq> Some (Ok code')" for me' code'
  proof
    assume "fst (thread_scan me' c s2) = Some (Ok code')"
    then obtain j where j: "position (\<lambda>t. tid t = c) (tasks s2) = Some j" "\<not> treaped (tasks s2 ! j)"
      by (auto simp: thread_scan_def Let_def split: option.splits if_splits)
    from position_SomeD [OF j(1)] uniq [of j] j(2) r(2) show False by auto
  qed
  ultimately show ?thesis using p c nth_mem by blast
qed

definition killed_child :: sched where
  "killed_child = snd (kill_mark 1 (snd (spawn_user ''app'' (Ok 0x5000) boot)))"

lemma killed_child_reachable: "reachable killed_child"
  unfolding reachable_def killed_child_def
  by (rule rtranclp.rtrancl_into_rtrancl [OF r_into_rtranclp]) (rule step_spawn_user, rule step_kill)

theorem exit_reported_once_witness:
  "\<forall>me' target' code'. fst (wait_scan me' target' (reap 1 killed_child)) \<noteq> Some (Ok (1, code'))"
proof -
  have "wait_scan 0 0 killed_child = (Some (Ok (1, - 1)), reap 1 killed_child)"
    by (simp add: wait_scan_def killed_child_def kill_mark_def spawn_user_def push_task_def cadd_def boot_def sched_init_def
        empty_sched_def kernel_task_def Let_def)
  from exit_reported_once [OF killed_child_reachable this rtranclp.rtrancl_refl] show ?thesis by blast
qed

lemma ready_found:
  assumes "tstate (tasks s ! j) = Ready" and "j = (current s + d) mod length (tasks s)" and "1 \<le> d" and "d \<le> length (tasks s)"
  obtains i e where "next_ready s = Some i" "i = j \<or> (1 \<le> e \<and> e < d \<and> j = (i + e) mod length (tasks s))"
proof -
  let ?n = "length (tasks s)"
  from next_ready_None [of s d] assms obtain i where i: "next_ready s = Some i" by (cases "next_ready s") auto
  then obtain e where e: "1 \<le> e" "e \<le> ?n" "i = (current s + e) mod ?n"
    "\<And>k. 1 \<le> k \<Longrightarrow> k < e \<Longrightarrow> tstate (tasks s ! ((current s + k) mod ?n)) \<noteq> Ready"
    by (rule next_ready_SomeD) blast
  have "e \<le> d" using e(4) [of d] assms by (cases "e \<le> d") auto
  show thesis
  proof (cases "e = d")
    case True
    with e(3) assms(2) i show thesis by (intro that [of i 0]) simp_all
  next
    case False
    with \<open>e \<le> d\<close> have "1 \<le> d - e" "d - e < d" using e(1) by auto
    moreover have "j = (i + (d - e)) mod ?n"
    proof -
      have "(i + (d - e)) mod ?n = (current s + e + (d - e)) mod ?n" using e(3) by (simp add: mod_add_left_eq)
      then show ?thesis using assms(2) \<open>e \<le> d\<close> by simp
    qed
    ultimately show thesis using i that by blast
  qed
qed

text \<open>
  C24: round robin is fair. Take the states \<open>s 0, s 1, ...\<close> at which the scheduler is asked for the next task, with any behaviour in between
  that leaves the selected task current: other tasks may sleep, wake up or finish. If the table has \<open>n\<close> tasks and task \<open>j\<close> is ready and stays ready
  until it is selected, then one of the first \<open>n\<close> selections is \<open>j\<close>.
\<close>

theorem round_robin_fair:
  assumes "j < n" and "\<forall>k<n. (\<forall>i<k. next_ready (s i) \<noteq> Some j) \<longrightarrow> length (tasks (s k)) = n \<and> tstate (tasks (s k) ! j) = Ready"
    and "\<forall>k<n. current (s k) < n \<and> current (s (Suc k)) = current (snd (yield_now (s k)))"
  shows "\<exists>k<n. fst (yield_now (s k)) = Switched j"
proof -
  have "\<exists>k'<k + d. next_ready (s k') = Some j"
    if "1 \<le> d" "k + d \<le> n" "j = (current (s k) + d) mod n" for d k
    using that
  proof (induction d arbitrary: k rule: less_induct)
    case (less d)
    show ?case
    proof (cases "\<exists>i<k. next_ready (s i) = Some j")
      case True
      then obtain i where "i < k" "next_ready (s i) = Some j" by blast
      then show ?thesis by (intro exI [of _ i]) simp
    next
      case False
      have "k < n" using less.prems by simp
      with False assms(2) have r: "length (tasks (s k)) = n" "tstate (tasks (s k) ! j) = Ready" by auto
      from ready_found [OF r(2), of d] less.prems r(1) obtain i e
        where i: "next_ready (s k) = Some i" "i = j \<or> (1 \<le> e \<and> e < d \<and> j = (i + e) mod n)"
        by auto
      show ?thesis
      proof (cases "i = j")
        case True
        with i less.prems show ?thesis by (intro exI [of _ k]) simp
      next
        case False
        with i have e: "1 \<le> e" "e < d" "j = (i + e) mod n" by auto
        have "current (s (Suc k)) = i" using assms(3) \<open>k < n\<close> i(1) by (simp add: yield_now_def switch_to_def Let_def)
        with e less.prems less.IH [of e "Suc k"] obtain k' where "k' < Suc k + e" "next_ready (s k') = Some j" by auto
        with e show ?thesis by (intro exI [of _ k']) simp
      qed
    qed
  qed
  moreover obtain d where "1 \<le> d" "0 + d \<le> n" "j = (current (s 0) + d) mod n"
  proof (cases "current (s 0) < j")
    case True
    with assms(1) show thesis by (intro that [of "j - current (s 0)"]) auto
  next
    case False
    moreover have "current (s 0) < n" using assms(1,3) by auto
    ultimately show thesis using assms(1) by (intro that [of "j + n - current (s 0)"]) auto
  qed
  ultimately obtain k where "k < 0 + d" "next_ready (s k) = Some j" by blast
  with \<open>0 + d \<le> n\<close> show ?thesis by (intro exI [of _ k]) (simp add: yield_now_def)
qed

lemma two_tasks_next: "next_ready two_tasks = Some 1" "next_ready (snd (yield_now two_tasks)) = None"
  "current (snd (yield_now two_tasks)) = 1"
  by code_simp+

theorem round_robin_fair_witness:
  "\<exists>k<2. fst (yield_now (if k = (0 :: nat) then two_tasks else snd (yield_now two_tasks))) = Switched 1"
proof (rule round_robin_fair)
  show "\<forall>k<2. (\<forall>i<k. next_ready (if i = (0 :: nat) then two_tasks else snd (yield_now two_tasks)) \<noteq> Some 1) \<longrightarrow>
      length (tasks (if k = 0 then two_tasks else snd (yield_now two_tasks))) = 2 \<and>
      tstate (tasks (if k = 0 then two_tasks else snd (yield_now two_tasks)) ! 1) = Ready"
    using two_tasks_next(1) by (auto simp: two_tasks_eq kernel_task_def)
  have "snd (yield_now (snd (yield_now two_tasks))) = snd (yield_now two_tasks)"
    using two_tasks_next(2) by (simp add: yield_now_def [of "snd (yield_now two_tasks)"])
  then show "\<forall>k<2. current (if k = (0 :: nat) then two_tasks else snd (yield_now two_tasks)) < 2 \<and>
      current (if Suc k = 0 then two_tasks else snd (yield_now two_tasks)) =
      current (snd (yield_now (if k = 0 then two_tasks else snd (yield_now two_tasks))))"
    using two_tasks_next(3) by (simp add: two_tasks_eq)
qed simp

section \<open>Blocking waits\<close>

text \<open>The scheduler state in round \<open>i\<close> of a wait that has not ended.\<close>

fun wait_round :: "(nat \<Rightarrow> sched \<Rightarrow> sched) \<Rightarrow> sched \<Rightarrow> nat \<Rightarrow> sched" where
  "wait_round env s 0 = s"
| "wait_round env s (Suc i) = env i (wait_round env s i)"

lemma wait_scan_None: "wait_scan me target s = (None, s') \<Longrightarrow> s' = s"
  by (auto simp: wait_scan_def split: option.splits if_splits)

lemma wait_loop_returns:
  assumes "\<And>s s'. scan s = (None, s') \<Longrightarrow> s' = s" and "fst (scan (wait_round env s n)) \<noteq> None"
  shows "\<exists>r. wait_loop env clock scan start timeout i (wait_round env s i) = Some r \<or> n < i"
proof (induction "n - i" arbitrary: i)
  case 0
  show ?case
  proof (cases "i = n")
    case True
    with assms(2) show ?thesis
      by (subst wait_loop.simps) (auto split: prod.splits option.splits)
  qed (use 0 in auto)
next
  case (Suc m)
  then have IH: "\<exists>r. wait_loop env clock scan start timeout (Suc i) (wait_round env s (Suc i)) = Some r \<or> n < Suc i"
    by (intro Suc.hyps) simp
  from Suc.hyps(2) have "\<not> n < Suc i" by simp
  with IH obtain r where r: "wait_loop env clock scan start timeout (Suc i) (env i (wait_round env s i)) = Some r" by auto
  show ?case
  proof (cases "scan (wait_round env s i)")
    case (Pair q s')
    show ?thesis
    proof (cases q)
      case None
      with Pair assms(1) have "s' = wait_round env s i" by blast
      with Pair None r show ?thesis
        by (subst wait_loop.simps) (auto split: option.splits)
    next
      case (Some x)
      with Pair show ?thesis by (subst wait_loop.simps) auto
    qed
  qed
qed



section \<open>What an idle yield and a kill leave behind\<close>

text \<open>
  When no other task is ready, \<^verbatim>\<open>yield_now\<close> halts until the next interrupt and then returns to its caller, which is still marked
  sleeping. A sleep of 100 ticks by the only task thus ends with the next interrupt.
\<close>

lemma lone_sleep_returns:
  "fst (sleep_ticks 0 100 boot) = Ok Idle \<and> tstate (cur_task (snd (sleep_ticks 0 100 boot))) = Sleeping 100"
  by code_simp

text \<open>
  A caller that sleeps without a deadline and gets the processor back that way is lost at the next switch: it stays marked as
  sleeping, and no timer tick makes it ready again. \<open>lost_waiter\<close> is task 0 after \<^verbatim>\<open>set_current_sleeping(u64::MAX)\<close> beside a task that sleeps until tick 5.
\<close>

lemma forever_sleeper_kept:
  assumes "tstate (tasks s ! i) = Sleeping (- 1)" and "i < length (tasks s)" and "now \<noteq> - 1"
  shows "tstate (tasks (preempt free now s) ! i) = Sleeping (- 1)"
proof -
  have w: "tstate (tasks (wake_sleepers now s) ! i) = Sleeping (- 1)" "i < length (tasks (wake_sleepers now s))"
    using assms word_order.extremum_unique [of now] by (auto simp: wake_sleepers_def)
  have "tstate (tasks (switch_to j t) ! i) = Sleeping (- 1)"
    if "next_ready t = Some j" "tstate (tasks t ! i) = Sleeping (- 1)" for j t
    using next_ready_Some [OF that(1)] that(2) by (cases "i = current t"; cases "i = j") (auto simp: switch_to_def set_state_def Let_def)
  with w assms(1) show ?thesis by (auto simp: preempt_def Let_def split: option.split)
qed

definition lost_waiter :: sched where
  "lost_waiter =
     (let s = snd (spawn ''timer'' boot) in
      set_current_sleeping (- 1) (set_state (Sleeping 5) 1 s))"

lemma idle_waiter_lost:
  "fst (yield_now lost_waiter) = Idle \<and> current (preempt True 5 lost_waiter) = 1 \<and>
   (\<forall>ticks. - 1 \<notin> set ticks \<longrightarrow> tstate (tasks (fold (preempt True) ticks (preempt True 5 lost_waiter)) ! 0) = Sleeping (- 1))"
proof (intro conjI allI impI)
  show "fst (yield_now lost_waiter) = Idle" "current (preempt True 5 lost_waiter) = 1" by code_simp+
  have keep: "length (tasks (preempt free now s)) = length (tasks s)" for free now s
    by (simp add: preempt_def Let_def wake_sleepers_def switch_to_def set_state_def split: option.split)
  have gen: "- 1 \<notin> set ticks \<Longrightarrow> tstate (tasks s ! 0) = Sleeping (- 1) \<Longrightarrow> 0 < length (tasks s) \<Longrightarrow>
      tstate (tasks (fold (preempt True) ticks s) ! 0) = Sleeping (- 1)" for ticks s
  proof (induction ticks arbitrary: s)
    case (Cons a ticks)
    then have "tstate (tasks (preempt True a s) ! 0) = Sleeping (- 1)" by (intro forever_sleeper_kept) auto
    moreover from Cons.prems keep [of True a s] have "0 < length (tasks (preempt True a s))" by (simp only:)
    ultimately show ?case using Cons.IH [of "preempt True a s"] Cons.prems(1) by simp
  qed simp
  have "tstate (tasks (preempt True 5 lost_waiter) ! 0) = Sleeping (- 1)" "0 < length (tasks (preempt True 5 lost_waiter))"
    by code_simp+
  then show "tstate (tasks (fold (preempt True) ticks (preempt True 5 lost_waiter)) ! 0) = Sleeping (- 1)"
    if "- 1 \<notin> set ticks" for ticks using gen that by blast
qed

text \<open>
  \<^verbatim>\<open>kill_task\<close> destroys the address space of a process without ending its threads: after killing task 1, thread 2 is still ready and
  its page table is the one handed out for destruction.
\<close>

definition threaded :: sched where
  "threaded =
     (let s = snd (spawn_user ''app'' (Ok 0x5000) boot);
          s = snd (spawn_thread (\<lambda>_. ''2'') 0 0 0 (snd (yield_now s)))
      in snd (yield_now (snd (yield_now s))))"

lemma killed_leader_leaves_threads:
  "current threaded = 0 \<and> fst (kill_mark 1 threaded) = Ok (Some 0x5000) \<and>
   tleader (tasks (snd (kill_mark 1 threaded)) ! 2) = Some 1 \<and> tstate (tasks (snd (kill_mark 1 threaded)) ! 2) = Ready \<and>
   tcr3 (tasks (snd (kill_mark 1 threaded)) ! 2) = Some 0x5000"
  by code_simp

text \<open>
  The selection does not exclude the current task. When the processor idles in \<^verbatim>\<open>yield_now\<close> of a sleeping task and the tick wakes just that
  task, \<^verbatim>\<open>preempt\<close> switches from the task to itself; the \<^verbatim>\<open>new_rsp\<close> it passes was read before \<^verbatim>\<open>context_switch\<close> stores the present one.
\<close>

definition own_sleeper :: sched where
  "own_sleeper = set_current_sleeping 3 (set_state (Sleeping 9) 1 (snd (spawn ''other'' boot)))"

lemma sleeper_switches_to_itself:
  "fst (yield_now own_sleeper) = Idle \<and> next_ready (wake_sleepers 3 own_sleeper) = Some (current own_sleeper)"
  by code_simp

end
