(* ===== verification/Ipc.thy ===== *)
theory Ipc
  imports Scheduler
begin

text \<open>
  \<^verbatim>\<open>kernel/src/ipc.rs\<close> and \<^verbatim>\<open>kernel/src/futex.rs\<close>: message queues between tasks, messages that carry a handle, typed messages, and
  futexes, all on top of sleeping and waking in the scheduler. The state of the kernel as these parts see it is one record;
  the maps of the source are partial functions. A blocking receive is a loop of rounds: the code before \<^verbatim>\<open>yield_now\<close>, an
  arbitrary change \<open>env i\<close> of the system while the task has given up the processor, and the code after it.
\<close>

section \<open>State\<close>

record IpcMessage =
  im_sender :: u64
  im_data :: bytes

record IpcMessageWithHandle =
  hm_sender :: u64
  hm_data :: bytes
  hm_handle :: Handle

text \<open>A typed queue: the type it accepts, and its messages with the type each was boxed as.\<close>

record TypedIpcQueue =
  tq_type :: nat
  tq_queue :: "(nat \<times> IpcMessage) list"

record 's system =
  sch :: sched
  ker :: "'s kernel"
  ticks :: u64
  kbd_focus :: u64
  ipc_queues :: "u64 \<Rightarrow> IpcMessage list option"
  typed_queues :: "u64 \<Rightarrow> TypedIpcQueue option"
  handle_queues :: "u64 \<Rightarrow> IpcMessageWithHandle list option"
  ipc_waiters :: "u64 set"
  ipc_cancelled :: "u64 set"
  futex_table :: "u64 \<times> u64 \<Rightarrow> u64 list option"
  destroyed :: "u64 list"

definition on_sched :: "(sched \<Rightarrow> sched) \<Rightarrow> 's system \<Rightarrow> 's system" where
  "on_sched f s = s\<lparr>sch := f (sch s)\<rparr>"

definition opt_list :: "'a list option \<Rightarrow> 'a list" where
  "opt_list q = (case q of None \<Rightarrow> [] | Some xs \<Rightarrow> xs)"

section \<open>Helpers\<close>

definition wake_if_waiting :: "u64 \<Rightarrow> 's system \<Rightarrow> 's system" where
  "wake_if_waiting dest s = (if dest \<in> ipc_waiters s then on_sched (wake_task dest) s else s)"

text \<open>\<^verbatim>\<open>now + (timeout_ms * 182 / 10000).max(1)\<close>, checked; no timeout is no deadline.\<close>

definition calc_wake_at :: "u64 \<Rightarrow> u64 \<Rightarrow> u64 option" where
  "calc_wake_at now timeout_ms =
     (if timeout_ms = 0 then Some (- 1) else Option.bind (ms_to_ticks timeout_ms) (cadd now))"

definition is_deadline_reached :: "u64 \<Rightarrow> u64 \<Rightarrow> bool" where
  "is_deadline_reached now deadline = (if deadline = - 1 then False else now \<ge> deadline)"

section \<open>Sending and receiving\<close>

definition ipc_send :: "u64 \<Rightarrow> u64 \<Rightarrow> bytes \<Rightarrow> 's system \<Rightarrow> (SyscallError, unit) res \<times> 's system" where
  "ipc_send sender dest d s =
     (if \<not> task_exists dest (sch s) then (Err InvalidArgument, s)
      else
        let q = opt_list (ipc_queues s dest) @ [\<lparr>im_sender = sender, im_data = d\<rparr>];
            s = s\<lparr>ipc_queues := (ipc_queues s)(dest := Some q)\<rparr> in
        (Ok (), wake_if_waiting dest s))"

definition try_recv :: "u64 \<Rightarrow> 's system \<Rightarrow> IpcMessage option \<times> 's system" where
  "try_recv task_id s =
     (case ipc_queues s task_id of
        None \<Rightarrow> (None, s)
      | Some [] \<Rightarrow> (None, s)
      | Some (msg # q) \<Rightarrow> (Some msg, s\<lparr>ipc_queues := (ipc_queues s)(task_id := Some q)\<rparr>))"

definition try_recv_from :: "u64 \<Rightarrow> u64 \<Rightarrow> 's system \<Rightarrow> IpcMessage option \<times> 's system" where
  "try_recv_from task_id from_sender s =
     (case ipc_queues s task_id of
        None \<Rightarrow> (None, s)
      | Some q \<Rightarrow>
          (case position (\<lambda>msg. im_sender msg = from_sender) q of
             None \<Rightarrow> (None, s)
           | Some pos \<Rightarrow> (Some (q ! pos), s\<lparr>ipc_queues := (ipc_queues s)(task_id := Some (remove_nth pos q))\<rparr>)))"

definition send_with_handle :: "u64 \<Rightarrow> u64 \<Rightarrow> bytes \<Rightarrow> Handle \<Rightarrow> 's system \<Rightarrow> (SyscallError, unit) res \<times> 's system" where
  "send_with_handle sender dest d src_handle s =
     (if \<not> task_exists dest (sch s) then (Err InvalidArgument, s)
      else
        (case duplicate_handle src_handle (ker s) of (r, k) \<Rightarrow>
           let s = s\<lparr>ker := k\<rparr> in
           ok_then r s (\<lambda>dup_handle.
             let q = opt_list (handle_queues s dest) @ [\<lparr>hm_sender = sender, hm_data = d, hm_handle = dup_handle\<rparr>];
                 s = s\<lparr>handle_queues := (handle_queues s)(dest := Some q)\<rparr> in
             (Ok (), wake_if_waiting dest s))))"

definition try_recv_with_handle :: "u64 \<Rightarrow> 's system \<Rightarrow> IpcMessageWithHandle option \<times> 's system" where
  "try_recv_with_handle task_id s =
     (case handle_queues s task_id of
        None \<Rightarrow> (None, s)
      | Some [] \<Rightarrow> (None, s)
      | Some (msg # q) \<Rightarrow> (Some msg, s\<lparr>handle_queues := (handle_queues s)(task_id := Some q)\<rparr>))"

definition send_typed :: "nat \<Rightarrow> u64 \<Rightarrow> u64 \<Rightarrow> bytes \<Rightarrow> 's system \<Rightarrow> (SyscallError, unit) res \<times> 's system" where
  "send_typed ty sender dest d s =
     (if \<not> task_exists dest (sch s) then (Err InvalidArgument, s)
      else
        let entry = (case typed_queues s dest of Some e \<Rightarrow> e | None \<Rightarrow> \<lparr>tq_type = ty, tq_queue = []\<rparr>);
            s = s\<lparr>typed_queues := (typed_queues s)(dest := Some entry)\<rparr> in
        if tq_type entry \<noteq> ty then (Err InvalidArgument, s)
        else
          let entry = entry\<lparr>tq_queue := tq_queue entry @ [(ty, \<lparr>im_sender = sender, im_data = d\<rparr>)]\<rparr>;
              s = s\<lparr>typed_queues := (typed_queues s)(dest := Some entry)\<rparr> in
          (Ok (), wake_if_waiting dest s))"

definition try_recv_typed_once :: "nat \<Rightarrow> u64 \<Rightarrow> 's system \<Rightarrow> (SyscallError, IpcMessage option) res \<times> 's system" where
  "try_recv_typed_once ty task_id s =
     (case typed_queues s task_id of
        None \<Rightarrow> (Ok None, s)
      | Some entry \<Rightarrow>
          if tq_type entry \<noteq> ty then (Err InvalidArgument, s)
          else (case tq_queue entry of
             [] \<Rightarrow> (Ok None, s)
           | (t, msg) # q \<Rightarrow>
               (if t = ty then Ok (Some msg) else Err Other,
                s\<lparr>typed_queues := (typed_queues s)(task_id := Some (entry\<lparr>tq_queue := q\<rparr>))\<rparr>)))"

definition cancel_recv :: "u64 \<Rightarrow> 's system \<Rightarrow> (SyscallError, unit) res \<times> 's system" where
  "cancel_recv target s =
     (if \<not> task_exists target (sch s) then (Err InvalidArgument, s)
      else (Ok (), on_sched (wake_task target) (s\<lparr>ipc_cancelled := insert target (ipc_cancelled s)\<rparr>)))"

section \<open>Blocking receive\<close>

text \<open>
  The four blocking receives run the same loop around their \<^verbatim>\<open>try\<close> function, whose outcome is a message, nothing, or an error.
  \<open>recv_before\<close> is a round up to \<^verbatim>\<open>yield_now\<close>: a result, or \<open>None\<close> when the task goes to sleep. \<open>recv_after\<close> is the part after it.
\<close>

definition recv_before :: "('s system \<Rightarrow> (SyscallError, 'm option) res \<times> 's system) \<Rightarrow> u64 \<Rightarrow> u64 \<Rightarrow> 's system \<Rightarrow>
    (SyscallError, 'm) res option \<times> 's system" where
  "recv_before try_once task_id deadline s =
     (case try_once s of
        (Ok (Some msg), s) \<Rightarrow> (Some (Ok msg), s)
      | (Err e, s) \<Rightarrow> (Some (Err e), s)
      | (Panic, s) \<Rightarrow> (Some Panic, s)
      | (Ok None, s) \<Rightarrow>
          if is_deadline_reached (ticks s) deadline then (Some (Err Timeout), s)
          else
            let s = on_sched (set_current_sleeping deadline) (s\<lparr>ipc_waiters := insert task_id (ipc_waiters s)\<rparr>) in
            (case try_once s of
               (Ok None, s) \<Rightarrow> (None, s)
             | (r, s) \<Rightarrow>
                 (Some (case r of Ok (Some msg) \<Rightarrow> Ok msg | Err e \<Rightarrow> Err e | _ \<Rightarrow> Panic),
                  (on_sched (wake_task task_id) s)\<lparr>ipc_waiters := ipc_waiters s - {task_id}\<rparr>)))"

definition recv_after :: "u64 \<Rightarrow> 's system \<Rightarrow> bool \<times> 's system" where
  "recv_after task_id s =
     (let s = s\<lparr>ipc_waiters := ipc_waiters s - {task_id}\<rparr> in
      (task_id \<in> ipc_cancelled s, s\<lparr>ipc_cancelled := ipc_cancelled s - {task_id}\<rparr>))"

partial_function (option) recv_loop ::
  "(nat \<Rightarrow> 's system \<Rightarrow> 's system) \<Rightarrow> ('s system \<Rightarrow> (SyscallError, 'm option) res \<times> 's system) \<Rightarrow> u64 \<Rightarrow> u64 \<Rightarrow> nat \<Rightarrow> 's system \<Rightarrow>
     ((SyscallError, 'm) res \<times> 's system) option" where
  "recv_loop env try_once task_id deadline i s =
     (case recv_before try_once task_id deadline s of
        (Some r, s) \<Rightarrow> Some (r, s)
      | (None, s) \<Rightarrow>
          (case recv_after task_id (env i s) of
             (cancelled, s) \<Rightarrow>
               if cancelled then Some (Err Cancelled, s)
               else recv_loop env try_once task_id deadline (Suc i) s))"

definition some_try :: "('s system \<Rightarrow> 'm option \<times> 's system) \<Rightarrow> 's system \<Rightarrow> (SyscallError, 'm option) res \<times> 's system" where
  "some_try f s = (case f s of (m, s) \<Rightarrow> (Ok m, s))"

definition recv_with_timeout ::
  "(nat \<Rightarrow> 's system \<Rightarrow> 's system) \<Rightarrow> ('s system \<Rightarrow> (SyscallError, 'm option) res \<times> 's system) \<Rightarrow> u64 \<Rightarrow> u64 \<Rightarrow> 's system \<Rightarrow>
     ((SyscallError, 'm) res \<times> 's system) option" where
  "recv_with_timeout env try_once task_id timeout_ms s =
     (if timeout_ms = 0 then
        (case try_once s of
           (Ok (Some msg), s) \<Rightarrow> Some (Ok msg, s)
         | (Ok None, s) \<Rightarrow> Some (Err Timeout, s)
         | (Err e, s) \<Rightarrow> Some (Err e, s)
         | (Panic, s) \<Rightarrow> Some (Panic, s))
      else case calc_wake_at (ticks s) timeout_ms of
        None \<Rightarrow> Some (Panic, s)
      | Some deadline \<Rightarrow> recv_loop env try_once task_id deadline 0 s)"

definition recv :: "(nat \<Rightarrow> 's system \<Rightarrow> 's system) \<Rightarrow> u64 \<Rightarrow> u64 \<Rightarrow> 's system \<Rightarrow> ((SyscallError, IpcMessage) res \<times> 's system) option" where
  "recv env task_id timeout_ms s = recv_with_timeout env (some_try (try_recv task_id)) task_id timeout_ms s"

definition recv_from :: "(nat \<Rightarrow> 's system \<Rightarrow> 's system) \<Rightarrow> u64 \<Rightarrow> u64 \<Rightarrow> u64 \<Rightarrow> 's system \<Rightarrow> ((SyscallError, IpcMessage) res \<times> 's system) option" where
  "recv_from env task_id from_sender timeout_ms s =
     recv_with_timeout env (some_try (try_recv_from task_id from_sender)) task_id timeout_ms s"

definition recv_typed :: "(nat \<Rightarrow> 's system \<Rightarrow> 's system) \<Rightarrow> nat \<Rightarrow> u64 \<Rightarrow> u64 \<Rightarrow> 's system \<Rightarrow> ((SyscallError, IpcMessage) res \<times> 's system) option" where
  "recv_typed env ty task_id timeout_ms s = recv_with_timeout env (try_recv_typed_once ty task_id) task_id timeout_ms s"

definition recv_with_handle :: "(nat \<Rightarrow> 's system \<Rightarrow> 's system) \<Rightarrow> u64 \<Rightarrow> 's system \<Rightarrow> ((SyscallError, IpcMessageWithHandle) res \<times> 's system) option" where
  "recv_with_handle env task_id s = recv_loop env (some_try (try_recv_with_handle task_id)) task_id (- 1) 0 s"

section \<open>Ending a task\<close>

definition close_all :: "'s mounts \<Rightarrow> IpcMessageWithHandle list \<Rightarrow> 's kernel \<Rightarrow> 's kernel" where
  "close_all m q k = fold (\<lambda>msg k. snd (handle_close m (hm_handle msg) k)) q k"

definition cleanup_task :: "'s mounts \<Rightarrow> u64 \<Rightarrow> 's system \<Rightarrow> 's system" where
  "cleanup_task m task_id s =
     (let s = s\<lparr>ipc_queues := (ipc_queues s)(task_id := None), typed_queues := (typed_queues s)(task_id := None)\<rparr>;
          q = opt_list (handle_queues s task_id);
          s = s\<lparr>handle_queues := (handle_queues s)(task_id := None), ker := close_all m q (ker s)\<rparr>
      in s\<lparr>ipc_waiters := ipc_waiters s - {task_id}, ipc_cancelled := ipc_cancelled s - {task_id}\<rparr>)"

definition release_keyboard :: "u64 \<Rightarrow> 's system \<Rightarrow> 's system" where
  "release_keyboard task_id s = (if kbd_focus s = task_id then s\<lparr>kbd_focus := 0\<rparr> else s)"

text \<open>Freeing a process is outside this model: the page table frames handed to \<^verbatim>\<open>destroy_user_process\<close> are recorded.\<close>

definition release_process :: "u64 option \<Rightarrow> 's system \<Rightarrow> 's system" where
  "release_process p s = (case p of None \<Rightarrow> s | Some f \<Rightarrow> s\<lparr>destroyed := f # destroyed s\<rparr>)"

definition kill_task :: "'s mounts \<Rightarrow> u64 \<Rightarrow> 's system \<Rightarrow> (string, unit) res \<times> 's system" where
  "kill_task m task_id s =
     (case kill_mark task_id (sch s) of (r, sc) \<Rightarrow>
        ok_then r (s\<lparr>sch := sc\<rparr>) (\<lambda>p.
          (Ok (), release_process p (cleanup_task m task_id (release_keyboard task_id (s\<lparr>sch := sc\<rparr>))))))"

definition close_opt :: "'s mounts \<Rightarrow> Handle option \<Rightarrow> 's system \<Rightarrow> 's system" where
  "close_opt m h s = (case h of None \<Rightarrow> s | Some h \<Rightarrow> s\<lparr>ker := snd (handle_close m h (ker s))\<rparr>)"

definition user_task_exit_handler :: "'s mounts \<Rightarrow> 's system \<Rightarrow> 's system" where
  "user_task_exit_handler m s =
     (case exit_mark (sch s) of ((p, task_id, is_leader, hin, hout), sc) \<Rightarrow>
        let s = s\<lparr>sch := sc\<rparr>;
            s = (if is_leader then on_sched (kill_all_threads_of_leader task_id) s else s);
            s = cleanup_task m task_id (release_keyboard task_id s);
            s = close_opt m hout (close_opt m hin s)
        in on_sched (\<lambda>c. snd (yield_now c)) (release_process p s))"

definition thread_exit_handler :: "'s mounts \<Rightarrow> 's system \<Rightarrow> 's system" where
  "thread_exit_handler m s =
     (case thread_exit_mark (sch s) of (task_id, sc) \<Rightarrow>
        on_sched (\<lambda>c. snd (yield_now c)) (cleanup_task m task_id (release_keyboard task_id (s\<lparr>sch := sc\<rparr>))))"

definition task_exit_handler :: "'s mounts \<Rightarrow> 's system \<Rightarrow> 's system" where
  "task_exit_handler m s =
     (let task_id = tid (cur_task (sch s)); s = on_sched (\<lambda>c. set_state Finished (current c) c) s in
      on_sched (\<lambda>c. snd (yield_now c)) (cleanup_task m task_id (release_keyboard task_id s)))"

definition abort_current_user_task_from_exception :: "'s mounts \<Rightarrow> 's system \<Rightarrow> 's system" where
  "abort_current_user_task_from_exception m s =
     (case abort_mark (sch s) of ((p, task_id), sc) \<Rightarrow>
        release_process p (cleanup_task m task_id (release_keyboard task_id (s\<lparr>sch := sc\<rparr>))))"

section \<open>Futexes\<close>

definition FUTEX_WAIT :: u64 where "FUTEX_WAIT = 0"
definition FUTEX_WAKE :: u64 where "FUTEX_WAKE = 1"

text \<open>
  \<^verbatim>\<open>futex_wait\<close> up to \<^verbatim>\<open>yield_now\<close>, with the value at the address and the kernel's own page table as arguments, and the part after it.
\<close>

definition futex_wait_before :: "u64 \<Rightarrow> u32 \<Rightarrow> u64 \<Rightarrow> u32 \<Rightarrow> u64 \<Rightarrow> 's system \<Rightarrow> (SyscallError, u64 \<times> u64) res \<times> 's system" where
  "futex_wait_before kernel_cr3 current_val addr expected timeout_ms s =
     (if current_val \<noteq> expected then (Err Other, s)
      else
        let task_id = current_task_id (sch s); cr3 = current_task_cr3 kernel_cr3 (sch s);
            s = s\<lparr>futex_table := (futex_table s)((cr3, addr) := Some (opt_list (futex_table s (cr3, addr)) @ [task_id]))\<rparr> in
        ok_then (or_panic (calc_wake_at (ticks s) timeout_ms)) s (\<lambda>wake_at.
          (Ok (task_id, cr3), on_sched (set_current_sleeping wake_at) s)))"

definition futex_wait_after :: "u64 \<Rightarrow> u64 \<Rightarrow> u64 \<Rightarrow> 's system \<Rightarrow> 's system" where
  "futex_wait_after task_id cr3 addr s =
     (case futex_table s (cr3, addr) of
        None \<Rightarrow> s
      | Some waiters \<Rightarrow>
          let waiters = filter (\<lambda>i. i \<noteq> task_id) waiters in
          s\<lparr>futex_table := (futex_table s)((cr3, addr) := (if waiters = [] then None else Some waiters))\<rparr>)"

definition futex_wait :: "('s system \<Rightarrow> 's system) \<Rightarrow> u64 \<Rightarrow> u32 \<Rightarrow> u64 \<Rightarrow> u32 \<Rightarrow> u64 \<Rightarrow> 's system \<Rightarrow> (SyscallError, u64) res \<times> 's system" where
  "futex_wait env kernel_cr3 current_val addr expected timeout_ms s =
     (case futex_wait_before kernel_cr3 current_val addr expected timeout_ms s of (r, s) \<Rightarrow>
        ok_then r s (\<lambda>(task_id, cr3). (Ok 0, futex_wait_after task_id cr3 addr (env s))))"

definition futex_wake :: "u64 \<Rightarrow> u64 \<Rightarrow> u32 \<Rightarrow> 's system \<Rightarrow> (SyscallError, u64) res \<times> 's system" where
  "futex_wake kernel_cr3 addr cnt s =
     (let cr3 = current_task_cr3 kernel_cr3 (sch s) in
      case futex_table s (cr3, addr) of
        None \<Rightarrow> (Ok 0, s)
      | Some waiters \<Rightarrow>
          let wake_count = min (unat cnt) (length waiters);
              to_wake = take wake_count waiters; waiters = drop wake_count waiters;
              s = s\<lparr>futex_table := (futex_table s)((cr3, addr) := (if waiters = [] then None else Some waiters))\<rparr> in
          (Ok (of_nat (length to_wake)), on_sched (fold wake_task to_wake) s))"

section \<open>Message order\<close>

text \<open>
  One operation on the queues, with the plain messages it accepted and handed out, each with the receiving task.
\<close>

datatype ipc_op =
    ISend u64 u64 bytes | IRecv u64 | IRecvFrom u64 u64 | ICancel u64
  | ISendTyped nat u64 u64 bytes | IRecvTyped nat u64
  | ISendHandle u64 u64 bytes Handle | IRecvHandle u64

type_synonym mail = "(u64 \<times> IpcMessage) list"

fun got :: "u64 \<Rightarrow> IpcMessage option \<Rightarrow> mail" where
  "got t None = []"
| "got t (Some msg) = [(t, msg)]"

fun ipc_exec :: "ipc_op \<Rightarrow> 's system \<Rightarrow> mail \<times> mail \<times> 's system" where
  "ipc_exec (ISend a d b) s =
     (case ipc_send a d b s of (r, s) \<Rightarrow> (if is_Ok r then [(d, \<lparr>im_sender = a, im_data = b\<rparr>)] else [], [], s))"
| "ipc_exec (IRecv t) s = (case try_recv t s of (r, s) \<Rightarrow> ([], got t r, s))"
| "ipc_exec (IRecvFrom t a) s = (case try_recv_from t a s of (r, s) \<Rightarrow> ([], got t r, s))"
| "ipc_exec (ICancel t) s = ([], [], snd (cancel_recv t s))"
| "ipc_exec (ISendTyped ty a d b) s = ([], [], snd (send_typed ty a d b s))"
| "ipc_exec (IRecvTyped ty t) s = ([], [], snd (try_recv_typed_once ty t s))"
| "ipc_exec (ISendHandle a d b h) s = ([], [], snd (send_with_handle a d b h s))"
| "ipc_exec (IRecvHandle t) s = ([], [], snd (try_recv_with_handle t s))"

fun ipc_run :: "ipc_op list \<Rightarrow> 's system \<Rightarrow> mail \<times> mail \<times> 's system" where
  "ipc_run [] s = ([], [], s)"
| "ipc_run (p # ps) s =
     (case ipc_exec p s of (sent, rcvd, s) \<Rightarrow>
        case ipc_run ps s of (sent', rcvd', s) \<Rightarrow> (sent @ sent', rcvd @ rcvd', s))"

definition addressed :: "u64 \<Rightarrow> mail \<Rightarrow> IpcMessage list" where
  "addressed d ms = map snd (filter (\<lambda>p. fst p = d) ms)"

definition from_sender :: "u64 \<Rightarrow> IpcMessage list \<Rightarrow> IpcMessage list" where
  "from_sender a q = filter (\<lambda>msg. im_sender msg = a) q"

fun selective :: "ipc_op \<Rightarrow> bool" where
  "selective (IRecvFrom t a) = True"
| "selective _ = False"

abbreviation queue_of :: "'s system \<Rightarrow> u64 \<Rightarrow> IpcMessage list" where
  "queue_of s d \<equiv> opt_list (ipc_queues s d)"

lemma opt_list_simps [simp]: "opt_list None = []" "opt_list (Some xs) = xs"
  by (simp_all add: opt_list_def)

lemma on_sched_simps [simp]:
  "ipc_queues (on_sched f s) = ipc_queues s" "typed_queues (on_sched f s) = typed_queues s"
  "handle_queues (on_sched f s) = handle_queues s" "ipc_waiters (on_sched f s) = ipc_waiters s"
  "ipc_cancelled (on_sched f s) = ipc_cancelled s" "ker (on_sched f s) = ker s" "ticks (on_sched f s) = ticks s"
  "futex_table (on_sched f s) = futex_table s" "kbd_focus (on_sched f s) = kbd_focus s" "sch (on_sched f s) = f (sch s)"
  by (simp_all add: on_sched_def)

lemma wake_if_waiting_simps [simp]:
  "ipc_queues (wake_if_waiting d s) = ipc_queues s" "typed_queues (wake_if_waiting d s) = typed_queues s"
  "handle_queues (wake_if_waiting d s) = handle_queues s" "ker (wake_if_waiting d s) = ker s"
  "ipc_waiters (wake_if_waiting d s) = ipc_waiters s" "ipc_cancelled (wake_if_waiting d s) = ipc_cancelled s"
  by (simp_all add: wake_if_waiting_def)

lemma addressed_simps [simp]:
  "addressed d [] = []" "addressed d ((t, msg) # ms) = (if t = d then msg # addressed d ms else addressed d ms)"
  "addressed d (ms @ ms') = addressed d ms @ addressed d ms'"
  by (simp_all add: addressed_def)

lemma from_sender_simps [simp]:
  "from_sender a [] = []" "from_sender a (msg # q) = (if im_sender msg = a then msg # from_sender a q else from_sender a q)"
  "from_sender a (q @ q') = from_sender a q @ from_sender a q'"
  by (simp_all add: from_sender_def)

lemma other_queues [simp]:
  "ipc_queues (snd (cancel_recv t s)) = ipc_queues s" "ipc_queues (snd (send_typed ty a d b s)) = ipc_queues s"
  "ipc_queues (snd (try_recv_typed_once ty t s)) = ipc_queues s" "ipc_queues (snd (try_recv_with_handle t s)) = ipc_queues s"
  by (auto simp: cancel_recv_def send_typed_def try_recv_typed_once_def try_recv_with_handle_def Let_def split: option.split list.split)

lemma send_with_handle_queues [simp]: "ipc_queues (snd (send_with_handle a d b h s)) = ipc_queues s"
proof (cases "duplicate_handle h (ker s)")
  case (Pair r k)
  then show ?thesis by (cases r) (simp_all add: send_with_handle_def Let_def)
qed

text \<open>Taking the first message of a sender out of a queue.\<close>

lemma take_first_of:
  assumes "position (\<lambda>msg. im_sender msg = b) q = Some i"
  shows "from_sender a q = (if a = b then q ! i # from_sender a (remove_nth i q) else from_sender a (remove_nth i q))"
proof -
  from position_SomeD [OF assms] have i: "i < length q" "im_sender (q ! i) = b" "\<forall>j<i. im_sender (q ! j) \<noteq> b" by auto
  have "im_sender x \<noteq> b" if x: "x \<in> set (take i q)" for x
  proof -
    from x i(1) obtain j where "j < i" "x = q ! j" by (auto simp: in_set_conv_nth)
    with i(3) show ?thesis by blast
  qed
  then have "filter (\<lambda>msg. im_sender msg = b) (take i q) = []" by (simp add: filter_empty_conv)
  then have "from_sender b (take i q) = []" by (simp add: from_sender_def)
  with i show ?thesis
    by (subst id_take_nth_drop [OF i(1)]) (auto simp: remove_nth_def)
qed

lemma exec_order:
  "ipc_exec p s = (sent, rcvd, s') \<Longrightarrow>
     from_sender a (addressed d rcvd) @ from_sender a (queue_of s' d) = from_sender a (queue_of s d) @ from_sender a (addressed d sent)"
proof (cases p)
  case (IRecvFrom t b)
  moreover assume "ipc_exec p s = (sent, rcvd, s')"
  ultimately show ?thesis
    using take_first_of [of b "queue_of s t" _ a] position_SomeD [of "\<lambda>msg. im_sender msg = b" "queue_of s t"]
    by (auto simp: try_recv_from_def split: option.splits if_splits)
qed (auto simp: ipc_send_def try_recv_def Let_def split: option.splits list.splits if_splits)

lemma exec_order_plain:
  "ipc_exec p s = (sent, rcvd, s') \<Longrightarrow> \<not> selective p \<Longrightarrow> addressed d rcvd @ queue_of s' d = queue_of s d @ addressed d sent"
  by (cases p) (auto simp: ipc_send_def try_recv_def Let_def split: option.splits list.splits if_splits)

lemma run_order:
  "ipc_run ps s = (sent, rcvd, s') \<Longrightarrow>
     from_sender a (addressed d rcvd) @ from_sender a (queue_of s' d) = from_sender a (queue_of s d) @ from_sender a (addressed d sent)"
proof (induction ps arbitrary: s sent rcvd)
  case (Cons p ps)
  obtain x y t where e: "ipc_exec p s = (x, y, t)" by (cases "ipc_exec p s") auto
  obtain x' y' u where r: "ipc_run ps t = (x', y', u)" by (cases "ipc_run ps t") auto
  from Cons.prems e r have eqs: "sent = x @ x'" "rcvd = y @ y'" "s' = u" by auto
  from exec_order [OF e, of a d] Cons.IH [OF r [folded eqs(3)]] show ?case
    unfolding eqs addressed_simps from_sender_simps by (metis append.assoc)
qed simp

lemma run_order_plain:
  "ipc_run ps s = (sent, rcvd, s') \<Longrightarrow> \<forall>p\<in>set ps. \<not> selective p \<Longrightarrow>
     addressed d rcvd @ queue_of s' d = queue_of s d @ addressed d sent"
proof (induction ps arbitrary: s sent rcvd)
  case (Cons p ps)
  obtain x y t where e: "ipc_exec p s = (x, y, t)" by (cases "ipc_exec p s") auto
  obtain x' y' u where r: "ipc_run ps t = (x', y', u)" by (cases "ipc_run ps t") auto
  from Cons.prems e r have eqs: "sent = x @ x'" "rcvd = y @ y'" "s' = u" by auto
  from Cons.prems(2) have "\<not> selective p" "\<forall>p\<in>set ps. \<not> selective p" by auto
  from exec_order_plain [OF e this(1), of d] Cons.IH [OF r [folded eqs(3)] this(2)] show ?case
    unfolding eqs addressed_simps from_sender_simps by (metis append.assoc)
qed simp

text \<open>
  C26: messages are neither lost, duplicated nor reordered. For every task \<open>d\<close> and sender \<open>a\<close>, after any sequence of sends, plain and
  selective receives, cancellations, typed messages and messages with handles, what \<open>d\<close> has received from \<open>a\<close> followed by what is still
  queued is what was queued before followed by what was accepted, in order. Without selective receives the order holds across all senders.
\<close>

theorem ipc_order:
  assumes "ipc_run ps s = (sent, rcvd, s')"
  shows "from_sender a (addressed d rcvd) @ from_sender a (queue_of s' d) = from_sender a (queue_of s d) @ from_sender a (addressed d sent) \<and>
    ((\<forall>p\<in>set ps. \<not> selective p) \<longrightarrow> addressed d rcvd @ queue_of s' d = queue_of s d @ addressed d sent)"
  using run_order [OF assms] run_order_plain [OF assms] by blast

definition start_system :: "'s \<Rightarrow> 's system" where
  "start_system st =
     \<lparr>sch = snd (spawn ''worker'' boot), ker = empty_kernel st, ticks = 0, kbd_focus = 0, ipc_queues = (\<lambda>_. None),
      typed_queues = (\<lambda>_. None), handle_queues = (\<lambda>_. None), ipc_waiters = {}, ipc_cancelled = {}, futex_table = (\<lambda>_. None), destroyed = []\<rparr>"

theorem ipc_order_witness:
  "let r = ipc_run [ISend 0 1 [7], ISend 1 1 [8], IRecvFrom 1 1, IRecv 1] (start_system ()) in
   map (im_data \<circ> snd) (fst (snd r)) = [[8], [7]] \<and>
   from_sender 0 (addressed 1 (fst (snd r))) @ from_sender 0 (queue_of (snd (snd r)) 1) =
     from_sender 0 (queue_of (start_system ()) 1) @ from_sender 0 (addressed 1 (fst r))"
proof -
  let ?r = "ipc_run [ISend 0 1 [7], ISend 1 1 [8], IRecvFrom 1 1, IRecv 1] (start_system ())"
  have "map (im_data \<circ> snd) (fst (snd ?r)) = [[8], [7]]" by code_simp
  moreover have "?r = (fst ?r, fst (snd ?r), snd (snd ?r))" by simp
  from ipc_order [OF this, of 0 1] have "from_sender 0 (addressed 1 (fst (snd ?r))) @ from_sender 0 (queue_of (snd (snd ?r)) 1) =
     from_sender 0 (queue_of (start_system ()) 1) @ from_sender 0 (addressed 1 (fst ?r))" by blast
  ultimately show ?thesis unfolding Let_def by blast
qed

section \<open>Blocking receive\<close>

text \<open>
  What the blocking loop relies on: \<open>avail\<close> says what a try would return, a try without outcome changes nothing, and neither the
  scheduler nor the bookkeeping of waiters matters to it.
\<close>

fun recv_round :: "(nat \<Rightarrow> 's system \<Rightarrow> 's system) \<Rightarrow> ('s system \<Rightarrow> (SyscallError, 'm option) res \<times> 's system) \<Rightarrow> u64 \<Rightarrow> u64 \<Rightarrow>
    's system \<Rightarrow> nat \<Rightarrow> 's system" where
  "recv_round env try_once t deadline s 0 = s"
| "recv_round env try_once t deadline s (Suc n) =
     snd (recv_after t (env n (snd (recv_before try_once t deadline (recv_round env try_once t deadline s n)))))"

locale receiver =
  fixes try_once :: "'s system \<Rightarrow> (SyscallError, 'm option) res \<times> 's system"
    and avail :: "'s system \<Rightarrow> (SyscallError, 'm) res option"
  assumes take_none: "avail s = None \<Longrightarrow> try_once s = (Ok None, s)"
    and take_some: "avail s = Some r \<Longrightarrow> fst (try_once s) = map_res id Some r \<and> r \<noteq> Panic"
    and avail_sched: "avail (on_sched f s) = avail s"
    and avail_waiters: "avail (s\<lparr>ipc_waiters := w\<rparr>) = avail s"
begin

lemma before_avail:
  assumes "avail s = Some r"
  shows "fst (recv_before try_once t deadline s) = Some r"
proof -
  obtain s' where "try_once s = (map_res id Some r, s')" "r \<noteq> Panic" using take_some [OF assms] by (cases "try_once s") auto
  then show ?thesis by (cases r) (simp_all add: recv_before_def)
qed

lemma before_sleeps:
  assumes "avail s = None"
  shows "recv_before try_once t deadline s =
    (if is_deadline_reached (ticks s) deadline then (Some (Err Timeout), s)
     else (None, on_sched (set_current_sleeping deadline) (s\<lparr>ipc_waiters := insert t (ipc_waiters s)\<rparr>)))"
proof -
  have "avail (on_sched (set_current_sleeping deadline) (s\<lparr>ipc_waiters := insert t (ipc_waiters s)\<rparr>)) = None"
    using assms by (simp add: avail_sched avail_waiters)
  then show ?thesis using take_none assms by (simp add: recv_before_def)
qed

lemma before_None:
  assumes "recv_before try_once t deadline s = (None, s1)"
  shows "avail s = None \<and> s1 = on_sched (set_current_sleeping deadline) (s\<lparr>ipc_waiters := insert t (ipc_waiters s)\<rparr>)"
proof (cases "avail s")
  case None
  with assms before_sleeps [OF None, of t deadline] show ?thesis by (simp split: if_splits)
next
  case (Some r)
  with assms before_avail [OF Some, of t deadline] show ?thesis by simp
qed

lemma before_Some:
  assumes "recv_before try_once t deadline s = (Some r, s1)"
  shows "r = Err Timeout \<or> avail s = Some r"
proof (cases "avail s")
  case None
  with assms before_sleeps [OF None, of t deadline] show ?thesis by (simp split: if_splits)
next
  case (Some r')
  with assms before_avail [OF Some, of t deadline] show ?thesis by simp
qed

lemma loop_returns_from:
  assumes "avail (recv_round env try_once t deadline s n) \<noteq> None" and "i \<le> n"
  shows "\<exists>r s'. recv_loop env try_once t deadline i (recv_round env try_once t deadline s i) = Some (r, s') \<and>
    (r = Err Timeout \<or> r = Err Cancelled \<or> (\<exists>u. avail u = Some r))"
  using assms(2)
proof (induction "n - i" arbitrary: i)
  case 0
  with assms(1) obtain r where r: "avail (recv_round env try_once t deadline s i) = Some r" by auto
  then have "fst (recv_before try_once t deadline (recv_round env try_once t deadline s i)) = Some r" by (rule before_avail)
  then obtain s' where "recv_before try_once t deadline (recv_round env try_once t deadline s i) = (Some r, s')"
    by (metis prod.collapse)
  then have "recv_loop env try_once t deadline i (recv_round env try_once t deadline s i) = Some (r, s')"
    by (subst recv_loop.simps) simp
  with r show ?case by blast
next
  case (Suc k)
  let ?s = "recv_round env try_once t deadline s i"
  show ?case
  proof (cases "recv_before try_once t deadline ?s")
    case (Pair o1 s1)
    show ?thesis
    proof (cases o1)
      case None
      obtain c s2 where a: "recv_after t (env i s1) = (c, s2)" by fastforce
      with Pair have s2: "s2 = recv_round env try_once t deadline s (Suc i)" by simp
      have eq: "recv_loop env try_once t deadline i ?s =
          (if c then Some (Err Cancelled, s2) else recv_loop env try_once t deadline (Suc i) s2)"
        by (subst recv_loop.simps) (simp add: Pair None a)
      from Suc(2,3) have "k = n - Suc i" "Suc i \<le> n" by linarith+
      from Suc(1) [OF this] show ?thesis unfolding eq s2 by (cases c) simp_all
    next
      case (Some r)
      have eq: "recv_loop env try_once t deadline i ?s = Some (r, s1)"
        by (subst recv_loop.simps) (simp add: Pair Some)
      from before_Some [of t deadline ?s r s1] Pair Some show ?thesis unfolding eq by blast
    qed
  qed
qed

lemma timeout_returns:
  assumes "timeout_ms \<noteq> 0" and "calc_wake_at (ticks s) timeout_ms = Some deadline"
    and "avail (recv_round env try_once t deadline s n) \<noteq> None"
  shows "\<exists>r s'. recv_with_timeout env try_once t timeout_ms s = Some (r, s') \<and>
    (r = Err Timeout \<or> r = Err Cancelled \<or> (\<exists>u. avail u = Some r))"
  using loop_returns_from [OF assms(3), of 0] assms(1,2) by (simp add: recv_with_timeout_def)

end

definition plain_avail :: "u64 \<Rightarrow> 's system \<Rightarrow> (SyscallError, IpcMessage) res option" where
  "plain_avail t s = (case queue_of s t of [] \<Rightarrow> None | msg # q \<Rightarrow> Some (Ok msg))"

definition from_avail :: "u64 \<Rightarrow> u64 \<Rightarrow> 's system \<Rightarrow> (SyscallError, IpcMessage) res option" where
  "from_avail t a s = (case from_sender a (queue_of s t) of [] \<Rightarrow> None | msg # q \<Rightarrow> Some (Ok msg))"

definition handle_avail :: "u64 \<Rightarrow> 's system \<Rightarrow> (SyscallError, IpcMessageWithHandle) res option" where
  "handle_avail t s = (case opt_list (handle_queues s t) of [] \<Rightarrow> None | msg # q \<Rightarrow> Some (Ok msg))"

definition typed_avail :: "nat \<Rightarrow> u64 \<Rightarrow> 's system \<Rightarrow> (SyscallError, IpcMessage) res option" where
  "typed_avail ty t s =
     (case typed_queues s t of
        None \<Rightarrow> None
      | Some e \<Rightarrow> if tq_type e \<noteq> ty then Some (Err InvalidArgument)
          else (case tq_queue e of [] \<Rightarrow> None | (ty', msg) # q \<Rightarrow> Some (if ty' = ty then Ok msg else Err Other)))"

interpretation plain: receiver "some_try (try_recv t)" "plain_avail t"
  by unfold_locales (auto simp: some_try_def try_recv_def plain_avail_def split: option.splits list.splits)

lemma from_sender_position:
  "position (\<lambda>msg. im_sender msg = a) q = None \<longleftrightarrow> from_sender a q = []"
  by (auto simp: position_None_iff from_sender_def filter_empty_conv)

interpretation selected: receiver "some_try (try_recv_from t a)" "from_avail t a"
proof unfold_locales
  fix s :: "'s system" and r
  show "from_avail t a s = None \<Longrightarrow> some_try (try_recv_from t a) s = (Ok None, s)"
    using from_sender_position [of a "queue_of s t"]
    by (cases "ipc_queues s t") (simp_all add: from_avail_def some_try_def try_recv_from_def split: list.split_asm)
  show "from_avail t a s = Some r \<Longrightarrow> fst (some_try (try_recv_from t a) s) = map_res id Some r \<and> r \<noteq> Panic"
  proof (cases "position (\<lambda>msg. im_sender msg = a) (queue_of s t)")
    case None
    moreover assume "from_avail t a s = Some r"
    ultimately show ?thesis by (simp add: from_avail_def from_sender_position)
  next
    case (Some i)
    moreover from this obtain q where "ipc_queues s t = Some q" by (cases "ipc_queues s t") auto
    moreover assume "from_avail t a s = Some r"
    ultimately show ?thesis using take_first_of [OF Some, of a] by (auto simp: from_avail_def some_try_def try_recv_from_def)
  qed
qed (simp_all add: from_avail_def)

interpretation handed: receiver "some_try (try_recv_with_handle t)" "handle_avail t"
  by unfold_locales (auto simp: some_try_def try_recv_with_handle_def handle_avail_def split: option.splits list.splits)

interpretation typed: receiver "try_recv_typed_once ty t" "typed_avail ty t"
  by unfold_locales (auto simp: try_recv_typed_once_def typed_avail_def split: option.splits list.splits if_splits)



section \<open>No lost wake-up\<close>

lemma position_tid:
  assumes "sched_inv c" and "i < length (tasks c)"
  shows "position (\<lambda>t. tid t = tid (tasks c ! i)) (tasks c) = Some i"
proof (cases "position (\<lambda>t. tid t = tid (tasks c ! i)) (tasks c)")
  case None
  with assms(2) show ?thesis by (auto simp: position_None_iff)
next
  case (Some j)
  from position_SomeD [OF Some] have "j < length (tasks c)" "map tid (tasks c) ! j = map tid (tasks c) ! i" using assms(2) by auto
  with assms have "j = i" using nth_eq_iff_index_eq [of "map tid (tasks c)" j i] by (simp add: sched_inv_def)
  with Some show ?thesis by simp
qed

lemma inv_current: "sched_inv c \<Longrightarrow> current c < length (tasks c)"
  by (simp add: sched_inv_def)

lemma inv_sleeping: "sched_inv c \<Longrightarrow> sched_inv (set_current_sleeping w c)"
  unfolding set_current_sleeping_def by (rule inv_set_state) auto

lemma inv_wake: "sched_inv c \<Longrightarrow> sched_inv (wake_task t c)"
  by (auto simp: wake_task_def intro: inv_set_state split: option.split)

lemma wake_at:
  assumes "sched_inv c" and "i < length (tasks c)" and "tid (tasks c ! i) = t"
  shows "tasks (wake_task t c) ! i = (tasks c ! i)\<lparr>tstate := if is_sleeping (tstate (tasks c ! i)) then Ready else tstate (tasks c ! i)\<rparr>"
  using position_tid [OF assms(1,2)] assms(2,3) by (auto simp: wake_task_def set_state_def)

definition send_all :: "u64 \<Rightarrow> (u64 \<times> bytes) list \<Rightarrow> 's system \<Rightarrow> 's system" where
  "send_all t msgs s = fold (\<lambda>(a, b) s. snd (ipc_send a t b s)) msgs s"

lemma sends_reach:
  assumes "sched_inv (sch s)" and "i < length (tasks (sch s))" and "tid (tasks (sch s) ! i) = t" and "t \<in> ipc_waiters s"
    and "is_sleeping (tstate (tasks (sch s) ! i)) \<or> tstate (tasks (sch s) ! i) = Ready"
  shows "queue_of (send_all t msgs s) t = queue_of s t @ map (\<lambda>(a, b). \<lparr>im_sender = a, im_data = b\<rparr>) msgs \<and>
    (msgs \<noteq> [] \<longrightarrow> tstate (tasks (sch (send_all t msgs s)) ! i) = Ready)"
  using assms
proof (induction msgs arbitrary: s)
  case Nil
  then show ?case by (simp add: send_all_def)
next
  case (Cons m msgs)
  obtain a b where m: "m = (a, b)" by (cases m)
  let ?s = "snd (ipc_send a t b s)"
  have "tstate (tasks (sch s) ! i) \<noteq> Finished" using Cons.prems(5) by (auto simp: is_sleeping_def)
  then have "task_exists t (sch s)" using Cons.prems(2,3) unfolding task_exists_def by (metis nth_mem)
  then have s: "queue_of ?s t = queue_of s t @ [\<lparr>im_sender = a, im_data = b\<rparr>]" "ipc_waiters ?s = ipc_waiters s"
    "sch ?s = wake_task t (sch s)"
    using Cons.prems(4) by (simp_all add: ipc_send_def Let_def wake_if_waiting_def)
  have r: "tstate (tasks (sch ?s) ! i) = Ready" "tid (tasks (sch ?s) ! i) = t"
    using wake_at [OF Cons.prems(1-3)] Cons.prems(3,5) by (auto simp: s(3))
  have l: "i < length (tasks (sch ?s))" using table_kept_wake [of "sch s" t] Cons.prems(2) s(3) by (simp add: table_kept_nth)
  from Cons.IH [of ?s] inv_wake [OF Cons.prems(1)] s r l Cons.prems(4)
  have "queue_of (send_all t msgs ?s) t = queue_of ?s t @ map (\<lambda>(a, b). \<lparr>im_sender = a, im_data = b\<rparr>) msgs"
    and "msgs \<noteq> [] \<longrightarrow> tstate (tasks (sch (send_all t msgs ?s)) ! i) = Ready" by simp_all
  with s(1) r(1) show ?case by (cases "msgs = []") (simp_all add: send_all_def m)
qed



section \<open>Typed messages\<close>

definition typed_ok :: "'s system \<Rightarrow> bool" where
  "typed_ok s \<longleftrightarrow> (\<forall>t e. typed_queues s t = Some e \<longrightarrow> (\<forall>p\<in>set (tq_queue e). fst p = tq_type e))"

lemma typed_other [simp]:
  "typed_queues (snd (ipc_send a d b s)) = typed_queues s" "typed_queues (snd (try_recv t s)) = typed_queues s"
  "typed_queues (snd (try_recv_from t a s)) = typed_queues s" "typed_queues (snd (cancel_recv t s)) = typed_queues s"
  "typed_queues (snd (try_recv_with_handle t s)) = typed_queues s"
  by (auto simp: ipc_send_def try_recv_def try_recv_from_def cancel_recv_def try_recv_with_handle_def Let_def
    split: option.split list.split)

lemma typed_send_with_handle [simp]: "typed_queues (snd (send_with_handle a d b h s)) = typed_queues s"
proof (cases "duplicate_handle h (ker s)")
  case (Pair r k)
  then show ?thesis by (cases r) (simp_all add: send_with_handle_def Let_def)
qed

lemma typed_ok_send: "typed_ok s \<Longrightarrow> typed_ok (snd (send_typed ty a d b s))"
  unfolding typed_ok_def by (auto simp: send_typed_def Let_def split: option.splits if_splits)

lemma typed_ok_recv: "typed_ok s \<Longrightarrow> typed_ok (snd (try_recv_typed_once ty t s))"
  unfolding typed_ok_def by (fastforce simp: try_recv_typed_once_def split: option.splits list.splits if_splits)

lemma typed_ok_exec: "typed_ok s \<Longrightarrow> typed_ok (snd (snd (ipc_exec p s)))"
  by (cases p) (simp_all add: typed_ok_send typed_ok_recv, simp_all add: typed_ok_def split: prod.split, (metis snd_conv typed_other)+)

lemma typed_ok_run: "typed_ok s \<Longrightarrow> typed_ok (snd (snd (ipc_run ps s)))"
proof (induction ps arbitrary: s)
  case (Cons p ps)
  from Cons.IH [OF typed_ok_exec [OF Cons.prems, of p]] show ?case by (auto split: prod.splits)
qed simp



section \<open>Futexes\<close>

text \<open>No key of the table has an empty list of waiters.\<close>

definition futex_ok :: "'s system \<Rightarrow> bool" where
  "futex_ok s \<longleftrightarrow> (\<forall>key. futex_table s key \<noteq> Some [])"

lemma futex_ok_wait_before: "futex_ok s \<Longrightarrow> futex_ok (snd (futex_wait_before kcr3 v addr e ms s))"
  by (cases "calc_wake_at (ticks s) ms") (auto simp: futex_wait_before_def futex_ok_def Let_def)

lemma futex_ok_wait_after: "futex_ok s \<Longrightarrow> futex_ok (futex_wait_after t cr3 addr s)"
  by (auto simp: futex_wait_after_def futex_ok_def Let_def split: option.split)

lemma futex_ok_wake: "futex_ok s \<Longrightarrow> futex_ok (snd (futex_wake kcr3 addr cnt s))"
  by (auto simp: futex_wake_def futex_ok_def Let_def split: option.split)

lemma length_wake [simp]: "length (tasks (wake_task t c)) = length (tasks c)"
  by (auto simp: wake_task_def set_state_def split: option.split)

lemma tid_wake: "i < length (tasks c) \<Longrightarrow> tid (tasks (wake_task t c) ! i) = tid (tasks c ! i)"
  by (auto simp: wake_task_def set_state_def nth_update_any split: option.split)

lemma wake_other:
  assumes "i < length (tasks c)" and "tid (tasks c ! i) \<noteq> t"
  shows "tasks (wake_task t c) ! i = tasks c ! i"
  using assms position_SomeD [of "\<lambda>u. tid u = t" "tasks c"] by (auto simp: wake_task_def set_state_def nth_update_any split: option.split)

lemma fold_wake:
  assumes "sched_inv c" and "i < length (tasks c)"
  shows "tasks (fold wake_task ts c) ! i =
    (tasks c ! i)\<lparr>tstate := if tid (tasks c ! i) \<in> set ts \<and> is_sleeping (tstate (tasks c ! i)) then Ready else tstate (tasks c ! i)\<rparr>"
  using assms
proof (induction ts arbitrary: c)
  case (Cons t ts)
  have i: "i < length (tasks (wake_task t c))" using Cons.prems(2) by simp
  show ?case
  proof (cases "tid (tasks c ! i) = t")
    case True
    with Cons.IH [OF inv_wake [OF Cons.prems(1)] i] wake_at [OF Cons.prems True] show ?thesis by (auto simp: is_sleeping_def)
  next
    case False
    with Cons.IH [OF inv_wake [OF Cons.prems(1)] i] wake_other [OF Cons.prems(2) False] show ?thesis by simp
  qed
qed simp


text \<open>Task 0 waits on a futex, task 1 runs.\<close>

definition futex_demo :: "unit system" where
  "futex_demo = on_sched (\<lambda>c. snd (yield_now c)) (snd (futex_wait_before 0 7 0x1000 7 0 (start_system ())))"

lemma futex_demo_reachable: "reachable (sch futex_demo)"
proof -
  let ?c = "snd (spawn ''worker'' boot)"
  have "sch (snd (futex_wait_before 0 7 0x1000 7 0 (start_system ()))) = set_current_sleeping (- 1) ?c"
    by (simp add: futex_wait_before_def calc_wake_at_def Let_def start_system_def)
  then have "sch futex_demo = snd (yield_now (set_current_sleeping (- 1) ?c))" by (simp add: futex_demo_def)
  moreover have "sched_step ?c (set_current_sleeping (- 1) ?c)" by (rule step_sleep) code_simp
  moreover have "sched_step (set_current_sleeping (- 1) ?c) (snd (yield_now (set_current_sleeping (- 1) ?c)))" by (rule step_yield)
  moreover have "sched_step\<^sup>*\<^sup>* boot ?c" using reachable_spawn by (simp add: reachable_def)
  ultimately show ?thesis unfolding reachable_def by (simp add: rtranclp.rtrancl_into_rtrancl)
qed


section \<open>Ending a task releases its messages\<close>

text \<open>Every pipe entry of the handle table names its pipe.\<close>

definition pipes_named :: "HandleEntry option list \<Rightarrow> bool" where
  "pipes_named t \<longleftrightarrow> (\<forall>i e. slot_get t i = Some e \<and> he_kind e \<in> {PipeRead, PipeWrite} \<longrightarrow> he_pipe_id e \<noteq> None)"

lemma pipes_named_insert: "pipes_named t \<Longrightarrow> (he_kind e \<in> {PipeRead, PipeWrite} \<Longrightarrow> he_pipe_id e \<noteq> None) \<Longrightarrow> pipes_named (snd (slot_insert e t))"
  unfolding pipes_named_def by (auto simp: slot_simps split: if_splits)

lemma pipes_named_inserted:
  "slot_insert e t = (i, t') \<Longrightarrow> pipes_named t \<Longrightarrow> (he_kind e \<in> {PipeRead, PipeWrite} \<Longrightarrow> he_pipe_id e \<noteq> None) \<Longrightarrow> pipes_named t'"
  using pipes_named_insert [of t e] by simp

lemma pipes_named_cap_step:
  assumes "cap_step t t'" and "pipes_named t"
  shows "pipes_named t'"
  unfolding pipes_named_def
proof (intro allI impI)
  fix i e
  assume e: "slot_get t' i = Some e \<and> he_kind e \<in> {PipeRead, PipeWrite}"
  then obtain j f where "slot_get t j = Some f" "derived_from e f" using cap_step_derived [OF assms(1)] by blast
  with e assms(2) show "he_pipe_id e \<noteq> None" unfolding pipes_named_def derived_from_def by force
qed

lemma pipes_named_exec:
  assumes "pipes_named (handles k)"
  shows "pipes_named (handles (handle_exec m p k))"
proof (cases "makes_object p")
  case False
  from pipes_named_cap_step [OF exec_cap_step [OF this] assms] show ?thesis .
next
  case True
  with assms show ?thesis
    by (cases p) (auto simp: create_handle_with_path_def create_directory_handle_def create_pipe_handles_def next_token_def insert_entry_def
      new_entry_def Let_def split: prod.splits, auto dest!: pipes_named_inserted)
qed

lemma pipes_named_run: "pipes_named (handles k) \<Longrightarrow> pipes_named (handles (handle_run m ops k))"
  unfolding handle_run_def by (induction ops arbitrary: k) (simp_all add: pipes_named_exec)

lemma get_entry_clear:
  "get_entry (t[i := None]) h = (if unat (hid h) = i then Err InvalidHandle else get_entry t h)"
  by (auto simp: get_entry_def slot_get_clear split: option.split)

lemma close_get_entry:
  assumes "pipes_named (handles k)"
  shows "get_entry (handles (snd (handle_close m h k))) h = Err InvalidHandle \<and> pipes_named (handles (snd (handle_close m h k))) \<and>
    (get_entry (handles k) g = Err InvalidHandle \<longrightarrow> get_entry (handles (snd (handle_close m h k))) g = Err InvalidHandle)"
proof (cases "get_entry (handles k) h")
  case (Ok e)
  then have "he_kind e \<in> {PipeRead, PipeWrite} \<longrightarrow> he_pipe_id e \<noteq> None"
    using assms unfolding pipes_named_def by (auto simp: get_entry_Ok_iff)
  from close_clears [OF Ok this, of m] have "handles (snd (handle_close m h k)) = (handles k)[unat (hid h) := None]" by simp
  moreover have "pipes_named ((handles k)[unat (hid h) := None])"
    using assms unfolding pipes_named_def by (auto simp: slot_simps split: if_splits)
  ultimately show ?thesis by (simp add: get_entry_clear)
next
  case (Err x)
  with get_entry_cases [of "handles k" h] assms show ?thesis by (auto simp: handle_close_def)
qed (simp add: get_entry_not_Panic)

lemma close_all_keeps:
  "pipes_named (handles k) \<Longrightarrow> get_entry (handles k) g = Err InvalidHandle \<Longrightarrow>
   pipes_named (handles (close_all m q k)) \<and> get_entry (handles (close_all m q k)) g = Err InvalidHandle"
proof (induction q arbitrary: k)
  case (Cons msg q)
  from Cons.IH close_get_entry [OF Cons.prems(1), of m "hm_handle msg" g] Cons.prems(2) show ?case by (simp add: close_all_def)
qed (simp add: close_all_def)

lemma close_all_closes:
  "pipes_named (handles k) \<Longrightarrow> msg \<in> set q \<Longrightarrow> get_entry (handles (close_all m q k)) (hm_handle msg) = Err InvalidHandle"
proof (induction q arbitrary: k)
  case (Cons x q)
  let ?k = "snd (handle_close m (hm_handle x) k)"
  have step: "close_all m (x # q) k = close_all m q ?k" by (simp add: close_all_def)
  note c = close_get_entry [OF Cons.prems(1), of m "hm_handle x"]
  show ?case
  proof (cases "msg = x")
    case True
    with c close_all_keeps [of ?k "hm_handle x" m q] show ?thesis unfolding step by simp
  next
    case False
    with Cons c show ?thesis unfolding step by simp
  qed
qed simp

lemma release_process_simps [simp]:
  "ipc_queues (release_process p s) = ipc_queues s" "typed_queues (release_process p s) = typed_queues s"
  "handle_queues (release_process p s) = handle_queues s" "ipc_waiters (release_process p s) = ipc_waiters s"
  "ipc_cancelled (release_process p s) = ipc_cancelled s" "ker (release_process p s) = ker s"
  "kbd_focus (release_process p s) = kbd_focus s" "sch (release_process p s) = sch s"
  by (simp_all add: release_process_def split: option.split)

lemma release_keyboard_simps [simp]:
  "ipc_queues (release_keyboard t s) = ipc_queues s" "typed_queues (release_keyboard t s) = typed_queues s"
  "handle_queues (release_keyboard t s) = handle_queues s" "ker (release_keyboard t s) = ker s"
  "sch (release_keyboard t s) = sch s" "t \<noteq> 0 \<Longrightarrow> kbd_focus (release_keyboard t s) \<noteq> t"
  by (simp_all add: release_keyboard_def)

lemma kill_mark_Ok:
  assumes "sched_inv c" and "kill_mark t c = (Ok p, c')"
  shows "\<not> task_exists t c'"
proof -
  from assms(2) obtain i where i: "position (\<lambda>u. tid u = t) (tasks c) = Some i"
    and c': "c' = c\<lparr>tasks := (tasks c)[i := (tasks c ! i)\<lparr>tstate := Finished, texit_code := - 1, tproc := None\<rparr>]\<rparr>"
    by (auto simp: kill_mark_def Let_def split: option.splits if_splits)
  have "j = i" if "j < length (tasks c)" "tid (tasks c ! j) = t" for j
    using position_tid [OF assms(1) that(1)] that(2) i by simp
  then have "tstate (tasks c' ! j) = Finished" if "j < length (tasks c')" "tid (tasks c' ! j) = t" for j
    using that position_SomeD [OF i] c' by (cases "j = i") simp_all
  then show ?thesis unfolding task_exists_def by (metis in_set_conv_nth)
qed

text \<open>
  C31: killing a task releases what was waiting for it. After a successful \<open>kill_task\<close> the task no longer exists and sending to it fails; it has no
  queue of any kind left, is neither waiting nor marked cancelled, and does not hold the keyboard; every handle that was on its way to it is closed;
  and the queues of all other tasks are as before.
\<close>

theorem killed_task_released:
  assumes "reachable (sch s)" and "ker s = handle_run m ops (empty_kernel st)" and "kill_task m t s = (Ok (), s')"
  shows "\<not> task_exists t (sch s') \<and> fst (ipc_send a t b s') = Err InvalidArgument \<and>
    ipc_queues s' t = None \<and> typed_queues s' t = None \<and> handle_queues s' t = None \<and> t \<notin> ipc_waiters s' \<and> t \<notin> ipc_cancelled s' \<and>
    (t \<noteq> 0 \<longrightarrow> kbd_focus s' \<noteq> t) \<and>
    (\<forall>msg\<in>set (opt_list (handle_queues s t)). get_entry (handles (ker s')) (hm_handle msg) = Err InvalidHandle) \<and>
    (\<forall>d. d \<noteq> t \<longrightarrow> ipc_queues s' d = ipc_queues s d \<and> typed_queues s' d = typed_queues s d \<and> handle_queues s' d = handle_queues s d)"
proof -
  have inv: "sched_inv (sch s)" using steps_inv [OF _ boot_inv] assms(1) by (simp add: reachable_def)
  have "pipes_named (handles (empty_kernel st))" by (simp add: pipes_named_def empty_kernel_def slot_get_def)
  with assms(2) have named: "pipes_named (handles (ker s))" by (simp add: pipes_named_run)
  obtain r c where k: "kill_mark t (sch s) = (r, c)" by fastforce
  with assms(3) obtain p where p: "r = Ok p" and
    s': "s' = release_process p (cleanup_task m t (release_keyboard t (s\<lparr>sch := c\<rparr>)))"
    by (cases r) (auto simp: kill_task_def)
  have gone: "\<not> task_exists t (sch s')"
    using kill_mark_Ok [OF inv k [unfolded p]] by (simp add: s' cleanup_task_def Let_def)
  moreover have "kbd_focus s' \<noteq> t" if "t \<noteq> 0" using that by (simp add: s' cleanup_task_def Let_def)
  moreover have "ker s' = close_all m (opt_list (handle_queues s t)) (ker s)" by (simp add: s' cleanup_task_def Let_def)
  ultimately show ?thesis using close_all_closes [OF named, of _ "opt_list (handle_queues s t)" m]
    by (simp add: ipc_send_def) (simp add: s' cleanup_task_def Let_def)
qed

text \<open>Task 1 holds the keyboard and has an unread message and an unread handle, a duplicate of the first one.\<close>

definition doomed :: "unit system" where
  "doomed = (start_system ())\<lparr>ker := handle_run [] [OCreate [1] 15 [], ODup \<lparr>hid = 0, htoken = 0x9E3779B97F4A7C15\<rparr>] (empty_kernel ()), kbd_focus := 1,
     ipc_queues := (\<lambda>_. None)(1 := Some [\<lparr>im_sender = 0, im_data = [8]\<rparr>]),
     handle_queues := (\<lambda>_. None)(1 := Some [\<lparr>hm_sender = 0, hm_data = [9], hm_handle = \<lparr>hid = 1, htoken = 2 * 0x9E3779B97F4A7C15\<rparr>\<rparr>])\<rparr>"

theorem killed_task_released_witness:
  "is_Ok (get_entry (handles (ker doomed)) \<lparr>hid = 1, htoken = 2 * 0x9E3779B97F4A7C15\<rparr>) \<and> fst (kill_task [] 1 doomed) = Ok () \<and>
   ipc_queues (snd (kill_task [] 1 doomed)) 1 = None \<and> kbd_focus (snd (kill_task [] 1 doomed)) \<noteq> 1 \<and>
   get_entry (handles (ker (snd (kill_task [] 1 doomed)))) \<lparr>hid = 1, htoken = 2 * 0x9E3779B97F4A7C15\<rparr> = Err InvalidHandle"
proof -
  have r: "reachable (sch doomed)" using reachable_spawn by (simp add: doomed_def start_system_def)
  have k: "ker doomed = handle_run [] [OCreate [1] 15 [], ODup \<lparr>hid = 0, htoken = 0x9E3779B97F4A7C15\<rparr>] (empty_kernel ())"
    by (simp add: doomed_def)
  have live: "is_Ok (get_entry (handles (ker doomed)) \<lparr>hid = 1, htoken = 2 * 0x9E3779B97F4A7C15\<rparr>)" by code_simp
  have ok: "fst (kill_task [] 1 doomed) = Ok ()" by code_simp
  then have "kill_task [] 1 doomed = (Ok (), snd (kill_task [] 1 doomed))" by (metis prod.collapse)
  from killed_task_released [OF r k this] live ok show ?thesis by (simp add: doomed_def)
qed

section \<open>A stale cancellation\<close>

text \<open>
  \<^verbatim>\<open>cancel_recv\<close> sets the flag of a task that is not receiving, and nothing clears it: the task's next blocking receive is cancelled, although it began
  long after and a message has arrived meanwhile.
\<close>

lemma stale_cancel_hits_later_receive:
  "map_option fst (recv (\<lambda>i s. snd (ipc_send 1 0 [5] s)) 0 1000 (snd (cancel_recv 0 (start_system ())))) = Some (Err Cancelled)"
proof -
  let ?s = "snd (cancel_recv 0 (start_system ()))" and ?attempt = "some_try (try_recv 0) :: unit system \<Rightarrow> _"
  let ?b = "recv_before ?attempt 0 18 ?s" and ?env = "\<lambda>s. snd (ipc_send 1 0 [5] s) :: unit system"
  have d: "calc_wake_at (ticks ?s) 1000 = Some 18" by code_simp
  have "fst ?b = None" by code_simp
  then obtain s1 where b: "?b = (None, s1)" by (metis prod.collapse)
  have "fst (recv_after 0 (?env (snd ?b)))" by code_simp
  then obtain s2 where a: "recv_after 0 (?env s1) = (True, s2)" unfolding b snd_conv by (cases "recv_after 0 (?env s1)") simp
  have "recv_loop (\<lambda>i. ?env) ?attempt 0 18 0 ?s = Some (Err Cancelled, s2)"
    by (subst recv_loop.simps) (simp only: b a prod.case option.case if_True)
  then show ?thesis by (simp add: recv_def recv_with_timeout_def d)
qed

end
