(* ===== verification/Syscall_Proc.thy ===== *)
theory Syscall_Proc
  imports Syscall_Fs Ipc
begin

text \<open>
  \<^verbatim>\<open>kernel/src/syscall/process.rs\<close>, \<^verbatim>\<open>kernel/src/syscall/ipc.rs\<close> and the thread and futex calls of \<^verbatim>\<open>kernel/src/syscall/misc.rs\<close>,
  over the system state and the memory of the calling process, and \<^verbatim>\<open>build_args_buffer\<close> of \<^verbatim>\<open>user/src/syscall.rs\<close>, the other side of the
  argument buffer. While a call waits, \<open>env i\<close> is what happens to the system and \<open>mx\<close> what other threads of the process do to the memory.
  \<open>load\<close> stands for \<^verbatim>\<open>usermode::create_elf_process\<close>: it maps the file, the arguments and the environment to a page table frame or an error.
\<close>

section \<open>Argument buffers\<close>

text \<open>The loop of \<^verbatim>\<open>parse_args_buffer\<close>, from \<open>offset\<close> on.\<close>

function parse_args :: "bytes \<Rightarrow> nat \<Rightarrow> string list \<Rightarrow> (SyscallError, string list) res" where
  "parse_args d offset args =
     (if offset + 2 \<le> length d then
        let len = unat (from_le [d ! offset, d ! (offset + 1)] :: u16); offset = offset + 2 in
        if offset + len > length d then Err InvalidArgument
        else case from_utf8 (take len (drop offset d)) of
          None \<Rightarrow> Err InvalidUtf8
        | Some arg_str \<Rightarrow> parse_args d (offset + len) (args @ [arg_str])
      else Ok args)"
  by pat_completeness auto
termination
  by (relation "measure (\<lambda>(d, offset, args). length d - offset)") auto

declare parse_args.simps [simp del]

definition parse_args_buffer :: "(u64 \<Rightarrow> u8) \<Rightarrow> u64 \<Rightarrow> u64 \<Rightarrow> (SyscallError, string list) res" where
  "parse_args_buffer mem args_ptr args_len =
     (if args_ptr = 0 \<or> args_len = 0 then Ok []
      else res_bind (user_slice_from_args args_ptr args_len) (\<lambda>ubuf. parse_args (as_slice mem ubuf) 0 []))"

text \<open>The user side, with the size of its buffer.\<close>

definition ARGS_BUF_SIZE :: nat where "ARGS_BUF_SIZE = 1024"

fun build_args :: "string list \<Rightarrow> nat \<Rightarrow> bytes \<Rightarrow> nat \<times> bytes" where
  "build_args [] offset b = (offset, b)"
| "build_args (arg # args) offset b =
     (let len = of_nat (length arg) :: u16; needed = 2 + length arg in
      if offset + needed > length b then (offset, b)
      else build_args args (offset + 2 + length arg) (blit (offset + 2) (bytes_of_string arg) (blit offset (le16 len) b)))"

definition build_args_buffer :: "string list \<Rightarrow> bytes \<Rightarrow> nat \<times> bytes" where
  "build_args_buffer args b = build_args args 0 b"

section \<open>State\<close>

record 's world =
  wsys :: "'s system"
  wmem :: "u64 \<Rightarrow> u8"

definition with_sys :: "('s system \<Rightarrow> ('e, 'a) res \<times> 's system) \<Rightarrow> 's world \<Rightarrow> ('e, 'a) res \<times> 's world" where
  "with_sys f s = (case f (wsys s) of (r, y) \<Rightarrow> (r, s\<lparr>wsys := y\<rparr>))"

definition with_sched :: "(sched \<Rightarrow> ('e, 'a) res \<times> sched) \<Rightarrow> 's world \<Rightarrow> ('e, 'a) res \<times> 's world" where
  "with_sched f s = (case f (sch (wsys s)) of (r, c) \<Rightarrow> (r, s\<lparr>wsys := (wsys s)\<lparr>sch := c\<rparr>\<rparr>))"

section \<open>Starting processes\<close>

text \<open>\<^verbatim>\<open>path.rsplit('/').next()\<close>: what follows the last separator.\<close>

definition rsplit_next :: "char \<Rightarrow> string \<Rightarrow> string" where
  "rsplit_next c s = (case rsplit_last c s of None \<Rightarrow> s | Some (a, b) \<Rightarrow> b)"

definition env_strings :: "sched \<Rightarrow> string list" where
  "env_strings c = (if tasks c = [] then [] else map (\<lambda>(k, v). k @ ''='' @ v) (tenv (cur_task c)))"

text \<open>The part \<^verbatim>\<open>sys_spawn\<close> and \<^verbatim>\<open>exec_by_path_with_args\<close> share: read the file and register the process.\<close>

definition spawn_path :: "'s mounts \<Rightarrow> (bytes \<Rightarrow> string list \<Rightarrow> string list \<Rightarrow> (string, u64) res) \<Rightarrow> string \<Rightarrow> string list \<Rightarrow>
    's system \<Rightarrow> (SyscallError, u64) res \<times> 's system" where
  "spawn_path m load path extra_args s =
     (let process_name = rsplit_next (CHR ''/'') path in
      ok_then (map_err vfs_error_to_syscall (vfs_read_file m path (fs_store (ker s)))) s (\<lambda>elf_data.
        case spawn_user process_name (load elf_data (path # extra_args) (env_strings (sch s))) (sch s) of (r, c) \<Rightarrow>
        (map_err (\<lambda>_. Other) r, s\<lparr>sch := c\<rparr>)))"

definition sys_spawn :: "'s mounts \<Rightarrow> (bytes \<Rightarrow> string list \<Rightarrow> string list \<Rightarrow> (string, u64) res) \<Rightarrow> u64 \<Rightarrow> u64 \<Rightarrow> u64 \<Rightarrow> u64 \<Rightarrow>
    's world \<Rightarrow> (SyscallError, u64) res \<times> 's world" where
  "sys_spawn m load arg1 arg2 arg3 arg4 s =
     ok_then (user_str (wmem s) arg1 arg2) s (\<lambda>path.
     ok_then (parse_args_buffer (wmem s) arg3 arg4) s (\<lambda>extra_args.
       with_sys (spawn_path m load path extra_args) s))"

text \<open>\<open>wenv\<close> is what happens to the scheduler during the wait for the child, which has no timeout.\<close>

definition exec_by_path_with_args :: "'s mounts \<Rightarrow> (bytes \<Rightarrow> string list \<Rightarrow> string list \<Rightarrow> (string, u64) res) \<Rightarrow> (nat \<Rightarrow> sched \<Rightarrow> sched) \<Rightarrow>
    string \<Rightarrow> string list \<Rightarrow> 's system \<Rightarrow> ((SyscallError, unit) res \<times> 's system) option" where
  "exec_by_path_with_args m load wenv path extra_args s =
     (case spawn_path m load path extra_args s of
        (Ok task_id, s) \<Rightarrow>
          map_option (\<lambda>(r, c).
            (case r of Ok exit_code \<Rightarrow> if exit_code \<ge> 0 then Ok () else Err Other | Err _ \<Rightarrow> Err Other | Panic \<Rightarrow> Panic, s\<lparr>sch := c\<rparr>))
            (wait_for_child wenv (\<lambda>_. 0) 0 task_id 0 (sch s))
      | (Err e, s) \<Rightarrow> Some (Err e, s)
      | (Panic, s) \<Rightarrow> Some (Panic, s))"

definition sys_exec :: "'s mounts \<Rightarrow> (bytes \<Rightarrow> string list \<Rightarrow> string list \<Rightarrow> (string, u64) res) \<Rightarrow> (nat \<Rightarrow> sched \<Rightarrow> sched) \<Rightarrow>
    u64 \<Rightarrow> u64 \<Rightarrow> u64 \<Rightarrow> u64 \<Rightarrow> 's world \<Rightarrow> ((SyscallError, u64) res \<times> 's world) option" where
  "sys_exec m load wenv arg1 arg2 arg3 arg4 s =
     (case res_bind (user_str (wmem s) arg1 arg2) (\<lambda>path.
           res_bind (parse_args_buffer (wmem s) arg3 arg4) (\<lambda>extra_args. Ok (path, extra_args))) of
        Ok (path, extra_args) \<Rightarrow>
          map_option (\<lambda>(r, y). (map_res id (\<lambda>_. 0) r, s\<lparr>wsys := y\<rparr>)) (exec_by_path_with_args m load wenv path extra_args (wsys s))
      | Err e \<Rightarrow> Some (Err e, s)
      | Panic \<Rightarrow> Some (Panic, s))"

section \<open>Process control\<close>

definition sys_yield :: "'s world \<Rightarrow> (SyscallError, u64) res \<times> 's world" where
  "sys_yield s = with_sched (\<lambda>c. (Ok 0, snd (yield_now c))) s"

definition sys_sleep :: "u64 \<Rightarrow> 's world \<Rightarrow> (SyscallError, u64) res \<times> 's world" where
  "sys_sleep arg1 s = with_sched (\<lambda>c. case sleep_ms (ticks (wsys s)) arg1 c of (r, c) \<Rightarrow> ok_then r c (\<lambda>_. (Ok 0, c))) s"

definition wait_error :: "WaitError \<Rightarrow> SyscallError" where
  "wait_error e = (case e of NoChild \<Rightarrow> InvalidArgument | NotChild \<Rightarrow> SyscallError.PermissionDenied | WTimeout \<Rightarrow> Timeout)"

text \<open>\<^verbatim>\<open>exit_code as u64\<close> extends the sign.\<close>

definition sys_wait :: "(nat \<Rightarrow> sched \<Rightarrow> sched) \<Rightarrow> (nat \<Rightarrow> u64) \<Rightarrow> u64 \<Rightarrow> u64 \<Rightarrow> 's world \<Rightarrow> ((SyscallError, u64) res \<times> 's world) option" where
  "sys_wait wenv clock arg1 arg2 s =
     map_option (\<lambda>(r, c). (map_res wait_error word_of_int r, s\<lparr>wsys := (wsys s)\<lparr>sch := c\<rparr>\<rparr>))
       (wait_for_child wenv clock (ticks (wsys s)) arg1 arg2 (sch (wsys s)))"

definition sys_waitpid :: "(nat \<Rightarrow> sched \<Rightarrow> sched) \<Rightarrow> ((u64 \<Rightarrow> u8) \<Rightarrow> u64 \<Rightarrow> u8) \<Rightarrow> u64 \<Rightarrow> u64 \<Rightarrow> u64 \<Rightarrow> 's world \<Rightarrow>
    ((SyscallError, u64) res \<times> 's world) option" where
  "sys_waitpid wenv mx arg1 arg2 arg3 s =
     map_option (\<lambda>(r, c).
       let s = s\<lparr>wsys := (wsys s)\<lparr>sch := c\<rparr>, wmem := mx (wmem s)\<rparr> in
       ok_then (map_err wait_error r) s (\<lambda>(child_id, exit_code).
         if arg2 \<noteq> 0 then
           ok_then (user_ptr_from_raw 8 arg2) s (\<lambda>p. (Ok child_id, s\<lparr>wmem := store_bytes p (le64 (word_of_int exit_code)) (wmem s)\<rparr>))
         else (Ok child_id, s)))
       (waitpid wenv arg1 arg3 (sch (wsys s)))"

definition sys_getpid :: "'s world \<Rightarrow> (SyscallError, u64) res" where
  "sys_getpid s = Ok (current_task_id (sch (wsys s)))"

definition kill_error :: "string \<Rightarrow> SyscallError" where
  "kill_error e =
     (if e = ''cannot kill self'' then InvalidArgument
      else if e = ''task not found'' then InvalidArgument
      else if e = ''task already finished'' then SyscallError.PermissionDenied
      else Other)"

definition sys_kill :: "'s mounts \<Rightarrow> u64 \<Rightarrow> 's world \<Rightarrow> (SyscallError, u64) res \<times> 's world" where
  "sys_kill m arg1 s = with_sys (\<lambda>y. case kill_task m arg1 y of (r, y) \<Rightarrow> (map_res kill_error (\<lambda>_. 0) r, y)) s"

section \<open>Environment variables\<close>

definition sys_getenv :: "u64 \<Rightarrow> u64 \<Rightarrow> u64 \<Rightarrow> u64 \<Rightarrow> 's world \<Rightarrow> (SyscallError, u64) res \<times> 's world" where
  "sys_getenv arg1 arg2 arg3 arg4 s =
     ok_then (user_str (wmem s) arg1 arg2) s (\<lambda>key.
       case get_env_var key (sch (wsys s)) of
         None \<Rightarrow> (Err FileNotFound, s)
       | Some val \<Rightarrow>
           ok_then (user_slice_from_args arg3 arg4) s (\<lambda>val_buf.
             if length val > unat (us_len val_buf) then (Err SyscallError.BufferOverflow, s)
             else (Ok (of_nat (length val)), s\<lparr>wmem := store_bytes (us_addr val_buf) (bytes_of_string val) (wmem s)\<rparr>)))"

definition sys_setenv :: "u64 \<Rightarrow> u64 \<Rightarrow> u64 \<Rightarrow> u64 \<Rightarrow> 's world \<Rightarrow> (SyscallError, u64) res \<times> 's world" where
  "sys_setenv arg1 arg2 arg3 arg4 s =
     ok_then (user_str (wmem s) arg1 arg2) s (\<lambda>key.
     ok_then (user_str (wmem s) arg3 arg4) s (\<lambda>val.
       with_sched (\<lambda>c. (Ok 0, set_env_var key val c)) s))"

definition sys_listenv :: "u64 \<Rightarrow> u64 \<Rightarrow> 's world \<Rightarrow> (SyscallError, u64) res \<times> 's world" where
  "sys_listenv arg1 arg2 s =
     ok_then (user_slice_from_args arg1 arg2) s (\<lambda>ubuf.
       let d = list_env_vars (sch (wsys s)) in
       if length d > unat (us_len ubuf) then (Err SyscallError.BufferOverflow, s)
       else (Ok (of_nat (length d)), s\<lparr>wmem := store_bytes (us_addr ubuf) (bytes_of_string d) (wmem s)\<rparr>))"

section \<open>Messages\<close>

definition sys_ipc_send :: "u64 \<Rightarrow> u64 \<Rightarrow> u64 \<Rightarrow> 's world \<Rightarrow> (SyscallError, u64) res \<times> 's world" where
  "sys_ipc_send arg1 arg2 arg3 s =
     ok_then (user_slice_from_args arg2 arg3) s (\<lambda>ubuf.
       let sender = current_task_id (sch (wsys s)) in
       case with_sys (ipc_send sender arg1 (as_slice (wmem s) ubuf)) s of (r, s) \<Rightarrow> ok_then r s (\<lambda>_. (Ok 0, s)))"

text \<open>Delivery of a received message: the data cut to the buffer, then the sender where it is wanted.\<close>

definition deliver :: "user_slice \<Rightarrow> u64 option \<Rightarrow> u64 \<Rightarrow> bytes \<Rightarrow> (u64 \<Rightarrow> u8) \<Rightarrow> u64 \<Rightarrow> u8" where
  "deliver ubuf sender_ptr sender d mem =
     (let copy_len = min (unat (us_len ubuf)) (length d);
          mem = store_bytes (us_addr ubuf) (take copy_len d) mem in
      case sender_ptr of None \<Rightarrow> mem | Some p \<Rightarrow> store_bytes p (le64 sender) mem)"

definition copied :: "user_slice \<Rightarrow> bytes \<Rightarrow> u64" where
  "copied ubuf d = of_nat (min (unat (us_len ubuf)) (length d))"

definition sys_ipc_recv :: "(nat \<Rightarrow> 's system \<Rightarrow> 's system) \<Rightarrow> ((u64 \<Rightarrow> u8) \<Rightarrow> u64 \<Rightarrow> u8) \<Rightarrow> u64 \<Rightarrow> u64 \<Rightarrow> u64 \<Rightarrow> u64 \<Rightarrow> 's world \<Rightarrow>
    ((SyscallError, u64) res \<times> 's world) option" where
  "sys_ipc_recv env mx arg1 arg2 arg3 arg4 s =
     (case res_bind (user_ptr_from_raw 8 arg1) (\<lambda>p. res_bind (user_slice_from_args arg2 arg3) (\<lambda>b. Ok (p, b))) of
        Err e \<Rightarrow> Some (Err e, s) | Panic \<Rightarrow> Some (Panic, s)
      | Ok (sender_ptr, ubuf) \<Rightarrow>
          map_option (\<lambda>(r, y).
            let s = s\<lparr>wsys := y, wmem := mx (wmem s)\<rparr> in
            ok_then r s (\<lambda>msg. (Ok (copied ubuf (im_data msg)),
              s\<lparr>wmem := deliver ubuf (Some sender_ptr) (im_sender msg) (im_data msg) (wmem s)\<rparr>)))
            (recv env (current_task_id (sch (wsys s))) arg4 (wsys s)))"

definition sys_ipc_recv_from :: "(nat \<Rightarrow> 's system \<Rightarrow> 's system) \<Rightarrow> ((u64 \<Rightarrow> u8) \<Rightarrow> u64 \<Rightarrow> u8) \<Rightarrow> u64 \<Rightarrow> u64 \<Rightarrow> u64 \<Rightarrow> u64 \<Rightarrow> 's world \<Rightarrow>
    ((SyscallError, u64) res \<times> 's world) option" where
  "sys_ipc_recv_from env mx arg1 arg2 arg3 arg4 s =
     (case user_slice_from_args arg2 arg3 of
        Err e \<Rightarrow> Some (Err e, s) | Panic \<Rightarrow> Some (Panic, s)
      | Ok ubuf \<Rightarrow>
          map_option (\<lambda>(r, y).
            let s = s\<lparr>wsys := y, wmem := mx (wmem s)\<rparr> in
            ok_then r s (\<lambda>msg. (Ok (copied ubuf (im_data msg)), s\<lparr>wmem := deliver ubuf None (im_sender msg) (im_data msg) (wmem s)\<rparr>)))
            (recv_from env (current_task_id (sch (wsys s))) arg1 arg4 (wsys s)))"

definition sys_ipc_cancel :: "u64 \<Rightarrow> 's world \<Rightarrow> (SyscallError, u64) res \<times> 's world" where
  "sys_ipc_cancel arg1 s = (case with_sys (cancel_recv arg1) s of (r, s) \<Rightarrow> ok_then r s (\<lambda>_. (Ok 0, s)))"

definition sys_ipc_send_handle :: "u64 \<Rightarrow> u64 \<Rightarrow> u64 \<Rightarrow> u64 \<Rightarrow> 's world \<Rightarrow> (SyscallError, u64) res \<times> 's world" where
  "sys_ipc_send_handle arg1 arg2 arg3 arg4 s =
     ok_then (user_slice_from_args arg2 arg3) s (\<lambda>ubuf.
     ok_then (user_handle_ptr arg4) s (\<lambda>handle_ptr.
       let h = read_handle (wmem s) handle_ptr; sender = current_task_id (sch (wsys s)) in
       case with_sys (send_with_handle sender arg1 (as_slice (wmem s) ubuf) h) s of (r, s) \<Rightarrow> ok_then r s (\<lambda>_. (Ok 0, s))))"

definition sys_ipc_recv_handle :: "(nat \<Rightarrow> 's system \<Rightarrow> 's system) \<Rightarrow> ((u64 \<Rightarrow> u8) \<Rightarrow> u64 \<Rightarrow> u8) \<Rightarrow> u64 \<Rightarrow> u64 \<Rightarrow> u64 \<Rightarrow> u64 \<Rightarrow> 's world \<Rightarrow>
    ((SyscallError, u64) res \<times> 's world) option" where
  "sys_ipc_recv_handle env mx arg1 arg2 arg3 arg4 s =
     (case res_bind (user_ptr_from_raw 8 arg1) (\<lambda>p. res_bind (user_slice_from_args arg2 arg3) (\<lambda>b.
           res_bind (user_handle_ptr arg4) (\<lambda>h. Ok (p, b, h)))) of
        Err e \<Rightarrow> Some (Err e, s) | Panic \<Rightarrow> Some (Panic, s)
      | Ok (sender_ptr, ubuf, handle_out_ptr) \<Rightarrow>
          map_option (\<lambda>(r, y).
            let s = s\<lparr>wsys := y, wmem := mx (wmem s)\<rparr> in
            ok_then r s (\<lambda>msg. (Ok (copied ubuf (hm_data msg)),
              s\<lparr>wmem := write_handle handle_out_ptr (hm_handle msg) (deliver ubuf (Some sender_ptr) (hm_sender msg) (hm_data msg) (wmem s))\<rparr>)))
            (recv_with_handle env (current_task_id (sch (wsys s))) (wsys s)))"

section \<open>Threads and futexes\<close>

definition sys_thread_create :: "(u64 \<Rightarrow> string) \<Rightarrow> u64 \<Rightarrow> u64 \<Rightarrow> u64 \<Rightarrow> 's world \<Rightarrow> (SyscallError, u64) res \<times> 's world" where
  "sys_thread_create num arg1 arg2 arg3 s =
     with_sched (\<lambda>c. case spawn_thread num arg1 arg2 arg3 c of (r, c) \<Rightarrow> (map_err (\<lambda>_. InvalidArgument) r, c)) s"

text \<open>\<^verbatim>\<open>sys_thread_exit\<close> up to \<^verbatim>\<open>exit_usermode\<close>, which does not return; \<^verbatim>\<open>arg1 as i32\<close> keeps the low half.\<close>

definition sys_thread_exit :: "u64 \<Rightarrow> 's world \<Rightarrow> 's world" where
  "sys_thread_exit arg1 s = s\<lparr>wsys := on_sched (set_exit_code (sint (ucast arg1 :: u32))) (wsys s)\<rparr>"

definition sys_thread_join :: "(nat \<Rightarrow> sched \<Rightarrow> sched) \<Rightarrow> (nat \<Rightarrow> u64) \<Rightarrow> u64 \<Rightarrow> u64 \<Rightarrow> 's world \<Rightarrow> ((SyscallError, u64) res \<times> 's world) option" where
  "sys_thread_join wenv clock arg1 arg2 s =
     map_option (\<lambda>(r, c). (map_res wait_error word_of_int r, s\<lparr>wsys := (wsys s)\<lparr>sch := c\<rparr>\<rparr>))
       (wait_for_thread wenv clock (ticks (wsys s)) arg1 arg2 (sch (wsys s)))"

text \<open>The value at the address is read without a check of the address.\<close>

definition sys_futex :: "('s system \<Rightarrow> 's system) \<Rightarrow> u64 \<Rightarrow> u64 \<Rightarrow> u64 \<Rightarrow> u64 \<Rightarrow> u64 \<Rightarrow> 's world \<Rightarrow> (SyscallError, u64) res \<times> 's world" where
  "sys_futex env kernel_cr3 arg1 arg2 arg3 arg4 s =
     (let val = ucast arg3 :: u32 in
      if arg2 = FUTEX_WAIT then with_sys (futex_wait env kernel_cr3 (from_le (load_bytes arg1 4 (wmem s))) arg1 val arg4) s
      else if arg2 = FUTEX_WAKE then with_sys (futex_wake kernel_cr3 arg1 val) s
      else (Err InvalidArgument, s))"

section \<open>The argument buffer\<close>

definition enc_args :: "string list \<Rightarrow> bytes" where
  "enc_args args = concat (map (\<lambda>a. le16 (of_nat (length a)) @ bytes_of_string a) args)"

text \<open>The arguments that fit into \<open>room\<close> bytes: the first that does not fit ends the list.\<close>

fun fitting :: "string list \<Rightarrow> nat \<Rightarrow> string list" where
  "fitting [] room = []"
| "fitting (a # args) room = (if 2 + length a > room then [] else a # fitting args (room - (2 + length a)))"

lemma enc_args_simps [simp]:
  "enc_args [] = []" "enc_args (a # args) = le16 (of_nat (length a)) @ bytes_of_string a @ enc_args args"
  by (simp_all add: enc_args_def)

lemma fitting_all: "length (enc_args args) \<le> room \<Longrightarrow> fitting args room = args"
  by (induction args arbitrary: room) auto

lemma fitting_sub: "a \<in> set (fitting args room) \<Longrightarrow> a \<in> set args \<and> length a + 2 \<le> room"
  by (induction args arbitrary: room) (force split: if_splits)+

lemma take_blit: "off + length ys \<le> length b \<Longrightarrow> take (off + length ys) (blit off ys b) = take off b @ ys"
  by (simp add: blit_def)

lemma build_args_spec:
  "off \<le> length b \<Longrightarrow> build_args args off b = (n, b') \<Longrightarrow>
   length b' = length b \<and> n = off + length (enc_args (fitting args (length b - off))) \<and> n \<le> length b \<and>
   take n b' = take off b @ enc_args (fitting args (length b - off))"
proof (induction args arbitrary: off b)
  case (Cons a args)
  show ?case
  proof (cases "off + (2 + length a) > length b")
    case True
    with Cons.prems show ?thesis by (auto simp: Let_def)
  next
    case False
    let ?h = "le16 (of_nat (length a))" and ?off = "off + 2 + length a"
    let ?b1 = "blit off ?h b" and ?b2 = "blit (off + 2) (bytes_of_string a) (blit off ?h b)"
    from False have l: "length ?b2 = length b" by simp
    have t1: "take (off + 2) ?b1 = take off b @ ?h" using take_blit [of off ?h b] False by simp
    have t2: "take ?off ?b2 = take off b @ ?h @ bytes_of_string a"
      using take_blit [of "off + 2" "bytes_of_string a" ?b1] False t1 by simp
    have r: "length b - ?off = length b - off - (2 + length a)" by simp
    from Cons.prems(2) False have "build_args args ?off ?b2 = (n, b')" by (simp add: Let_def)
    then have "length b' = length ?b2 \<and> n = ?off + length (enc_args (fitting args (length ?b2 - ?off))) \<and> n \<le> length ?b2 \<and>
        take n b' = take ?off ?b2 @ enc_args (fitting args (length ?b2 - ?off))"
      by (rule Cons.IH [rotated]) (use False l in simp)
    note i = this [unfolded l t2 r append_assoc]
    from False Cons.prems(1) have "\<not> 2 + length a > length b - off" by linarith
    then have f: "fitting (a # args) (length b - off) = a # fitting args (length b - off - (2 + length a))" by simp
    have "length (le16 (of_nat (length a)) @ bytes_of_string a) = 2 + length a" by simp
    with i show ?thesis unfolding f enc_args_simps length_append by (intro conjI) (blast | linarith)+
  qed
qed simp

lemma from_le16: "n < 65536 \<Longrightarrow> unat (from_le (le16 (of_nat n)) :: u16) = n"
  by (simp only: from_le_to_le) (simp add: unat_of_nat)

lemma parse_args_enc:
  assumes "length rest \<le> 1" and "\<forall>a\<in>set args. utf8_valid (bytes_of_string a) \<and> length a < 65536"
  shows "parse_args (pre @ enc_args args @ rest) (length pre) acc = Ok (acc @ args)"
  using assms(2)
proof (induction args arbitrary: pre acc)
  case Nil
  with assms(1) show ?case by (subst parse_args.simps) simp
next
  case (Cons a args)
  let ?h = "le16 (of_nat (length a))" and ?b = "bytes_of_string a"
  let ?d = "pre @ enc_args (a # args) @ rest"
  obtain x y where h: "?h = [x, y]" by (metis (no_types, opaque_lifting) length_0_conv length_Suc_conv length_le(1) numeral_2_eq_2)
  have d: "?d ! length pre = x" "?d ! (length pre + 1) = y" by (simp_all add: h nth_append)
  have len: "unat (from_le [x, y] :: u16) = length a" using from_le16 [of "length a"] Cons.prems h by simp
  have body: "take (length a) (drop (length pre + 2) ?d) = ?b" by (simp add: h)
  have "from_utf8 ?b = Some a" using Cons.prems by (simp add: from_utf8_def)
  then have "parse_args ?d (length pre) acc = parse_args ?d (length pre + 2 + length a) (acc @ [a])"
    using d len body by (subst parse_args.simps) (simp add: Let_def)
  also have "\<dots> = parse_args ((pre @ ?h @ ?b) @ enc_args args @ rest) (length (pre @ ?h @ ?b)) (acc @ [a])" by simp
  also have "\<dots> = Ok (acc @ a # args)" using Cons.IH [of "pre @ ?h @ ?b" "acc @ [a]"] Cons.prems by simp
  finally show ?case .
qed

lemma le16_from_le: "le16 (from_le [x, y]) = [x, y]"
proof -
  have "nat_of_le [x, y] < 65536" using nat_of_le_bound [of "[x, y]"] by (simp add: power2_eq_square)
  then have "unat (from_le [x, y] :: u16) = nat_of_le [x, y]" unfolding from_le_def by (simp only: unat_of_nat) simp
  then show ?thesis using le_of_nat_of_le [of "[x, y]"] by (simp only: le16_def list.size numeral_2_eq_2 add_0 add_Suc_right add_0_right plus_1_eq_Suc)
qed

lemma parse_args_sound:
  "parse_args d off acc = Ok r \<Longrightarrow> off \<le> length d \<Longrightarrow>
   \<exists>args rest. r = acc @ args \<and> drop off d = enc_args args @ rest \<and> length rest \<le> 1"
proof (induction d off acc rule: parse_args.induct)
  case (1 d off acc)
  let ?w = "from_le [d ! off, d ! (off + 1)] :: u16"
  let ?len = "unat ?w"
  show ?case
  proof (cases "off + 2 \<le> length d")
    case False
    then have "parse_args d off acc = Ok acc" by (subst parse_args.simps) simp
    with 1(2,3) False show ?thesis by (intro exI [of _ "[]"] exI [of _ "drop off d"]) auto
  next
    case True
    with 1(2) have fit: "off + 2 + ?len \<le> length d" by (subst (asm) parse_args.simps) (auto simp: Let_def split: if_splits)
    from 1(2) True fit obtain a where u: "from_utf8 (take ?len (drop (off + 2) d)) = Some a"
      by (subst (asm) parse_args.simps) (auto simp: Let_def split: option.splits)
    with 1(2) True fit have rec: "parse_args d (off + 2 + ?len) (acc @ [a]) = Ok r"
      by (subst (asm) parse_args.simps) (simp add: Let_def)
    from u have a: "bytes_of_string a = take ?len (drop (off + 2) d)" by (auto simp: from_utf8_def split: if_splits)
    have "length (bytes_of_string a) = min (length d - (off + 2)) ?len" unfolding a by simp
    with fit have la: "length a = ?len" by simp
    have h: "le16 (of_nat (length a)) = [d ! off, d ! (off + 1)]"
      unfolding la using le16_from_le [of "d ! off" "d ! (off + 1)"] by (simp only: of_nat_unat ucast_id)
    from 1(1) [OF True refl refl _ u rec] fit obtain args rest where
      ih: "r = (acc @ [a]) @ args" "drop (off + 2 + ?len) d = enc_args args @ rest" "length rest \<le> 1" by auto
    have "drop off d = [d ! off, d ! (off + 1)] @ drop (off + 2) d"
      using True by (simp add: Cons_nth_drop_Suc)
    also have "drop (off + 2) d = bytes_of_string a @ drop (off + 2 + ?len) d"
      unfolding a using append_take_drop_id [of ?len "drop (off + 2) d"] by (simp add: add.commute)
    finally have "drop off d = enc_args (a # args) @ rest" using h ih(2) by simp
    with ih show ?thesis by (intro exI [of _ "a # args"] exI [of _ rest]) simp
  qed
qed

text \<open>
  C32: arguments survive the trip into the kernel. What the user library packs into its buffer is read back by the kernel's parser as exactly
  the arguments that fit, in order, and as all of them when they fit; and whatever buffer the parser accepts, it is the packing of the list it
  returns, with at most one byte left over.
\<close>

theorem args_round_trip:
  assumes "\<forall>a\<in>set args. utf8_valid (bytes_of_string a)" and "length b = ARGS_BUF_SIZE"
  shows "(case build_args_buffer args b of (n, b') \<Rightarrow>
      n \<le> ARGS_BUF_SIZE \<and> parse_args (take n b') 0 [] = Ok (fitting args ARGS_BUF_SIZE)) \<and>
    (length (enc_args args) \<le> ARGS_BUF_SIZE \<longrightarrow> fitting args ARGS_BUF_SIZE = args) \<and>
    (\<forall>d r. parse_args d 0 [] = Ok r \<longrightarrow> (\<exists>rest. d = enc_args r @ rest \<and> length rest \<le> 1))"
proof (intro conjI allI impI)
  obtain n b' where bb: "build_args args 0 b = (n, b')" by fastforce
  have sp: "n \<le> length b" "take n b' = enc_args (fitting args (length b))"
    using build_args_spec [OF le0 bb] by auto
  have "\<forall>a\<in>set (fitting args (length b)). utf8_valid (bytes_of_string a) \<and> length a < 65536"
    using fitting_sub [of _ args "length b"] assms by (fastforce simp: ARGS_BUF_SIZE_def)
  from parse_args_enc [OF _ this, of "[]" "[]" "[]"] have "parse_args (take n b') 0 [] = Ok (fitting args (length b))"
    unfolding sp(2) by simp
  with sp(1) bb assms(2) show "case build_args_buffer args b of (n, b') \<Rightarrow>
      n \<le> ARGS_BUF_SIZE \<and> parse_args (take n b') 0 [] = Ok (fitting args ARGS_BUF_SIZE)"
    by (simp add: build_args_buffer_def)
  show "fitting args ARGS_BUF_SIZE = args" if "length (enc_args args) \<le> ARGS_BUF_SIZE" using fitting_all [OF that] .
  show "\<exists>rest. d = enc_args r @ rest \<and> length rest \<le> 1" if "parse_args d 0 [] = Ok r" for d r
    using parse_args_sound [OF that] by auto
qed

theorem args_round_trip_witness:
  "case build_args_buffer [''ls'', ''-l''] (replicate 1024 0) of (n, b') \<Rightarrow> parse_args (take n b') 0 [] = Ok [''ls'', ''-l'']"
proof -
  have v: "\<forall>a\<in>set [''ls'', ''-l'']. utf8_valid (bytes_of_string a)" by code_simp
  have l: "length (replicate 1024 (0 :: u8)) = ARGS_BUF_SIZE" by (simp add: ARGS_BUF_SIZE_def)
  have "fitting [''ls'', ''-l''] ARGS_BUF_SIZE = [''ls'', ''-l'']" by (simp add: ARGS_BUF_SIZE_def)
  with args_round_trip [OF v l] show ?thesis by (auto split: prod.splits)
qed

section \<open>Sending a message to another process\<close>

lemma unat_slice_len: "user_slice_from_args p l = Ok ub \<Longrightarrow> unat (us_len ub) \<le> 2 ^ 47"
  by (auto simp: user_slice_from_args_def user_slice_from_raw_Ok_iff)

lemma length_as_slice [simp]: "length (as_slice mem ub) = unat (us_len ub)"
  by (simp add: as_slice_def)

lemma deliver_apply:
  assumes "user_slice_from_args p l = Ok ub"
  shows "deliver ub (Some sp) w d mem a =
    (if unat (a - sp) < 8 then le64 w ! unat (a - sp)
     else if unat (a - us_addr ub) < min (unat (us_len ub)) (length d) then d ! unat (a - us_addr ub) else mem a)"
proof -
  have "min (unat (us_len ub)) (length d) \<le> 2 ^ 64" using unat_slice_len [OF assms] by simp
  then show ?thesis by (simp add: deliver_def Let_def store_bytes_apply)
qed


definition ipc_demo :: "unit world" where
  "ipc_demo = \<lparr>wsys = start_system (), wmem = (\<lambda>a. ucast a)\<rparr>"


end
