(* ===== verification/Textutil.thy ===== *)
theory Textutil
  imports Rust_Str
begin

text \<open>
  \<^verbatim>\<open>libs/textutil/src/lib.rs\<close>: literal search and replacement in a line, used by \<^verbatim>\<open>grep\<close> and \<^verbatim>\<open>sed\<close> of the user shell. \<^verbatim>\<open>str::find\<close> of the standard
  library is the leftmost occurrence.
\<close>

section \<open>Definitions\<close>

fun str_find :: "string \<Rightarrow> string \<Rightarrow> nat option" where
  "str_find pat [] = (if pat = [] then Some 0 else None)"
| "str_find pat (c # s) = (if starts_with pat (c # s) then Some 0 else map_option Suc (str_find pat s))"

text \<open>\<^verbatim>\<open>ascii_lower\<close> of the library works on bytes as the character function of the same name does.\<close>

definition match_at :: "string \<Rightarrow> string \<Rightarrow> nat \<Rightarrow> bool" where
  "match_at line pat i = (\<forall>j<length pat. ascii_lower (line ! (i + j)) = ascii_lower (pat ! j))"

definition contains_literal :: "string \<Rightarrow> string \<Rightarrow> bool \<Rightarrow> bool" where
  "contains_literal line pattern case_insensitive =
     (if pattern = [] then True
      else if case_insensitive then
        (if length pattern > length line then False
         else \<exists>i\<in>set [0..<length line - length pattern + 1]. match_at line pattern i)
      else str_find pattern line \<noteq> None)"

lemma str_find_bound: "str_find pat s = Some i \<Longrightarrow> i + length pat \<le> length s"
proof (induction s arbitrary: i)
  case (Cons c s)
  have "length pat \<le> length (c # s)" if sw: "starts_with pat (c # s)"
  proof -
    from sw obtain t where "c # s = pat @ t" by (auto simp: starts_with_iff)
    from arg_cong [OF this, of length] show ?thesis by simp
  qed
  with Cons show ?case by (auto split: if_splits)
qed (simp split: if_splits)

lemma str_find_rest: "str_find pat s = Some i \<Longrightarrow> pat \<noteq> [] \<Longrightarrow> length s - (i + length pat) < length s"
  using str_find_bound [of pat s i] by (cases pat) auto

text \<open>The loop of \<^verbatim>\<open>replace_literal\<close>: the rest of the line, the output so far and whether anything was replaced.\<close>

function replace_loop :: "string \<Rightarrow> string \<Rightarrow> bool \<Rightarrow> string \<Rightarrow> string \<Rightarrow> bool \<Rightarrow> string \<times> string \<times> bool \<times> bool" where
  "replace_loop pat to all rest out changed =
     (if pat = [] then (rest, out, changed, False)
      else case str_find pat rest of
        None \<Rightarrow> (rest, out, changed, False)
      | Some pos \<Rightarrow>
          let out = out @ take pos rest @ to; rest = drop (pos + length pat) rest in
          if \<not> all then (rest, out @ rest, True, True)
          else replace_loop pat to all rest out True)"
  by pat_completeness auto
termination
  by (relation "measure (\<lambda>(pat, to, all, rest, out, changed). length rest)") (auto simp: str_find_rest)

declare replace_loop.simps [simp del]

definition replace_literal :: "string \<Rightarrow> string \<Rightarrow> string \<Rightarrow> bool \<Rightarrow> string \<times> bool" where
  "replace_literal line pat to all =
     (if pat = [] then (line, False)
      else case replace_loop pat to all line [] False of
        (rest, out, changed, returned) \<Rightarrow>
          if returned then (out, True)
          else if changed then (out @ rest, True)
          else (line, False))"

section \<open>Search\<close>

lemma str_find_None_iff: "str_find pat s = None \<longleftrightarrow> (\<nexists>a b. s = a @ pat @ b)"
proof (induction s)
  case (Cons c s)
  have "(\<exists>a b. c # s = a @ pat @ b) \<longleftrightarrow> starts_with pat (c # s) \<or> (\<exists>a b. s = a @ pat @ b)"
  proof
    assume "\<exists>a b. c # s = a @ pat @ b"
    then obtain a b where "c # s = a @ pat @ b" by blast
    then show "starts_with pat (c # s) \<or> (\<exists>a b. s = a @ pat @ b)" by (cases a) (auto simp: starts_with_iff)
  next
    assume "starts_with pat (c # s) \<or> (\<exists>a b. s = a @ pat @ b)"
    then show "\<exists>a b. c # s = a @ pat @ b"
    proof
      assume "starts_with pat (c # s)"
      then have "\<exists>b. c # s = [] @ pat @ b" by (simp add: starts_with_iff)
      then show ?thesis by blast
    next
      assume "\<exists>a b. s = a @ pat @ b"
      then obtain a b where "c # s = (c # a) @ pat @ b" by auto
      then show ?thesis by blast
    qed
  qed
  with Cons show ?case by simp
qed auto

text \<open>The found position is the leftmost.\<close>

lemma str_find_Some:
  "str_find pat s = Some i \<Longrightarrow>
   s = take i s @ pat @ drop (i + length pat) s \<and> (\<forall>a b. s = a @ pat @ b \<longrightarrow> i \<le> length a)"
proof (induction s arbitrary: i)
  case (Cons c s)
  show ?case
  proof (cases "starts_with pat (c # s)")
    case True
    with Cons.prems show ?thesis by (auto simp: starts_with_iff)
  next
    case False
    with Cons.prems obtain k where k: "i = Suc k" "str_find pat s = Some k" by auto
    from Cons.IH [OF k(2)] have ih: "s = take k s @ pat @ drop (k + length pat) s" "\<And>a b. s = a @ pat @ b \<Longrightarrow> k \<le> length a" by blast+
    have "i \<le> length a" if "c # s = a @ pat @ b" for a b
      using that False ih(2) k(1) by (cases a) (auto simp: starts_with_iff)
    moreover have "c # s = take i (c # s) @ pat @ drop (i + length pat) (c # s)" by (simp add: k(1)) (rule ih(1))
    ultimately show ?thesis by blast
  qed
qed (auto split: if_splits)

lemma match_at_iff:
  assumes "i + length pat \<le> length line"
  shows "match_at line pat i \<longleftrightarrow> take (length pat) (drop i (map ascii_lower line)) = map ascii_lower pat"
  using assms by (auto simp: match_at_def list_eq_iff_nth_eq)

text \<open>
  \<open>contains_literal\<close> decides occurrence. It holds exactly when the pattern occurs somewhere in the line, or, when case is ignored, when it does after
  both are mapped to lower case; the empty pattern always occurs.
\<close>

theorem contains_literal_iff:
  "contains_literal line pattern ci \<longleftrightarrow>
   (\<exists>a b. (if ci then map ascii_lower line else line) = a @ (if ci then map ascii_lower pattern else pattern) @ b)"
proof (cases "ci \<and> pattern \<noteq> []")
  case False
  then show ?thesis using str_find_None_iff [of pattern line] by (auto simp: contains_literal_def)
next
  case True
  let ?l = "map ascii_lower line" and ?p = "map ascii_lower pattern"
  have "(\<exists>a b. ?l = a @ ?p @ b) \<longleftrightarrow> (\<exists>i. i + length pattern \<le> length line \<and> take (length pattern) (drop i ?l) = ?p)"
  proof
    assume "\<exists>a b. ?l = a @ ?p @ b"
    then obtain a b where l: "?l = a @ ?p @ b" by blast
    from arg_cong [OF l, of length] have "length a + length pattern \<le> length line" by simp
    with l show "\<exists>i. i + length pattern \<le> length line \<and> take (length pattern) (drop i ?l) = ?p"
      by (intro exI [of _ "length a"]) simp
  next
    assume "\<exists>i. i + length pattern \<le> length line \<and> take (length pattern) (drop i ?l) = ?p"
    then obtain i where "take (length pattern) (drop i ?l) = ?p" by blast
    then have "?l = take i ?l @ ?p @ drop (length pattern) (drop i ?l)"
      using append_take_drop_id [of i ?l] append_take_drop_id [of "length pattern" "drop i ?l"] by simp
    then show "\<exists>a b. ?l = a @ ?p @ b" by blast
  qed
  also have "\<dots> \<longleftrightarrow> (\<exists>i. i + length pattern \<le> length line \<and> match_at line pattern i)"
    using match_at_iff [of _ pattern line] by blast
  also have "\<dots> \<longleftrightarrow> contains_literal line pattern True"
  proof (cases "length pattern > length line")
    case False
    then have "set [0..<length line - length pattern + 1] = {i. i + length pattern \<le> length line}" by auto
    with False True show ?thesis unfolding contains_literal_def by simp
  qed (auto simp: contains_literal_def True)
  finally show ?thesis using True by simp
qed

section \<open>Replacement\<close>

text \<open>The pieces of a line around the replaced occurrences, put together with a separator.\<close>

fun glue :: "string \<Rightarrow> string list \<Rightarrow> string" where
  "glue sep [] = []"
| "glue sep [x] = x"
| "glue sep (x # y # ys) = x @ sep @ glue sep (y # ys)"

text \<open>No occurrence of the pattern begins before the end of the piece.\<close>

definition leftmost :: "string \<Rightarrow> string \<Rightarrow> string \<Rightarrow> bool" where
  "leftmost pat piece rest \<longleftrightarrow> (\<forall>a b. piece @ pat @ rest = a @ pat @ b \<longrightarrow> length piece \<le> length a)"

fun cuts :: "string \<Rightarrow> string list \<Rightarrow> bool" where
  "cuts pat [] = True"
| "cuts pat [x] = True"
| "cuts pat (x # y # ys) = (leftmost pat x (glue pat (y # ys)) \<and> cuts pat (y # ys))"

lemma glue_Cons: "ps \<noteq> [] \<Longrightarrow> glue sep (x # ps) = x @ sep @ glue sep ps"
  by (cases ps) auto

lemma cuts_Cons: "ps \<noteq> [] \<Longrightarrow> cuts pat (x # ps) \<longleftrightarrow> leftmost pat x (glue pat ps) \<and> cuts pat ps"
  by (cases ps) auto

lemma found_piece:
  assumes "str_find pat s = Some i"
  shows "s = take i s @ pat @ drop (i + length pat) s" and "leftmost pat (take i s) (drop (i + length pat) s)"
proof -
  from str_find_Some [OF assms] have e: "s = take i s @ pat @ drop (i + length pat) s" "\<And>a b. s = a @ pat @ b \<Longrightarrow> i \<le> length a" by blast+
  show "s = take i s @ pat @ drop (i + length pat) s" by (rule e(1))
  show "leftmost pat (take i s) (drop (i + length pat) s)" unfolding leftmost_def
  proof (intro allI impI)
    fix a b
    assume "take i s @ pat @ drop (i + length pat) s = a @ pat @ b"
    with e(1) have "s = a @ pat @ b" by (rule trans)
    from e(2) [OF this] show "length (take i s) \<le> length a" by simp
  qed
qed

text \<open>The pieces between the leftmost, non-overlapping occurrences.\<close>

function pieces :: "string \<Rightarrow> string \<Rightarrow> string list" where
  "pieces pat s =
     (if pat = [] then [s]
      else case str_find pat s of None \<Rightarrow> [s] | Some i \<Rightarrow> take i s # pieces pat (drop (i + length pat) s))"
  by pat_completeness auto
termination
  by (relation "measure (\<lambda>(pat, s). length s)") (auto simp: str_find_rest)

declare pieces.simps [simp del]

lemma pieces_not_Nil [simp]: "pieces pat s \<noteq> []"
  by (subst pieces.simps) (simp split: option.split)

lemma pieces_spec:
  "pat \<noteq> [] \<Longrightarrow> glue pat (pieces pat s) = s \<and> cuts pat (pieces pat s) \<and> str_find pat (last (pieces pat s)) = None"
proof (induction pat s rule: pieces.induct)
  case (1 pat s)
  show ?case
  proof (cases "str_find pat s")
    case None
    with 1(2) show ?thesis by (subst (1 2 3) pieces.simps) simp
  next
    case (Some i)
    let ?r = "drop (i + length pat) s"
    have p: "pieces pat s = take i s # pieces pat ?r" using 1(2) Some by (subst pieces.simps) simp
    from 1(1) [OF 1(2) Some 1(2)] have ih: "glue pat (pieces pat ?r) = ?r" "cuts pat (pieces pat ?r)" "str_find pat (last (pieces pat ?r)) = None"
      by auto
    have "glue pat (pieces pat s) = s" using found_piece(1) [OF Some, symmetric] by (simp add: p glue_Cons ih)
    with found_piece(2) [OF Some] ih show ?thesis by (simp add: p cuts_Cons)
  qed
qed

lemma replace_loop_all:
  "pat \<noteq> [] \<Longrightarrow> \<exists>rest' out'. replace_loop pat to True rest out changed = (rest', out', changed \<or> length (pieces pat rest) > 1, False) \<and>
     out' @ rest' = out @ glue to (pieces pat rest)"
proof (induction pat to True rest out changed rule: replace_loop.induct)
  case (1 pat to rest out changed)
  show ?case
  proof (cases "str_find pat rest")
    case None
    with 1(2) show ?thesis by (subst replace_loop.simps, subst (1 2) pieces.simps) simp
  next
    case (Some i)
    have p: "pieces pat rest = take i rest # pieces pat (drop (i + length pat) rest)" using 1(2) Some by (subst pieces.simps) simp
    have l: "replace_loop pat to True rest out changed = replace_loop pat to True (drop (i + length pat) rest) (out @ take i rest @ to) True"
      using 1(2) Some by (subst replace_loop.simps) (simp add: Let_def)
    from 1(1) [OF 1(2) Some refl refl _ 1(2)] show ?thesis unfolding l p by (simp add: glue_Cons)
  qed
qed

text \<open>
  C34: \<open>replace_literal\<close> replaces exactly the leftmost, non-overlapping occurrences. The line is cut at these occurrences into pieces; the result of a global
  replacement is the same pieces around the new text, that of a single replacement has only the first occurrence replaced, and the flag tells whether there
  was an occurrence at all.
\<close>

theorem replace_literal_spec:
  assumes "pat \<noteq> []"
  shows "glue pat (pieces pat line) = line \<and> cuts pat (pieces pat line) \<and> str_find pat (last (pieces pat line)) = None \<and>
    replace_literal line pat to True = (glue to (pieces pat line), contains_literal line pat False) \<and>
    replace_literal line pat to False =
      (case pieces pat line of [] \<Rightarrow> line | p # ps \<Rightarrow> if ps = [] then line else p @ to @ glue pat ps, contains_literal line pat False)"
proof -
  note sp = pieces_spec [OF assms, of line]
  show ?thesis
  proof (cases "str_find pat line")
    case None
    then have p: "pieces pat line = [line]" by (subst pieces.simps) simp
    with None assms sp show ?thesis
      by (simp add: replace_literal_def contains_literal_def) (simp add: replace_loop.simps)
  next
    case (Some i)
    let ?r = "drop (i + length pat) line"
    have p: "pieces pat line = take i line # pieces pat ?r" using assms Some by (subst pieces.simps) simp
    obtain rest' out' where l: "replace_loop pat to True line [] False = (rest', out', True, False)" "out' @ rest' = glue to (pieces pat line)"
      using replace_loop_all [OF assms, of to line "[]" False] by (auto simp: p)
    have one: "replace_loop pat to False line [] False = (?r, take i line @ to @ ?r, True, True)"
      using assms Some by (simp add: replace_loop.simps Let_def)
    have "replace_literal line pat to True = (glue to (pieces pat line), True)" using l assms by (simp add: replace_literal_def)
    moreover have "replace_literal line pat to False = (take i line @ to @ glue pat (pieces pat ?r), True)"
      using one assms pieces_spec [OF assms, of ?r] by (simp add: replace_literal_def)
    moreover have "contains_literal line pat False" using assms Some by (simp add: contains_literal_def)
    ultimately show ?thesis using sp p by simp
  qed
qed

theorem replace_literal_spec_witness:
  "replace_literal ''a.b.c'' ''.'' ''--'' True = (''a--b--c'', True) \<and> glue ''.'' (pieces ''.'' ''a.b.c'') = ''a.b.c''"
proof -
  have "glue ''--'' (pieces ''.'' ''a.b.c'') = ''a--b--c''" by code_simp
  moreover have "contains_literal ''a.b.c'' ''.'' False" by code_simp
  ultimately show ?thesis using replace_literal_spec [of "''.''" "''a.b.c''" "''--''"] by simp
qed

end
