(* ===== verification/Rust_Utf.thy ===== *)
theory Rust_Utf
  imports Rust_Str
begin

text \<open>
  Code points: \<^verbatim>\<open>str::chars\<close>, \<^verbatim>\<open>char::encode_utf8\<close>, \<^verbatim>\<open>str::encode_utf16\<close> and \<^verbatim>\<open>String::from_utf16\<close> of the Rust standard library. A character is its code
  point, a natural number.
\<close>

section \<open>UTF-8\<close>

definition scalar :: "nat \<Rightarrow> bool" where
  "scalar c \<longleftrightarrow> c < 0xD800 \<or> 0xDFFF < c \<and> c < 0x110000"

fun utf8_chars :: "bytes \<Rightarrow> nat list" where
  "utf8_chars [] = []"
| "utf8_chars (a # xs) =
     (if a < 0x80 then unat a # utf8_chars xs
      else case xs of [] \<Rightarrow> [] | b # ys \<Rightarrow>
        if a \<le> 0xDF then ((unat a - 0xC0) * 64 + (unat b - 0x80)) # utf8_chars ys
        else case ys of [] \<Rightarrow> [] | c # zs \<Rightarrow>
          if a \<le> 0xEF then ((unat a - 0xE0) * 4096 + (unat b - 0x80) * 64 + (unat c - 0x80)) # utf8_chars zs
          else case zs of [] \<Rightarrow> [] | d # ws \<Rightarrow>
            ((unat a - 0xF0) * 262144 + (unat b - 0x80) * 4096 + (unat c - 0x80) * 64 + (unat d - 0x80)) # utf8_chars ws)"

definition chars_of :: "string \<Rightarrow> nat list" where
  "chars_of s = utf8_chars (bytes_of_string s)"

definition utf8_enc :: "nat \<Rightarrow> nat list" where
  "utf8_enc c =
     (if c < 0x80 then [c]
      else if c < 0x800 then [0xC0 + c div 64, 0x80 + c mod 64]
      else if c < 0x10000 then [0xE0 + c div 4096, 0x80 + c div 64 mod 64, 0x80 + c mod 64]
      else [0xF0 + c div 262144, 0x80 + c div 4096 mod 64, 0x80 + c div 64 mod 64, 0x80 + c mod 64])"

definition str_of_chars :: "nat list \<Rightarrow> string" where
  "str_of_chars cs = string_of_bytes (concat (map (\<lambda>c. map of_nat (utf8_enc c)) cs))"

lemma of_nat_unat_u8 [simp]: "(of_nat (unat b) :: u8) = b"
  by simp

lemma enc2:
  assumes "2 \<le> x" "x < 32" "y < 64"
  shows "utf8_enc (x * 64 + y) = [0xC0 + x, 0x80 + y] \<and> scalar (x * 64 + y)"
  using assms by (auto simp: utf8_enc_def scalar_def)

lemma enc3:
  assumes "x < 16" "y < 64" "z < 64" "x = 0 \<longrightarrow> 32 \<le> y" "x = 13 \<longrightarrow> y < 32"
  shows "utf8_enc (x * 4096 + y * 64 + z) = [0xE0 + x, 0x80 + y, 0x80 + z] \<and> scalar (x * 4096 + y * 64 + z)"
proof -
  let ?c = "x * 4096 + y * 64 + z"
  have e: "?c = z + 64 * (x * 64 + y)" by simp
  have "?c mod 64 = z" unfolding e using assms(3) by (simp only: mod_mult_self2 mod_less)
  moreover have "?c div 4096 = x" "?c div 64 = x * 64 + y" using assms(2,3) by auto
  ultimately have d: "?c div 4096 = x" "?c div 64 = x * 64 + y" "?c mod 64 = z" by blast+
  have "x * 64 + y < 1024" "32 \<le> x * 64 + y" using assms by (cases "x = 0"; simp)+
  then have "0x800 \<le> ?c" "?c < 0x10000" using assms(3) by linarith+
  moreover have "?c < 0xD800 \<or> 0xDFFF < ?c"
  proof (cases "x \<le> 12")
    case False
    with assms show ?thesis by (cases "x = 13") auto
  qed (use assms in auto)
  ultimately show ?thesis using d assms(2) by (simp add: utf8_enc_def scalar_def)
qed

lemma enc4:
  assumes "x < 5" "y < 64" "z < 64" "w < 64" "x = 0 \<longrightarrow> 16 \<le> y" "x = 4 \<longrightarrow> y < 16"
  shows "utf8_enc (x * 262144 + y * 4096 + z * 64 + w) = [0xF0 + x, 0x80 + y, 0x80 + z, 0x80 + w] \<and>
    scalar (x * 262144 + y * 4096 + z * 64 + w)"
proof -
  let ?c = "x * 262144 + y * 4096 + z * 64 + w"
  have e: "?c = w + 64 * (x * 4096 + y * 64 + z)" by simp
  have "?c mod 64 = w" unfolding e using assms(4) by (simp only: mod_mult_self2 mod_less)
  moreover have "?c div 262144 = x" "?c div 4096 = x * 64 + y" "?c div 64 = x * 4096 + y * 64 + z" using assms(2-4) by auto
  ultimately have d: "?c div 262144 = x" "?c div 4096 = x * 64 + y" "?c div 64 = x * 4096 + y * 64 + z" "?c mod 64 = w" by blast+
  have "16 \<le> x * 64 + y" "x * 64 + y < 272" using assms by (cases "x = 0"; simp) (cases "x = 4"; use assms in simp)
  then have "0x10000 \<le> ?c" "?c < 0x110000" using assms(3,4) by linarith+
  moreover have "(x * 4096 + y * 64 + z) mod 64 = z"
  proof -
    have "x * 4096 + y * 64 + z = z + 64 * (x * 64 + y)" by simp
    then show ?thesis using assms(3) by (simp only: mod_mult_self2 mod_less)
  qed
  ultimately show ?thesis using d assms(2) by (simp add: utf8_enc_def scalar_def)
qed

lemma of_nat_eq_u8: "unat b = n \<Longrightarrow> (of_nat n :: u8) = b"
  by auto

text \<open>One character of a well-formed sequence: its bytes, and what follows.\<close>

lemma utf8_step:
  assumes "utf8_valid (a # xs)"
  shows "\<exists>c k. utf8_chars (a # xs) = c # utf8_chars (drop k xs) \<and> map of_nat (utf8_enc c) = a # take k xs \<and> scalar c \<and> utf8_valid (drop k xs)"
proof -
  note n = word_less_nat_alt word_le_nat_alt
  consider (1) "a < 0x80" | (2) b ys where "\<not> a < 0x80" "xs = b # ys" "0xC2 \<le> a" "a \<le> 0xDF"
    | (3) b c zs where "\<not> a < 0x80" "xs = b # c # zs" "0xE0 \<le> a" "a \<le> 0xEF"
    | (4) b c d ws where "\<not> a < 0x80" "xs = b # c # d # ws" "0xF0 \<le> a" "a \<le> 0xF4"
    using assms by (auto split: list.splits if_splits)
  then show ?thesis
  proof cases
    case 1
    then have "unat a < 0x80" by (simp add: n)
    then have "map of_nat (utf8_enc (unat a)) = [a]" "scalar (unat a)" by (simp_all add: utf8_enc_def scalar_def)
    with 1 assms show ?thesis by (intro exI [of _ "unat a"] exI [of _ 0]) simp
  next
    case 2
    then have v: "utf8_cont b" "utf8_valid ys" using assms by simp_all
    define x y where "x = unat a - 0xC0" and "y = unat b - 0x80"
    then have u: "unat a = 0xC0 + x" "unat b = 0x80 + y" "2 \<le> x" "x < 32" "y < 64"
      using 2 v(1) by (auto simp: n utf8_cont_def)
    from enc2 [OF u(3-5)] u(1,2) have "map of_nat (utf8_enc (x * 64 + y)) = [a, b]" "scalar (x * 64 + y)"
      by (simp_all add: of_nat_eq_u8 del: of_nat_add)
    with 2 v u show ?thesis by (intro exI [of _ "x * 64 + y"] exI [of _ 1]) simp
  next
    case 3
    then have na: "\<not> a \<le> 0xDF" by (auto simp: n)
    then have v: "if a = 0xE0 then 0xA0 \<le> b \<and> b \<le> 0xBF else if a = 0xED then 0x80 \<le> b \<and> b \<le> 0x9F else utf8_cont b" "utf8_cont c" "utf8_valid zs"
      using assms 3 by simp_all
    define x y z where "x = unat a - 0xE0" and "y = unat b - 0x80" and "z = unat c - 0x80"
    then have u: "unat a = 0xE0 + x" "unat b = 0x80 + y" "unat c = 0x80 + z" "x < 16" "y < 64" "z < 64" "x = 0 \<longrightarrow> 32 \<le> y" "x = 13 \<longrightarrow> y < 32"
      using 3 v(1,2) by (auto simp: n utf8_cont_def word_unat_eq_iff split: if_splits)
    from enc3 [OF u(4-8)] u(1-3) have "map of_nat (utf8_enc (x * 4096 + y * 64 + z)) = [a, b, c]" "scalar (x * 4096 + y * 64 + z)"
      by (simp_all add: of_nat_eq_u8 del: of_nat_add)
    with 3 na v u show ?thesis by (intro exI [of _ "x * 4096 + y * 64 + z"] exI [of _ 2]) simp
  next
    case 4
    then have na: "\<not> a \<le> 0xDF" "\<not> a \<le> 0xEF" by (auto simp: n)
    then have v: "if a = 0xF0 then 0x90 \<le> b \<and> b \<le> 0xBF else if a = 0xF4 then 0x80 \<le> b \<and> b \<le> 0x8F else utf8_cont b"
      "utf8_cont c" "utf8_cont d" "utf8_valid ws"
      using assms 4 by simp_all
    define x y z w where "x = unat a - 0xF0" and "y = unat b - 0x80" and "z = unat c - 0x80" and "w = unat d - 0x80"
    then have u: "unat a = 0xF0 + x" "unat b = 0x80 + y" "unat c = 0x80 + z" "unat d = 0x80 + w"
      "x < 5" "y < 64" "z < 64" "w < 64" "x = 0 \<longrightarrow> 16 \<le> y" "x = 4 \<longrightarrow> y < 16"
      using 4 v(1-3) by (auto simp: n utf8_cont_def word_unat_eq_iff split: if_splits)
    from enc4 [OF u(5-10)] u(1-4) have "map of_nat (utf8_enc (x * 262144 + y * 4096 + z * 64 + w)) = [a, b, c, d]"
        "scalar (x * 262144 + y * 4096 + z * 64 + w)"
      by (simp_all add: of_nat_eq_u8 del: of_nat_add)
    with 4 na v u show ?thesis by (intro exI [of _ "x * 262144 + y * 4096 + z * 64 + w"] exI [of _ 3]) (simp add: numeral_3_eq_3)
  qed
qed

lemma utf8_round:
  "utf8_valid bs \<Longrightarrow> concat (map (\<lambda>c. map of_nat (utf8_enc c)) (utf8_chars bs)) = bs \<and> (\<forall>c\<in>set (utf8_chars bs). scalar c)"
proof (induction bs rule: length_induct)
  case (1 bs)
  show ?case
  proof (cases bs)
    case (Cons a xs)
    from utf8_step [OF 1(2) [unfolded Cons]] obtain c k where s: "utf8_chars bs = c # utf8_chars (drop k xs)"
      "map of_nat (utf8_enc c) = a # take k xs" "scalar c" "utf8_valid (drop k xs)" unfolding Cons by (elim exE conjE)
    have "length (drop k xs) < length bs" using Cons by simp
    with 1(1) s(4) have "concat (map (\<lambda>c. map of_nat (utf8_enc c)) (utf8_chars (drop k xs))) = drop k xs" "\<forall>c\<in>set (utf8_chars (drop k xs)). scalar c"
      by blast+
    with s(2,3) Cons show ?thesis unfolding s(1) by simp
  qed simp
qed

lemma str_of_chars_of:
  "utf8_valid (bytes_of_string s) \<Longrightarrow> str_of_chars (chars_of s) = s"
  using utf8_round [of "bytes_of_string s"] by (simp add: str_of_chars_def chars_of_def)

lemma chars_scalar: "utf8_valid (bytes_of_string s) \<Longrightarrow> c \<in> set (chars_of s) \<Longrightarrow> scalar c"
  using utf8_round [of "bytes_of_string s"] by (simp add: chars_of_def)

section \<open>UTF-16\<close>

definition utf16_enc :: "nat \<Rightarrow> u16 list" where
  "utf16_enc c =
     (if c < 0x10000 then [of_nat c]
      else [of_nat (0xD800 + (c - 0x10000) div 1024), of_nat (0xDC00 + (c - 0x10000) mod 1024)])"

definition encode_utf16 :: "string \<Rightarrow> u16 list" where
  "encode_utf16 s = concat (map utf16_enc (chars_of s))"

text \<open>An unpaired surrogate is an error.\<close>

fun utf16_chars :: "u16 list \<Rightarrow> nat list option" where
  "utf16_chars [] = Some []"
| "utf16_chars (u # us) =
     (if u < 0xD800 \<or> 0xDFFF < u then map_option (Cons (unat u)) (utf16_chars us)
      else if 0xDC00 \<le> u then None
      else case us of [] \<Rightarrow> None | v # vs \<Rightarrow>
        if 0xDC00 \<le> v \<and> v \<le> 0xDFFF then map_option (Cons (0x10000 + (unat u - 0xD800) * 1024 + (unat v - 0xDC00))) (utf16_chars vs)
        else None)"

definition from_utf16 :: "u16 list \<Rightarrow> string option" where
  "from_utf16 us = map_option str_of_chars (utf16_chars us)"

lemma utf16_step:
  assumes "scalar c"
  shows "utf16_chars (utf16_enc c @ us) = map_option (Cons c) (utf16_chars us)"
proof (cases "c < 0x10000")
  case True
  then have "unat (of_nat c :: u16) = c" by (simp add: unat_of_nat)
  with True assms show ?thesis by (auto simp: utf16_enc_def scalar_def word_less_nat_alt)
next
  case False
  define h l where "h = (c - 0x10000) div 1024" and "l = (c - 0x10000) mod 1024"
  have c: "c = 0x10000 + h * 1024 + l" using False by (simp add: h_def l_def)
  have b: "h < 1024" "l < 1024" using assms False by (auto simp: h_def l_def scalar_def)
  have u: "unat (of_nat (0xD800 + h) :: u16) = 0xD800 + h" "unat (of_nat (0xDC00 + l) :: u16) = 0xDC00 + l"
    using b by (simp_all add: unat_of_nat del: of_nat_add)
  have e: "utf16_enc c = [of_nat (0xD800 + h), of_nat (0xDC00 + l)]" using False by (simp add: utf16_enc_def h_def l_def del: of_nat_add)
  show ?thesis unfolding e using u b by (simp add: word_less_nat_alt word_le_nat_alt c del: of_nat_add)
qed

lemma utf16_round: "\<forall>c\<in>set cs. scalar c \<Longrightarrow> utf16_chars (concat (map utf16_enc cs)) = Some cs"
  by (induction cs) (simp_all add: utf16_step)

lemma from_encode_utf16:
  assumes "utf8_valid (bytes_of_string s)"
  shows "from_utf16 (encode_utf16 s) = Some s"
  using utf16_round [of "chars_of s"] chars_scalar [OF assms] str_of_chars_of [OF assms]
  by (simp add: from_utf16_def encode_utf16_def)

section \<open>Trimming\<close>

text \<open>\<^verbatim>\<open>str::trim\<close>: Unicode white space off both ends.\<close>

definition is_whitespace :: "nat \<Rightarrow> bool" where
  "is_whitespace c = (9 \<le> c \<and> c \<le> 13 \<or> 0x2000 \<le> c \<and> c \<le> 0x200A \<or> c \<in> set [0x20, 0x85, 0xA0, 0x1680, 0x2028, 0x2029, 0x202F, 0x205F, 0x3000])"

definition trim :: "string \<Rightarrow> string" where
  "trim s = str_of_chars (rev (dropWhile is_whitespace (rev (dropWhile is_whitespace (chars_of s)))))"

definition trim_end_matches :: "char \<Rightarrow> string \<Rightarrow> string" where
  "trim_end_matches c s = rev (dropWhile (\<lambda>x. x = c) (rev s))"

end
