(* ===== verification/Fat_Core.thy ===== *)
theory Fat_Core
  imports Rust_Utf
begin

text \<open>
  \<^verbatim>\<open>libs/fat-core/src/lib.rs\<close>: the on-disk records of FAT file systems. The boot sector, the FSInfo sector, long-name entries and the generation of 8.3
  names. A sector is the list of its bytes, an array of fixed length a list; \<open>u16_at\<close> and \<open>u32_at\<close> read little-endian fields, in range by the length checks of the callers.
\<close>

section \<open>Fields\<close>

definition u16_at :: "bytes \<Rightarrow> nat \<Rightarrow> u16" where
  "u16_at b off = from_le [b ! off, b ! (off + 1)]"

definition u32_at :: "bytes \<Rightarrow> nat \<Rightarrow> u32" where
  "u32_at b off = from_le [b ! off, b ! (off + 1), b ! (off + 2), b ! (off + 3)]"

section \<open>Boot sector\<close>

datatype FatType = Fat16 | Fat32

record Bpb =
  bytes_per_sector :: u16
  sectors_per_cluster :: u8
  reserved_sectors :: u16
  num_fats :: u8
  root_entry_count :: u16
  total_sectors :: u32
  fat_size :: u32
  bpb_root_cluster :: u32
  bpb_fsinfo_sector :: u16
  fat_type :: FatType

definition parse_bpb :: "bytes \<Rightarrow> (string, Bpb) res" where
  "parse_bpb b =
     (if length b < 512 then Err ''BPB buffer too small''
      else if b ! 510 \<noteq> 0x55 \<or> b ! 511 \<noteq> 0xAA then Err ''Invalid boot sector signature''
      else
        let total_sectors_16 = u16_at b 19; fat_size_16 = u16_at b 22; total_sectors_32 = u32_at b 32; fat_size_32 = u32_at b 36;
            root_entries = u16_at b 17;
            total = (if total_sectors_16 \<noteq> 0 then ucast total_sectors_16 else total_sectors_32);
            (ty, fsize) = (if fat_size_16 \<noteq> 0 \<and> root_entries \<noteq> 0 then (Fat16, ucast fat_size_16) else (Fat32, fat_size_32))
        in Ok \<lparr>bytes_per_sector = u16_at b 11, sectors_per_cluster = b ! 13, reserved_sectors = u16_at b 14, num_fats = b ! 16,
                root_entry_count = root_entries, total_sectors = total, fat_size = fsize, bpb_root_cluster = u32_at b 44,
                bpb_fsinfo_sector = u16_at b 48, fat_type = ty\<rparr>)"

section \<open>FSInfo\<close>

record FsInfo =
  free_cluster_count :: "u32 option"
  next_free_cluster :: "u32 option"

definition unset_or :: "u32 \<Rightarrow> u32 option" where
  "unset_or raw = (if raw = 0xFFFFFFFF then None else Some raw)"

definition parse_fsinfo :: "bytes \<Rightarrow> FsInfo option" where
  "parse_fsinfo b =
     (if length b < 512 then None
      else if u32_at b 0 \<noteq> 0x41615252 \<or> u32_at b 0x1E4 \<noteq> 0x61417272 \<or> u32_at b 0x1FC \<noteq> 0xAA550000 then None
      else Some \<lparr>free_cluster_count = unset_or (u32_at b 0x1E8), next_free_cluster = unset_or (u32_at b 0x1EC)\<rparr>)"

definition unwrap_or :: "'a option \<Rightarrow> 'a \<Rightarrow> 'a" where
  "unwrap_or x d = (case x of Some v \<Rightarrow> v | None \<Rightarrow> d)"

definition write_fsinfo :: "bytes \<Rightarrow> FsInfo \<Rightarrow> bytes" where
  "write_fsinfo b info =
     (if length b < 512 then b
      else
        let b = blit 0 (le32 0x41615252) b; b = blit 0x1E4 (le32 0x61417272) b; b = blit 0x1FC (le32 0xAA550000) b;
            b = blit 0x1E8 (le32 (unwrap_or (free_cluster_count info) 0xFFFFFFFF)) b
        in blit 0x1EC (le32 (unwrap_or (next_free_cluster info) 0xFFFFFFFF)) b)"

section \<open>Long names\<close>

definition ATTR_LFN :: u8 where "ATTR_LFN = 0x0F"

text \<open>\<^verbatim>\<open>sum.rotate_right(1).wrapping_add(b)\<close>\<close>

definition lfn_checksum :: "bytes \<Rightarrow> u8" where
  "lfn_checksum short_name = fold (\<lambda>b sum. (drop_bit 1 sum OR push_bit 7 sum) + b) short_name 0"

record LfnPart =
  lorder :: u8
  lchecksum :: u8
  lname :: "u16 list"

definition LFN_OFFSETS :: "nat list" where
  "LFN_OFFSETS = [1, 3, 5, 7, 9] @ [14, 16, 18, 20, 22, 24] @ [28, 30]"

definition parse_lfn_part :: "bytes \<Rightarrow> (string, LfnPart) res" where
  "parse_lfn_part entry =
     (if length entry < 32 then Err ''entry too small''
      else Ok \<lparr>lorder = entry ! 0, lchecksum = entry ! 13, lname = map (u16_at entry) LFN_OFFSETS\<rparr>)"

text \<open>The name ends at the first zero unit; fill units are skipped.\<close>

definition decode_lfn_entries :: "LfnPart list \<Rightarrow> (string, string) res" where
  "decode_lfn_entries entries =
     (let utf16 = concat (map lname entries); out = filter (\<lambda>ch. ch \<noteq> 0xFFFF) (takeWhile (\<lambda>ch. ch \<noteq> 0) utf16) in
      case from_utf16 out of Some s \<Rightarrow> Ok s | None \<Rightarrow> Err ''invalid utf16'')"

section \<open>Short names\<close>

definition is_valid_short_char :: "u8 \<Rightarrow> bool" where
  "is_valid_short_char c =
     (65 \<le> c \<and> c \<le> 90 \<or> 48 \<le> c \<and> c \<le> 57 \<or> c \<in> set [0x24, 0x25, 0x27, 0x2D, 0x5F, 0x40, 0x7E, 0x21, 0x28, 0x29, 0x7B, 0x7D, 0x5E, 0x23, 0x26])"

text \<open>\<^verbatim>\<open>c.to_ascii_uppercase() as u8\<close>, then \<^verbatim>\<open>_\<close> for what an 8.3 name cannot hold.\<close>

definition short_char :: "nat \<Rightarrow> u8" where
  "short_char ch =
     (let c = of_nat (if 97 \<le> ch \<and> ch \<le> 122 then ch - 32 else ch) in if is_valid_short_char c then c else 0x5F)"

definition short_base :: "string \<Rightarrow> bytes" where
  "short_base base = map short_char (filter (\<lambda>c. c \<noteq> 32) (chars_of base))"

definition short_ext :: "string \<Rightarrow> bytes" where
  "short_ext ext = take 3 (map short_char (chars_of ext))"

text \<open>The candidate with a given suffix; the base is at most 8 bytes once the first candidate was made.\<close>

definition short_candidate :: "bytes \<Rightarrow> bytes \<Rightarrow> nat \<Rightarrow> bytes" where
  "short_candidate base ext sfx =
     (let temp = replicate 11 0x20;
          temp = (if sfx = 0 then blit 0 base temp
                  else blit 6 [0x7E, 0x30 + of_nat sfx] (blit 0 (take 6 base) temp))
      in blit 8 ext temp)"

function short_loop :: "bytes \<Rightarrow> bytes \<Rightarrow> (bytes \<Rightarrow> bool) \<Rightarrow> nat \<Rightarrow> bytes" where
  "short_loop base ext taken sfx =
     (let temp = short_candidate base ext sfx in
      if \<not> taken temp then temp
      else if sfx = 0 then short_loop base ext taken 1
      else if sfx < 9 then short_loop base ext taken (sfx + 1)
      else replicate 11 0x20)"
  by pat_completeness auto
termination
  by (relation "measure (\<lambda>(base, ext, taken, sfx). 9 - sfx)") auto

declare short_loop.simps [simp del]

definition make_short_name :: "string \<Rightarrow> (bytes \<Rightarrow> bool) \<Rightarrow> bytes" where
  "make_short_name long taken =
     (let (base, ext) = (case rsplit_last (CHR ''.'') long of Some (a, b) \<Rightarrow> (a, b) | None \<Rightarrow> (long, [])) in
      short_loop (take 8 (short_base base)) (short_ext ext) taken 0)"

section \<open>FSInfo round trip\<close>

lemma take_drop_4: "off + 4 \<le> length b \<Longrightarrow> [b ! off, b ! (off + 1), b ! (off + 2), b ! (off + 3)] = take 4 (drop off b)"
  by (intro nth_equalityI) (auto simp: less_Suc_eq numeral_eq_Suc)

lemma u32_at_blit:
  assumes "off + 4 \<le> length b"
  shows "u32_at (blit off (le32 v) b) off = v"
proof -
  have "take 4 (drop off (blit off (le32 v) b)) = le32 v" using assms by (simp add: blit_def)
  then show ?thesis using take_drop_4 [of off "blit off (le32 v) b"] assms by (simp add: u32_at_def)
qed

lemma u32_at_blit_other:
  assumes "off + length ys \<le> length b" and "p + 4 \<le> length b" and "p + 4 \<le> off \<or> off + length ys \<le> p"
  shows "u32_at (blit off ys b) p = u32_at b p"
  using assms by (auto simp: u32_at_def nth_blit)

lemma fsinfo_round_trip:
  assumes "512 \<le> length b" and "free_cluster_count info \<noteq> Some 0xFFFFFFFF" and "next_free_cluster info \<noteq> Some 0xFFFFFFFF"
  shows "parse_fsinfo (write_fsinfo b info) = Some info"
proof -
  have "unset_or (unwrap_or (free_cluster_count info) 0xFFFFFFFF) = free_cluster_count info"
    "unset_or (unwrap_or (next_free_cluster info) 0xFFFFFFFF) = next_free_cluster info"
    using assms(2,3) by (auto simp: unset_or_def unwrap_or_def split: option.split)
  then show ?thesis using assms(1) by (simp add: parse_fsinfo_def write_fsinfo_def Let_def u32_at_blit u32_at_blit_other)
qed

section \<open>Short names are free and well formed\<close>

text \<open>
  A short name handed out is not taken, with one exception: when all ten candidates are taken, the blank name is handed out whether or not it is.
\<close>

lemma short_loop_free: "\<not> taken (short_loop base ext taken n) \<or> short_loop base ext taken n = replicate 11 0x20"
proof (induction base ext taken n rule: short_loop.induct)
  case (1 base ext taken n)
  show ?case by (subst (1 2) short_loop.simps) (use 1 in \<open>simp add: Let_def\<close>)
qed

lemma short_candidate_length: "length base \<le> 8 \<Longrightarrow> length ext \<le> 3 \<Longrightarrow> length (short_candidate base ext n) = 11"
  by (simp add: short_candidate_def Let_def)

lemma short_loop_length: "length base \<le> 8 \<Longrightarrow> length ext \<le> 3 \<Longrightarrow> length (short_loop base ext taken n) = 11"
proof (induction base ext taken n rule: short_loop.induct)
  case (1 base ext taken n)
  then show ?case by (subst short_loop.simps) (simp add: Let_def short_candidate_length)
qed

lemma make_short_name_length: "length (make_short_name long taken) = 11"
  unfolding make_short_name_def Let_def by (simp add: short_loop_length short_ext_def split: option.split)

lemma make_short_name_free: "\<not> taken (make_short_name long taken) \<or> make_short_name long taken = replicate 11 0x20"
proof -
  obtain base ext where "(case rsplit_last (CHR ''.'') long of Some (a, b) \<Rightarrow> (a, b) | None \<Rightarrow> (long, [])) = (base, ext)" by fastforce
  then show ?thesis unfolding make_short_name_def Let_def by (simp only: prod.case) (rule short_loop_free)
qed

lemma blank_short_name_taken: "make_short_name ''a.txt'' (\<lambda>_. True) = replicate 11 0x20"
  by code_simp

end
