(* ===== verification/Fat32.thy ===== *)
theory Fat32
  imports Fat_Core
begin

text \<open>
  \<^verbatim>\<open>libs/fat32/src/lib.rs\<close>: the FAT32 driver over a block device. A device answers each sector either always (a read returns what was last
  written) or never. Sector and cluster numbers are 32-bit words with checked arithmetic, as a build with overflow checks has it; an
  index past the end of a sector buffer is a panic as well. A loop along a cluster chain is \<open>None\<close> when the chain has no end.
\<close>

section \<open>State\<close>

definition SECTOR_SIZE :: nat where "SECTOR_SIZE = 512"
definition ATTR_DIRECTORY :: u8 where "ATTR_DIRECTORY = 0x10"
definition ATTR_VOLUME_ID :: u8 where "ATTR_VOLUME_ID = 0x08"
definition FAT32_EOC_MIN :: u32 where "FAT32_EOC_MIN = 0x0FFFFFF8"

record DirEntry =
  de_name :: string
  de_short_name :: bytes
  de_attr :: u8
  de_first_cluster :: u32
  de_size :: u32

type_synonym disk = "u64 \<Rightarrow> bytes option"

record fat32 =
  bpb :: Bpb
  fat_start_sector :: u32
  data_start_sector :: u32
  root_cluster :: u32
  fsinfo_sector :: u32
  fsinfo :: "FsInfo option"
  dev :: disk

abbreviation spc :: "fat32 \<Rightarrow> u32" where
  "spc fs \<equiv> ucast (sectors_per_cluster (bpb fs))"

abbreviation bps :: "fat32 \<Rightarrow> u32" where
  "bps fs \<equiv> ucast (bytes_per_sector (bpb fs))"

section \<open>Sectors\<close>

definition read_sector :: "u64 \<Rightarrow> fat32 \<Rightarrow> (string, bytes) res" where
  "read_sector sector fs = (case dev fs sector of Some b \<Rightarrow> Ok b | None \<Rightarrow> Err ''read_sector failed'')"

definition write_sector :: "u64 \<Rightarrow> bytes \<Rightarrow> fat32 \<Rightarrow> (string, unit) res \<times> fat32" where
  "write_sector sector b fs =
     (case dev fs sector of
        Some _ \<Rightarrow> (Ok (), fs\<lparr>dev := (dev fs)(sector := Some b)\<rparr>)
      | None \<Rightarrow> (Err ''write_sector failed'', fs))"

text \<open>The sector numbers \<^verbatim>\<open>first_sector + i\<close> of the loops over a cluster.\<close>

definition sector_at :: "u32 \<Rightarrow> nat \<Rightarrow> (string, u64) res" where
  "sector_at first i = map_res id ucast (or_panic (cadd first (of_nat i)))"

definition cluster_to_sector :: "u32 \<Rightarrow> fat32 \<Rightarrow> (string, u32) res" where
  "cluster_to_sector cluster fs =
     or_panic (Option.bind (csub cluster 2) (\<lambda>c. Option.bind (cmul c (spc fs)) (cadd (data_start_sector fs))))"

section \<open>FSInfo\<close>

definition load_fsinfo :: "fat32 \<Rightarrow> fat32" where
  "load_fsinfo fs =
     (if fsinfo_sector fs = 0 \<or> fsinfo_sector fs = 0xFFFF then fs
      else case read_sector (ucast (fsinfo_sector fs)) fs of Ok b \<Rightarrow> fs\<lparr>fsinfo := parse_fsinfo b\<rparr> | _ \<Rightarrow> fs)"

definition flush_fsinfo :: "fat32 \<Rightarrow> (string, unit) res \<times> fat32" where
  "flush_fsinfo fs =
     (case fsinfo fs of
        None \<Rightarrow> (Ok (), fs)
      | Some info \<Rightarrow>
          if fsinfo_sector fs = 0 \<or> fsinfo_sector fs = 0xFFFF then (Ok (), fs)
          else ok_then (read_sector (ucast (fsinfo_sector fs)) fs) fs (\<lambda>b. write_sector (ucast (fsinfo_sector fs)) (write_fsinfo b info) fs))"

definition new_with_device :: "disk \<Rightarrow> (string, fat32) res" where
  "new_with_device d =
     (case d 0 of
        None \<Rightarrow> Err ''read_sector failed''
      | Some b \<Rightarrow>
          res_bind (parse_bpb b) (\<lambda>p.
            if fat_type p \<noteq> Fat32 then Err ''Not FAT32''
            else
              res_bind (or_panic (Option.bind (cmul (ucast (num_fats p)) (fat_size p)) (cadd (ucast (reserved_sectors p))))) (\<lambda>data_start.
                Ok (load_fsinfo \<lparr>bpb = p, fat_start_sector = ucast (reserved_sectors p), data_start_sector = data_start,
                  root_cluster = bpb_root_cluster p, fsinfo_sector = ucast (bpb_fsinfo_sector p), fsinfo = None, dev = d\<rparr>))))"

definition cluster_bytes :: "fat32 \<Rightarrow> u32" where
  "cluster_bytes fs = bps fs * spc fs"

definition total_clusters :: "fat32 \<Rightarrow> (string, u32) res" where
  "total_clusters fs =
     (let data_sectors = saturating_sub (total_sectors (bpb fs)) (data_start_sector fs) in
      if spc fs = 0 then Panic else Ok (data_sectors div spc fs))"

section \<open>The allocation table\<close>

text \<open>Where the entry of a cluster is: the sector in the first copy of the table, and the offset in it.\<close>

definition fat_position :: "u32 \<Rightarrow> fat32 \<Rightarrow> (string, u32 \<times> nat) res" where
  "fat_position cluster fs =
     or_panic (Option.bind (cmul cluster 4) (\<lambda>fat_offset.
       if bps fs = 0 then None
       else Option.bind (cadd (fat_start_sector fs) (fat_offset div bps fs)) (\<lambda>sector. Some (sector, unat (fat_offset mod bps fs)))))"

definition read_fat_entry :: "u32 \<Rightarrow> fat32 \<Rightarrow> (string, u32) res" where
  "read_fat_entry cluster fs =
     res_bind (fat_position cluster fs) (\<lambda>(sector, off).
     res_bind (read_sector (ucast sector) fs) (\<lambda>b.
       if off + 3 < SECTOR_SIZE then Ok (u32_at b off AND 0x0FFFFFFF) else Panic))"

text \<open>The loop over the copies of the table.\<close>

fun write_fats :: "u32 \<Rightarrow> nat \<Rightarrow> bytes \<Rightarrow> nat list \<Rightarrow> fat32 \<Rightarrow> (string, unit) res \<times> fat32" where
  "write_fats sector off bs [] fs = (Ok (), fs)"
| "write_fats sector off bs (fat_idx # idxs) fs =
     ok_then (or_panic (Option.bind (cmul (of_nat fat_idx) (fat_size (bpb fs))) (cadd sector))) fs (\<lambda>fat_sector.
     ok_then (read_sector (ucast fat_sector) fs) fs (\<lambda>b.
       if off + 3 < SECTOR_SIZE then
         (case write_sector (ucast fat_sector) (blit off bs b) fs of (r, fs) \<Rightarrow> ok_then r fs (\<lambda>_. write_fats sector off bs idxs fs))
       else (Panic, fs)))"

definition write_fat_entry :: "u32 \<Rightarrow> u32 \<Rightarrow> fat32 \<Rightarrow> (string, unit) res \<times> fat32" where
  "write_fat_entry cluster v fs =
     ok_then (fat_position cluster fs) fs (\<lambda>(sector, off).
       write_fats sector off (le32 (v AND 0x0FFFFFFF)) [0..<unat (num_fats (bpb fs))] fs)"

definition next_cluster :: "u32 \<Rightarrow> fat32 \<Rightarrow> (string, u32 option) res" where
  "next_cluster cluster fs =
     res_bind (read_fat_entry cluster fs) (\<lambda>v. if v \<ge> FAT32_EOC_MIN \<or> v = 0 then Ok None else Ok (Some v))"

text \<open>Counting free clusters; the range is \<^verbatim>\<open>2..(total + 2)\<close>.\<close>

fun count_free :: "u32 list \<Rightarrow> u32 \<Rightarrow> fat32 \<Rightarrow> (string, u32) res" where
  "count_free [] free fs = Ok free"
| "count_free (c # cs) free fs =
     res_bind (read_fat_entry c fs) (\<lambda>v.
       if v = 0 then res_bind (or_panic (cadd free 1)) (\<lambda>free. count_free cs free fs) else count_free cs free fs)"

definition clusters_from :: "u32 \<Rightarrow> u32 \<Rightarrow> u32 list" where
  "clusters_from a b = map of_nat [unat a..<unat b]"

definition free_clusters :: "fat32 \<Rightarrow> (string, u32) res \<times> fat32" where
  "free_clusters fs =
     (case Option.bind (fsinfo fs) free_cluster_count of
        Some free \<Rightarrow> (Ok free, fs)
      | None \<Rightarrow>
          ok_then (total_clusters fs) fs (\<lambda>total.
          ok_then (or_panic (cadd total 2)) fs (\<lambda>limit.
          ok_then (count_free (clusters_from 2 limit) 0 fs) fs (\<lambda>free.
            (Ok free,
             if fsinfo fs \<noteq> None
             then snd (flush_fsinfo (fs\<lparr>fsinfo := Some \<lparr>free_cluster_count = Some free, next_free_cluster = None\<rparr>\<rparr>))
             else fs)))))"

section \<open>Allocation\<close>

definition took_cluster :: "u32 \<Rightarrow> fat32 \<Rightarrow> (string, u32) res \<times> fat32" where
  "took_cluster cluster fs =
     (case write_fat_entry cluster FAT32_EOC_MIN fs of (r, fs) \<Rightarrow>
      ok_then r fs (\<lambda>_.
        case fsinfo fs of
          None \<Rightarrow> (Ok cluster, fs)
        | Some info \<Rightarrow>
            ok_then (or_panic (cadd cluster 1)) fs (\<lambda>nxt.
              (Ok cluster, snd (flush_fsinfo (fs\<lparr>fsinfo := Some
                \<lparr>free_cluster_count = map_option (\<lambda>v. saturating_sub v 1) (free_cluster_count info), next_free_cluster = Some nxt\<rparr>\<rparr>))))))"

text \<open>The search of one of the two ranges: \<open>None\<close> when no entry in it is free.\<close>

fun alloc_scan :: "u32 list \<Rightarrow> fat32 \<Rightarrow> (string, u32) res option \<times> fat32" where
  "alloc_scan [] fs = (None, fs)"
| "alloc_scan (c # cs) fs =
     (case read_fat_entry c fs of
        Ok v \<Rightarrow> if v = 0 then (case took_cluster c fs of (r, fs) \<Rightarrow> (Some r, fs)) else alloc_scan cs fs
      | Err e \<Rightarrow> (Some (Err e), fs)
      | Panic \<Rightarrow> (Some Panic, fs))"

definition alloc_cluster :: "fat32 \<Rightarrow> (string, u32) res \<times> fat32" where
  "alloc_cluster fs =
     ok_then (or_panic (cmul (fat_size (bpb fs)) (bps fs))) fs (\<lambda>fat_bytes.
       let total_entries = fat_bytes div 4; start = unwrap_or (Option.bind (fsinfo fs) next_free_cluster) 2 in
       case alloc_scan (clusters_from start total_entries) fs of
         (Some r, fs) \<Rightarrow> (r, fs)
       | (None, fs) \<Rightarrow>
           (case alloc_scan (clusters_from 2 start) fs of
              (Some r, fs) \<Rightarrow> (r, fs)
            | (None, fs) \<Rightarrow> (Err ''no free cluster'', fs)))"

text \<open>The loop of \<^verbatim>\<open>free_cluster_chain\<close>, with the number of entries freed.\<close>

partial_function (option) free_loop :: "u32 \<Rightarrow> u32 \<Rightarrow> fat32 \<Rightarrow> ((string, u32) res \<times> fat32) option" where
  "free_loop cluster freed fs =
     (if cluster \<ge> 2 \<and> cluster < FAT32_EOC_MIN then
        (case read_fat_entry cluster fs of
           Ok nxt \<Rightarrow>
             (case write_fat_entry cluster 0 fs of
                (Ok _, fs) \<Rightarrow>
                  let freed = saturating_add freed 1 in
                  if nxt \<ge> FAT32_EOC_MIN \<or> nxt = 0 then Some (Ok freed, fs) else free_loop nxt freed fs
              | (Err e, fs) \<Rightarrow> Some (Err e, fs)
              | (Panic, fs) \<Rightarrow> Some (Panic, fs))
         | Err e \<Rightarrow> Some (Err e, fs)
         | Panic \<Rightarrow> Some (Panic, fs))
      else Some (Ok freed, fs))"

definition free_cluster_chain :: "u32 \<Rightarrow> fat32 \<Rightarrow> ((string, unit) res \<times> fat32) option" where
  "free_cluster_chain start fs =
     map_option (\<lambda>(r, fs). ok_then r fs (\<lambda>freed.
       (Ok (), case fsinfo fs of
          None \<Rightarrow> fs
        | Some info \<Rightarrow> snd (flush_fsinfo (fs\<lparr>fsinfo := Some
            \<lparr>free_cluster_count = map_option (\<lambda>v. saturating_add v freed) (free_cluster_count info), next_free_cluster = Some start\<rparr>\<rparr>)))))
       (free_loop start 0 fs)"

section \<open>Names\<close>

definition short_name_to_string :: "bytes \<Rightarrow> string" where
  "short_name_to_string name =
     (let part = (\<lambda>bs. trim_end_matches (CHR '' '') (unwrap_or (from_utf8 bs) []));
          base = part (take 8 name); ext = part (drop 8 name)
      in if ext = [] then base else base @ ''.'' @ ext)"

definition split_parent :: "string \<Rightarrow> (string, string \<times> string) res" where
  "split_parent path =
     (let path = trim path in
      if path = [] \<or> path = ''/'' then Err ''invalid path''
      else case rsplit_last (CHR ''/'') path of
             Some (dir, name) \<Rightarrow> Ok (if dir = [] then ''/'' else dir, trim_start_matches (CHR ''/'') (CHR ''/'' # name))
           | None \<Rightarrow> Ok (''/'', path))"

definition format_8_3_name :: "string \<Rightarrow> (string, bytes) res" where
  "format_8_3_name name =
     (if name = ''.'' then Ok (0x2E # replicate 10 0x20)
      else if name = ''..'' then Ok (0x2E # 0x2E # replicate 9 0x20)
      else
        let upper = map ascii_upper name; base = takeWhile (\<lambda>c. c \<noteq> CHR ''.'') upper; ext = drop (length base + 1) upper;
            field = (\<lambda>n bs. take n (take n bs @ replicate n 0x20))
        in if base = [] then Err ''invalid name'' else Ok (field 8 (bytes_of_string base) @ field 3 (bytes_of_string ext)))"

record LfnRaw =
  rorder :: u8
  rchecksum :: u8
  rname :: "u16 list"

text \<open>The unit of a name at one position of its entries: the name, one terminating zero, then fill.\<close>

definition lfn_unit :: "u16 list \<Rightarrow> nat \<Rightarrow> u16" where
  "lfn_unit utf16 idx = (if idx < length utf16 then utf16 ! idx else if idx = length utf16 then 0 else 0xFFFF)"

definition lfn_fragments :: "u16 list \<Rightarrow> u16 list list" where
  "lfn_fragments utf16 = map (\<lambda>k. map (\<lambda>i. lfn_unit utf16 (13 * k + i)) [0..<13]) [0..<(length utf16 + 12) div 13]"

definition build_lfn_entries :: "string \<Rightarrow> u8 \<Rightarrow> LfnRaw list" where
  "build_lfn_entries name checksum =
     (let parts = lfn_fragments (encode_utf16 name); total = length parts in
      map (\<lambda>(i, part). \<lparr>rorder = (if i = 0 then of_nat (total - i) OR 0x40 else of_nat (total - i)), rchecksum = checksum, rname = part\<rparr>)
        (enumerate 0 (rev parts)))"

definition write_lfn_entry :: "bytes \<Rightarrow> nat \<Rightarrow> LfnRaw \<Rightarrow> bytes" where
  "write_lfn_entry b offset e =
     fold (\<lambda>(off, ch) b. blit (offset + off) (le16 ch) b) (zip LFN_OFFSETS (rname e))
       (b[offset := rorder e, offset + 11 := ATTR_LFN, offset + 13 := rchecksum e, offset + 12 := 0, offset + 26 := 0, offset + 27 := 0])"

definition write_short_entry :: "bytes \<Rightarrow> nat \<Rightarrow> bytes \<Rightarrow> bool \<Rightarrow> u32 \<Rightarrow> u32 \<Rightarrow> bytes" where
  "write_short_entry b offset short_name is_dir first_cluster sz =
     (let b = blit offset short_name b; b = b[offset + 11 := if is_dir then ATTR_DIRECTORY else 0];
          b = blit (offset + 20) (le16 (ucast (drop_bit 16 first_cluster))) b;
          b = blit (offset + 26) (le16 (ucast (first_cluster AND 0xFFFF))) b
      in blit (offset + 28) (le32 sz) b)"

definition has_contiguous_free :: "bytes \<Rightarrow> nat \<Rightarrow> nat \<Rightarrow> bool" where
  "has_contiguous_free b start_entry count =
     list_all (\<lambda>i. (start_entry + i) * 32 < length b \<and> b ! ((start_entry + i) * 32) \<in> set [0, 0xE5]) [0..<count]"

section \<open>Reading directories\<close>

definition entry_cluster :: "bytes \<Rightarrow> nat \<Rightarrow> u32" where
  "entry_cluster b offset = push_bit 16 (ucast (u16_at b (offset + 20))) OR ucast (u16_at b (offset + 26))"

text \<open>The long name the collected parts give to a short entry, if they decode.\<close>

definition lfn_name :: "LfnPart list \<Rightarrow> bytes \<Rightarrow> string option" where
  "lfn_name parts short_name =
     (case decode_lfn_entries (sort_key (\<lambda>p. lorder p AND 0x1F) (filter (\<lambda>p. lchecksum p = lfn_checksum short_name) parts)) of
        Ok n \<Rightarrow> Some n
      | _ \<Rightarrow> None)"

definition sub_slice :: "nat \<Rightarrow> nat \<Rightarrow> bytes \<Rightarrow> bytes" where
  "sub_slice off n b = take n (drop off b)"

fun parse_entries :: "bytes \<Rightarrow> nat list \<Rightarrow> LfnPart list \<Rightarrow> DirEntry list \<Rightarrow> (string, DirEntry list) res" where
  "parse_entries b [] lfn_parts entries = Ok entries"
| "parse_entries b (i # idxs) lfn_parts entries =
     (let offset = i * 32; first = b ! offset; attr = b ! (offset + 11) in
      if first = 0 then Ok entries
      else if first = 0xE5 then parse_entries b idxs [] entries
      else if attr = ATTR_LFN then
        res_bind (parse_lfn_part (sub_slice offset 32 b)) (\<lambda>part. parse_entries b idxs (lfn_parts @ [part]) entries)
      else if attr AND ATTR_VOLUME_ID \<noteq> 0 then parse_entries b idxs [] entries
      else
        let short_name = sub_slice offset 11 b;
            name = (if lfn_parts \<noteq> [] then unwrap_or (lfn_name lfn_parts short_name) (short_name_to_string short_name)
                    else short_name_to_string short_name)
        in parse_entries b idxs [] (entries @ [\<lparr>de_name = name, de_short_name = short_name, de_attr = attr,
             de_first_cluster = entry_cluster b offset, de_size = u32_at b (offset + 28)\<rparr>]))"

definition parse_dir_entries :: "bytes \<Rightarrow> DirEntry list \<Rightarrow> (string, DirEntry list) res" where
  "parse_dir_entries b entries = parse_entries b [0..<length b div 32] [] entries"

definition cluster_sectors :: "fat32 \<Rightarrow> nat list" where
  "cluster_sectors fs = [0..<unat (sectors_per_cluster (bpb fs))]"

fun list_sectors :: "u32 \<Rightarrow> nat list \<Rightarrow> DirEntry list \<Rightarrow> fat32 \<Rightarrow> (string, DirEntry list) res" where
  "list_sectors first [] entries fs = Ok entries"
| "list_sectors first (i # idxs) entries fs =
     res_bind (sector_at first i) (\<lambda>sector.
     res_bind (read_sector sector fs) (\<lambda>b.
     res_bind (parse_dir_entries b entries) (\<lambda>entries. list_sectors first idxs entries fs)))"

partial_function (option) list_loop :: "u32 \<Rightarrow> DirEntry list \<Rightarrow> fat32 \<Rightarrow> (string, DirEntry list) res option" where
  "list_loop cluster entries fs =
     (case res_bind (cluster_to_sector cluster fs) (\<lambda>first. list_sectors first (cluster_sectors fs) entries fs) of
        Ok entries \<Rightarrow>
          (case next_cluster cluster fs of
             Ok (Some nxt) \<Rightarrow> list_loop nxt entries fs
           | Ok None \<Rightarrow> Some (Ok entries)
           | Err e \<Rightarrow> Some (Err e)
           | Panic \<Rightarrow> Some Panic)
      | Err e \<Rightarrow> Some (Err e)
      | Panic \<Rightarrow> Some Panic)"

definition list_dir_cluster :: "u32 \<Rightarrow> fat32 \<Rightarrow> (string, DirEntry list) res option" where
  "list_dir_cluster start_cluster fs = list_loop start_cluster [] fs"

text \<open>\<^verbatim>\<open>?\<close> after a call that may not return, without and with a change of the state.\<close>

definition await :: "('e, 'a) res option \<Rightarrow> ('a \<Rightarrow> ('e, 'b) res option) \<Rightarrow> ('e, 'b) res option" where
  "await r f = Option.bind r (\<lambda>r. case r of Ok a \<Rightarrow> f a | Err e \<Rightarrow> Some (Err e) | Panic \<Rightarrow> Some Panic)"

definition await_then :: "('e, 'a) res option \<Rightarrow> 's \<Rightarrow> ('a \<Rightarrow> (('e, 'b) res \<times> 's) option) \<Rightarrow> (('e, 'b) res \<times> 's) option" where
  "await_then r s f = Option.bind r (\<lambda>r. case r of Ok a \<Rightarrow> f a | Err e \<Rightarrow> Some (Err e, s) | Panic \<Rightarrow> Some (Panic, s))"

definition entry_matches :: "string \<Rightarrow> DirEntry \<Rightarrow> bool" where
  "entry_matches name e =
     (de_name e = name \<or> eq_ignore_ascii_case (de_name e) name \<or> eq_ignore_ascii_case (short_name_to_string (de_short_name e)) name)"

fun find_dir_parts :: "u32 \<Rightarrow> string list \<Rightarrow> fat32 \<Rightarrow> (string, u32) res option" where
  "find_dir_parts current_cluster [] fs = Some (Ok current_cluster)"
| "find_dir_parts current_cluster (part # parts) fs =
     await (list_dir_cluster current_cluster fs) (\<lambda>entries.
       case find (entry_matches part) entries of
         None \<Rightarrow> Some (Err ''Directory not found'')
       | Some entry \<Rightarrow>
           if de_attr entry AND ATTR_DIRECTORY = 0 then Some (Err ''Not a directory'')
           else find_dir_parts (de_first_cluster entry) parts fs)"

definition find_dir_cluster :: "string \<Rightarrow> fat32 \<Rightarrow> (string, u32) res option" where
  "find_dir_cluster path fs = find_dir_parts (root_cluster fs) (filter (\<lambda>p. p \<noteq> []) (split_on (CHR ''/'') path)) fs"

definition find_entry :: "string \<Rightarrow> fat32 \<Rightarrow> (string, DirEntry) res option" where
  "find_entry path fs =
     (let path = trim path in
      if path = ''/'' then Some (Err ''Root has no entry'')
      else await (Some (split_parent path)) (\<lambda>(dir_path, name).
           await (find_dir_cluster dir_path fs) (\<lambda>dir_cluster.
           await (list_dir_cluster dir_cluster fs) (\<lambda>entries.
             Some (case find (entry_matches name) entries of Some e \<Rightarrow> Ok e | None \<Rightarrow> Err ''File not found'')))))"

definition list_dir :: "string \<Rightarrow> fat32 \<Rightarrow> (string, DirEntry list) res option" where
  "list_dir path fs =
     await (if path = ''/'' \<or> path = [] then Some (Ok (root_cluster fs)) else find_dir_cluster path fs)
       (\<lambda>cluster. list_dir_cluster cluster fs)"

section \<open>File data\<close>

text \<open>The sectors of one cluster: \<open>Inl\<close> is the return from inside the loop, \<open>Inr\<close> the data so far and what remains.\<close>

fun read_sectors :: "u32 \<Rightarrow> nat list \<Rightarrow> bytes \<Rightarrow> nat \<Rightarrow> fat32 \<Rightarrow> (string, bytes + bytes \<times> nat) res" where
  "read_sectors first [] data remaining fs = Ok (Inr (data, remaining))"
| "read_sectors first (i # idxs) data remaining fs =
     res_bind (sector_at first i) (\<lambda>sector.
     res_bind (read_sector sector fs) (\<lambda>b.
       let to_copy = min remaining SECTOR_SIZE; data = data @ take to_copy b; remaining = remaining - to_copy in
       if remaining = 0 then Ok (Inl data) else read_sectors first idxs data remaining fs))"

partial_function (option) read_loop :: "u32 \<Rightarrow> bytes \<Rightarrow> nat \<Rightarrow> fat32 \<Rightarrow> (string, bytes) res option" where
  "read_loop cluster data remaining fs =
     (case res_bind (cluster_to_sector cluster fs) (\<lambda>first. read_sectors first (cluster_sectors fs) data remaining fs) of
        Ok (Inl data) \<Rightarrow> Some (Ok data)
      | Ok (Inr (data, remaining)) \<Rightarrow>
          (case next_cluster cluster fs of
             Ok (Some nxt) \<Rightarrow> read_loop nxt data remaining fs
           | Ok None \<Rightarrow> Some (Ok data)
           | Err e \<Rightarrow> Some (Err e)
           | Panic \<Rightarrow> Some Panic)
      | Err e \<Rightarrow> Some (Err e)
      | Panic \<Rightarrow> Some Panic)"

definition read_file_data :: "DirEntry \<Rightarrow> fat32 \<Rightarrow> (string, bytes) res option" where
  "read_file_data entry fs =
     (if de_first_cluster entry = 0 then Some (Ok []) else read_loop (de_first_cluster entry) [] (unat (de_size entry)) fs)"

definition read_file :: "string \<Rightarrow> fat32 \<Rightarrow> (string, bytes) res option" where
  "read_file path fs =
     await (find_entry path fs) (\<lambda>entry.
       if de_attr entry AND ATTR_DIRECTORY \<noteq> 0 then Some (Err ''Cannot read directory'') else read_file_data entry fs)"

text \<open>Writing the sectors of one cluster; the result is what remains to be written.\<close>

fun write_sectors :: "u32 \<Rightarrow> nat list \<Rightarrow> bytes \<Rightarrow> fat32 \<Rightarrow> (string, bytes) res \<times> fat32" where
  "write_sectors first [] remaining fs = (Ok remaining, fs)"
| "write_sectors first (i # idxs) remaining fs =
     (let to_copy = min SECTOR_SIZE (length remaining); b = take to_copy remaining @ replicate (SECTOR_SIZE - to_copy) 0 in
      ok_then (sector_at first i) fs (\<lambda>sector.
        case write_sector sector b fs of (r, fs) \<Rightarrow>
        ok_then r fs (\<lambda>_.
          let remaining = drop to_copy remaining in
          if remaining = [] then (Ok [], fs) else write_sectors first idxs remaining fs)))"

text \<open>One turn of the loop of \<^verbatim>\<open>write_file_data\<close>: allocate, link to the cluster before, fill.\<close>

definition write_turn :: "u32 \<Rightarrow> u32 \<Rightarrow> bytes \<Rightarrow> fat32 \<Rightarrow> (string, u32 \<times> u32 \<times> bytes) res \<times> fat32" where
  "write_turn first_cluster prev_cluster remaining fs =
     (case alloc_cluster fs of (r, fs) \<Rightarrow>
      ok_then r fs (\<lambda>cluster.
        case (if first_cluster = 0 then (Ok (), fs) else write_fat_entry prev_cluster cluster fs) of (r, fs) \<Rightarrow>
        ok_then r fs (\<lambda>_.
        ok_then (cluster_to_sector cluster fs) fs (\<lambda>sector.
          case write_sectors sector (cluster_sectors fs) remaining fs of (r, fs) \<Rightarrow>
          ok_then r fs (\<lambda>remaining. (Ok (if first_cluster = 0 then cluster else first_cluster, cluster, remaining), fs))))))"

partial_function (option) write_loop :: "u32 \<Rightarrow> u32 \<Rightarrow> bytes \<Rightarrow> fat32 \<Rightarrow> ((string, u32 \<times> u32) res \<times> fat32) option" where
  "write_loop first_cluster prev_cluster remaining fs =
     (if remaining = [] then Some (Ok (first_cluster, prev_cluster), fs)
      else case write_turn first_cluster prev_cluster remaining fs of
             (Ok (first_cluster, prev_cluster, remaining), fs) \<Rightarrow> write_loop first_cluster prev_cluster remaining fs
           | (Err e, fs) \<Rightarrow> Some (Err e, fs)
           | (Panic, fs) \<Rightarrow> Some (Panic, fs))"

definition write_file_data :: "bytes \<Rightarrow> fat32 \<Rightarrow> ((string, u32 \<times> nat) res \<times> fat32) option" where
  "write_file_data data fs =
     map_option (\<lambda>(r, fs). ok_then r fs (\<lambda>(first_cluster, prev_cluster).
       case (if prev_cluster \<noteq> 0 then write_fat_entry prev_cluster FAT32_EOC_MIN fs else (Ok (), fs)) of (r, fs) \<Rightarrow>
       ok_then r fs (\<lambda>_. (Ok (first_cluster, length data), fs))))
       (write_loop 0 0 data fs)"

section \<open>Changing directories\<close>

fun zero_sectors :: "u32 \<Rightarrow> nat list \<Rightarrow> fat32 \<Rightarrow> (string, unit) res \<times> fat32" where
  "zero_sectors first [] fs = (Ok (), fs)"
| "zero_sectors first (i # idxs) fs =
     ok_then (sector_at first i) fs (\<lambda>sector.
       case write_sector sector (replicate SECTOR_SIZE 0) fs of (r, fs) \<Rightarrow> ok_then r fs (\<lambda>_. zero_sectors first idxs fs))"

definition zero_cluster :: "u32 \<Rightarrow> fat32 \<Rightarrow> (string, unit) res \<times> fat32" where
  "zero_cluster cluster fs = ok_then (cluster_to_sector cluster fs) fs (\<lambda>first. zero_sectors first (cluster_sectors fs) fs)"

definition init_dir_cluster :: "u32 \<Rightarrow> u32 \<Rightarrow> fat32 \<Rightarrow> (string, unit) res \<times> fat32" where
  "init_dir_cluster cluster parent_cluster fs =
     ok_then (format_8_3_name ''.'') fs (\<lambda>name_dot.
     ok_then (format_8_3_name ''..'') fs (\<lambda>name_dotdot.
       let b = write_short_entry (replicate SECTOR_SIZE 0) 0 name_dot True cluster 0;
           b = write_short_entry b 32 name_dotdot True parent_cluster 0
       in ok_then (cluster_to_sector cluster fs) fs (\<lambda>first.
            case write_sector (ucast first) b fs of (r, fs) \<Rightarrow>
            ok_then r fs (\<lambda>_. zero_sectors first [1..<unat (sectors_per_cluster (bpb fs))] fs))))"

text \<open>The entries of one name, written one after the other.\<close>

fun write_entries :: "bytes \<Rightarrow> nat \<Rightarrow> LfnRaw list \<Rightarrow> bytes \<Rightarrow> bool \<Rightarrow> u32 \<Rightarrow> u32 \<Rightarrow> bytes" where
  "write_entries b pos [] short_name is_dir first_cluster sz = write_short_entry b (pos * 32) short_name is_dir first_cluster sz"
| "write_entries b pos (lfn # lfns) short_name is_dir first_cluster sz =
     write_entries (write_lfn_entry b (pos * 32) lfn) (pos + 1) lfns short_name is_dir first_cluster sz"

text \<open>The slot a sector has for a number of entries, if any.\<close>

definition free_slot :: "bytes \<Rightarrow> nat \<Rightarrow> nat option" where
  "free_slot b needed = find (\<lambda>i. b ! (i * 32) \<in> set [0, 0xE5] \<and> has_contiguous_free b i needed) [0..<SECTOR_SIZE div 32]"

fun add_sectors :: "u32 \<Rightarrow> nat list \<Rightarrow> LfnRaw list \<Rightarrow> bytes \<Rightarrow> bool \<Rightarrow> u32 \<Rightarrow> u32 \<Rightarrow> fat32 \<Rightarrow> (string, bool) res \<times> fat32" where
  "add_sectors first [] lfns short_name is_dir first_cluster sz fs = (Ok False, fs)"
| "add_sectors first (i # idxs) lfns short_name is_dir first_cluster sz fs =
     ok_then (sector_at first i) fs (\<lambda>sector.
     ok_then (read_sector sector fs) fs (\<lambda>b.
       case free_slot b (length lfns + 1) of
         Some pos \<Rightarrow>
           (case write_sector sector (write_entries b pos lfns short_name is_dir first_cluster sz) fs of (r, fs) \<Rightarrow>
            ok_then r fs (\<lambda>_. (Ok True, fs)))
       | None \<Rightarrow> add_sectors first idxs lfns short_name is_dir first_cluster sz fs))"

text \<open>A new cluster at the end of a directory's chain.\<close>

definition extend_dir :: "u32 \<Rightarrow> fat32 \<Rightarrow> (string, u32) res \<times> fat32" where
  "extend_dir cluster fs =
     (case alloc_cluster fs of (r, fs) \<Rightarrow>
      ok_then r fs (\<lambda>new_cluster.
        case write_fat_entry cluster new_cluster fs of (r, fs) \<Rightarrow>
        ok_then r fs (\<lambda>_.
          case write_fat_entry new_cluster FAT32_EOC_MIN fs of (r, fs) \<Rightarrow>
          ok_then r fs (\<lambda>_.
            case zero_cluster new_cluster fs of (r, fs) \<Rightarrow> ok_then r fs (\<lambda>_. (Ok new_cluster, fs))))))"

partial_function (option) add_dir_entries ::
  "u32 \<Rightarrow> LfnRaw list \<Rightarrow> bytes \<Rightarrow> bool \<Rightarrow> u32 \<Rightarrow> u32 \<Rightarrow> fat32 \<Rightarrow> ((string, unit) res \<times> fat32) option" where
  "add_dir_entries cluster lfns short_name is_dir first_cluster sz fs =
     (case ok_then (cluster_to_sector cluster fs) fs
             (\<lambda>first. add_sectors first (cluster_sectors fs) lfns short_name is_dir first_cluster sz fs) of
        (Ok added, fs) \<Rightarrow>
          if added then Some (Ok (), fs)
          else
          (case next_cluster cluster fs of
             Ok (Some nxt) \<Rightarrow> add_dir_entries nxt lfns short_name is_dir first_cluster sz fs
           | Ok None \<Rightarrow>
               (case extend_dir cluster fs of
                  (Ok new_cluster, fs) \<Rightarrow> add_dir_entries new_cluster lfns short_name is_dir first_cluster sz fs
                | (Err e, fs) \<Rightarrow> Some (Err e, fs)
                | (Panic, fs) \<Rightarrow> Some (Panic, fs))
           | Err e \<Rightarrow> Some (Err e, fs)
           | Panic \<Rightarrow> Some (Panic, fs))
      | (Err e, fs) \<Rightarrow> Some (Err e, fs)
      | (Panic, fs) \<Rightarrow> Some (Panic, fs))"

definition create_entry :: "u32 \<Rightarrow> string \<Rightarrow> bytes \<Rightarrow> bool \<Rightarrow> fat32 \<Rightarrow> ((string, unit) res \<times> fat32) option" where
  "create_entry dir_cluster name data is_dir fs =
     (if name = [] then Some (Err ''name is empty'', fs)
      else
        await_then (list_dir_cluster dir_cluster fs) fs (\<lambda>entries.
          if list_ex (\<lambda>e. de_name e = name \<or> eq_ignore_ascii_case (short_name_to_string (de_short_name e)) name) entries
          then Some (Err ''already exists'', fs)
          else
            let short_name = make_short_name name (\<lambda>n. list_ex (\<lambda>e. de_short_name e = n) entries);
                lfn_entries = build_lfn_entries name (lfn_checksum short_name)
            in Option.bind
                 (if is_dir then
                    Some (case alloc_cluster fs of (r, fs) \<Rightarrow>
                      ok_then r fs (\<lambda>cluster. case init_dir_cluster cluster dir_cluster fs of (r, fs) \<Rightarrow> ok_then r fs (\<lambda>_. (Ok cluster, fs))))
                  else if data \<noteq> [] then map_option (\<lambda>(r, fs). (map_res id fst r, fs)) (write_file_data data fs)
                  else Some (Ok 0, fs))
                 (\<lambda>(r, fs). await_then (Some r) fs (\<lambda>first_cluster.
                    add_dir_entries dir_cluster lfn_entries short_name is_dir first_cluster (of_nat (length data)) fs))))"

definition create_file :: "string \<Rightarrow> bytes \<Rightarrow> fat32 \<Rightarrow> ((string, unit) res \<times> fat32) option" where
  "create_file path data fs =
     await_then (Some (split_parent path)) fs (\<lambda>(dir_path, name).
     await_then (find_dir_cluster dir_path fs) fs (\<lambda>dir_cluster. create_entry dir_cluster name data False fs))"

definition create_dir :: "string \<Rightarrow> fat32 \<Rightarrow> ((string, unit) res \<times> fat32) option" where
  "create_dir path fs =
     await_then (Some (split_parent path)) fs (\<lambda>(dir_path, name).
     await_then (find_dir_cluster dir_path fs) fs (\<lambda>dir_cluster. create_entry dir_cluster name [] True fs))"

text \<open>One sector of \<^verbatim>\<open>is_dir_empty\<close>: \<open>Some\<close> is its return from inside the loop.\<close>

fun empty_scan :: "bytes \<Rightarrow> nat list \<Rightarrow> bool option" where
  "empty_scan b [] = None"
| "empty_scan b (i # idxs) =
     (let offset = i * 32; first = b ! offset; attr = b ! (offset + 11) in
      if first = 0 then Some True
      else if first = 0xE5 then empty_scan b idxs
      else if attr = ATTR_LFN \<or> attr AND ATTR_VOLUME_ID \<noteq> 0 then empty_scan b idxs
      else if first = 0x2E then empty_scan b idxs
      else Some False)"

fun empty_sectors :: "u32 \<Rightarrow> nat list \<Rightarrow> fat32 \<Rightarrow> (string, bool) res" where
  "empty_sectors first [] fs = Ok True"
| "empty_sectors first (i # idxs) fs =
     res_bind (sector_at first i) (\<lambda>sector.
     res_bind (read_sector sector fs) (\<lambda>b.
       case empty_scan b [0..<SECTOR_SIZE div 32] of Some r \<Rightarrow> Ok r | None \<Rightarrow> empty_sectors first idxs fs))"

definition is_dir_empty :: "u32 \<Rightarrow> fat32 \<Rightarrow> (string, bool) res" where
  "is_dir_empty cluster fs = res_bind (cluster_to_sector cluster fs) (\<lambda>first. empty_sectors first (cluster_sectors fs) fs)"

fun parse_parts :: "bytes \<Rightarrow> nat list \<Rightarrow> (string, LfnPart list) res" where
  "parse_parts b [] = Ok []"
| "parse_parts b (off # offs) =
     res_bind (parse_lfn_part (sub_slice off 32 b)) (\<lambda>part. res_bind (parse_parts b offs) (\<lambda>parts. Ok (part # parts)))"

text \<open>The search of \<^verbatim>\<open>delete_entry\<close> in one sector: the offsets of the long-name entries and of the entry that has the name.\<close>

fun find_named :: "bytes \<Rightarrow> string \<Rightarrow> nat list \<Rightarrow> nat list \<Rightarrow> (string, (nat list \<times> nat) option) res" where
  "find_named b name [] lfn_offsets = Ok None"
| "find_named b name (i # idxs) lfn_offsets =
     (let offset = i * 32; first = b ! offset; attr = b ! (offset + 11) in
      if first = 0 then Ok None
      else if first = 0xE5 then find_named b name idxs []
      else if attr = ATTR_LFN then find_named b name idxs (lfn_offsets @ [offset])
      else if attr AND ATTR_VOLUME_ID \<noteq> 0 then find_named b name idxs []
      else
        let short_name = sub_slice offset 11 b in
        res_bind (if lfn_offsets \<noteq> [] then map_res id (\<lambda>parts. lfn_name parts short_name) (parse_parts b lfn_offsets) else Ok None) (\<lambda>lname.
          if eq_ignore_ascii_case (short_name_to_string short_name) name \<or> lname = Some name then Ok (Some (lfn_offsets, offset))
          else find_named b name idxs []))"

definition delete_found :: "u64 \<Rightarrow> bytes \<Rightarrow> nat list \<Rightarrow> nat \<Rightarrow> bool \<Rightarrow> fat32 \<Rightarrow> ((string, unit) res \<times> fat32) option" where
  "delete_found sector b lfn_offsets offset is_dir fs =
     (let attr = b ! (offset + 11); first_cluster = entry_cluster b offset; entry_is_dir = (attr AND ATTR_DIRECTORY \<noteq> 0) in
      if entry_is_dir \<noteq> is_dir then Some (Err ''type mismatch'', fs)
      else
        await_then (Some (if entry_is_dir \<and> first_cluster \<ge> 2 then is_dir_empty first_cluster fs else Ok True)) fs (\<lambda>empty.
          if \<not> empty then Some (Err ''Directory not empty'', fs)
          else
            let b = (fold (\<lambda>off b. b[off := 0xE5]) lfn_offsets b)[offset := 0xE5] in
            case write_sector sector b fs of (r, fs) \<Rightarrow>
            await_then (Some r) fs (\<lambda>_.
              if first_cluster \<ge> 2 then free_cluster_chain first_cluster fs else Some (Ok (), fs))))"

text \<open>The sectors of one cluster of the directory: \<open>Inl\<close> is the sector, its buffer and the entry found in it.\<close>

fun find_named_sectors :: "u32 \<Rightarrow> nat list \<Rightarrow> string \<Rightarrow> fat32 \<Rightarrow> (string, (u64 \<times> bytes \<times> nat list \<times> nat) option) res" where
  "find_named_sectors first [] name fs = Ok None"
| "find_named_sectors first (i # idxs) name fs =
     res_bind (sector_at first i) (\<lambda>sector.
     res_bind (read_sector sector fs) (\<lambda>b.
     res_bind (find_named b name [0..<SECTOR_SIZE div 32] []) (\<lambda>found.
       case found of
         Some (lfn_offsets, offset) \<Rightarrow> Ok (Some (sector, b, lfn_offsets, offset))
       | None \<Rightarrow> find_named_sectors first idxs name fs)))"

partial_function (option) delete_loop :: "u32 \<Rightarrow> string \<Rightarrow> bool \<Rightarrow> fat32 \<Rightarrow> ((string, unit) res \<times> fat32) option" where
  "delete_loop cluster name is_dir fs =
     (case res_bind (cluster_to_sector cluster fs) (\<lambda>first. find_named_sectors first (cluster_sectors fs) name fs) of
        Ok (Some (sector, b, lfn_offsets, offset)) \<Rightarrow> delete_found sector b lfn_offsets offset is_dir fs
      | Ok None \<Rightarrow>
          (case next_cluster cluster fs of
             Ok (Some nxt) \<Rightarrow> delete_loop nxt name is_dir fs
           | Ok None \<Rightarrow> Some (Err ''File not found'', fs)
           | Err e \<Rightarrow> Some (Err e, fs)
           | Panic \<Rightarrow> Some (Panic, fs))
      | Err e \<Rightarrow> Some (Err e, fs)
      | Panic \<Rightarrow> Some (Panic, fs))"

definition delete_entry :: "string \<Rightarrow> bool \<Rightarrow> fat32 \<Rightarrow> ((string, unit) res \<times> fat32) option" where
  "delete_entry path is_dir fs =
     await_then (Some (split_parent path)) fs (\<lambda>(dir_path, name).
     await_then (find_dir_cluster dir_path fs) fs (\<lambda>dir_cluster. delete_loop dir_cluster name is_dir fs))"

definition delete_file :: "string \<Rightarrow> fat32 \<Rightarrow> ((string, unit) res \<times> fat32) option" where
  "delete_file path fs = delete_entry path False fs"

definition delete_dir :: "string \<Rightarrow> fat32 \<Rightarrow> ((string, unit) res \<times> fat32) option" where
  "delete_dir path fs = delete_entry path True fs"

end
