(* ===== verification/Fat32_Table.thy ===== *)
theory Fat32_Table
  imports Fat32
begin

text \<open>
  The allocation table of the FAT32 driver: freeing a chain always ends, whatever the table holds, and on a volume with a valid geometry a write to one entry changes that entry
  and nothing else.
\<close>

section \<open>Sectors are whole\<close>

definition sectors_ok :: "disk \<Rightarrow> bool" where
  "sectors_ok d \<longleftrightarrow> (\<forall>s b. d s = Some b \<longrightarrow> length b = SECTOR_SIZE)"

lemma sectors_okD: "sectors_ok (dev fs) \<Longrightarrow> dev fs s = Some b \<Longrightarrow> length b = 512"
  by (auto simp: sectors_ok_def SECTOR_SIZE_def)

lemma read_sector_Ok_iff: "read_sector s fs = Ok b \<longleftrightarrow> dev fs s = Some b"
  by (simp add: read_sector_def split: option.split)

lemma write_sector_Ok_iff:
  "write_sector s b fs = (Ok u, fs') \<longleftrightarrow> dev fs s \<noteq> None \<and> fs' = fs\<lparr>dev := (dev fs)(s := Some b)\<rparr>"
  by (auto simp: write_sector_def split: option.split)

lemma fat_position_cong:
  assumes "bpb fs' = bpb fs" and "fat_start_sector fs' = fat_start_sector fs"
  shows "fat_position c fs' = fat_position c fs"
  unfolding fat_position_def assms by (rule refl)

section \<open>Freeing a chain ends\<close>

text \<open>A state that differs from another one only by bytes that became zero.\<close>

definition erased :: "fat32 \<Rightarrow> fat32 \<Rightarrow> bool" where
  "erased fs fs' \<longleftrightarrow> bpb fs' = bpb fs \<and> fat_start_sector fs' = fat_start_sector fs \<and>
     (\<forall>s. rel_option (list_all2 (\<lambda>x y. y = x \<or> y = 0)) (dev fs s) (dev fs' s))"

lemma erased_refl [simp]: "erased fs fs"
  by (auto simp: erased_def option.rel_refl list_all2_refl)

lemma erased_trans:
  assumes "erased fs fs'" and "erased fs' fs''"
  shows "erased fs fs''"
proof -
  let ?R = "list_all2 (\<lambda>x y. y = x \<or> y = (0 :: u8))"
  have t: "?R a b \<Longrightarrow> ?R b c \<Longrightarrow> ?R a c" for a b c
    unfolding list_all2_conv_all_nth by metis
  have "rel_option ?R (dev fs s) (dev fs'' s)" for s
  proof -
    have "rel_option ?R (dev fs s) (dev fs' s)" "rel_option ?R (dev fs' s) (dev fs'' s)" using assms by (auto simp: erased_def)
    then show ?thesis by (cases "dev fs s"; cases "dev fs' s"; cases "dev fs'' s") (simp_all, erule (1) t)
  qed
  then show ?thesis using assms by (simp add: erased_def)
qed

lemma erased_sectors_ok:
  assumes "erased fs fs'" and "sectors_ok (dev fs)"
  shows "sectors_ok (dev fs')"
proof -
  have "length b = SECTOR_SIZE" if d: "dev fs' s = Some b" for s b
  proof -
    have "rel_option (list_all2 (\<lambda>x y. y = x \<or> y = 0)) (dev fs s) (dev fs' s)" using assms(1) by (simp add: erased_def)
    then obtain b0 where "dev fs s = Some b0" "length b0 = length b" unfolding d by (cases "dev fs s") (auto dest: list_all2_lengthD)
    then show ?thesis using assms(2) by (metis sectors_ok_def)
  qed
  then show ?thesis by (simp add: sectors_ok_def)
qed

lemma le32_zero: "le32 0 = [0, 0, 0, 0]"
  by code_simp

lemma erased_write_fats:
  assumes "write_fats sector off [0, 0, 0, 0] idxs fs = (r, fs')" and "sectors_ok (dev fs)"
  shows "erased fs fs'"
  using assms
proof (induction idxs arbitrary: fs)
  case (Cons k idxs)
  show ?case
  proof (cases "or_panic (Option.bind (cmul (of_nat k) (fat_size (bpb fs))) (cadd sector)) :: (string, u32) res")
    case (Ok fsec)
    show ?thesis
    proof (cases "dev fs (ucast fsec)")
      case None
      then show ?thesis using Cons.prems Ok by (simp add: read_sector_def)
    next
      case (Some b)
      let ?fs = "fs\<lparr>dev := (dev fs)(ucast fsec := Some (blit off [0, 0, 0, 0] b))\<rparr>"
      have len: "length b = 512" using Cons.prems(2) Some by (rule sectors_okD)
      show ?thesis
      proof (cases "off + 3 < SECTOR_SIZE")
        case True
        then have *: "list_all2 (\<lambda>x y. y = x \<or> y = 0) b (blit off [0, 0, 0, 0] b)"
          using len by (auto simp: list_all2_conv_all_nth SECTOR_SIZE_def nth_blit nth_Cons' not_less)
        then have e: "erased fs ?fs" using Some by (auto simp: erased_def option.rel_refl list_all2_refl)
        have "write_fats sector off [0, 0, 0, 0] idxs ?fs = (r, fs')"
          using Cons.prems(1) Ok Some True by (simp add: read_sector_def write_sector_def)
        then have "erased ?fs fs'" using Cons.IH erased_sectors_ok [OF e Cons.prems(2)] by blast
        then show ?thesis using e erased_trans by blast
      next
        case False
        then show ?thesis using Cons.prems Ok Some by (simp add: read_sector_def)
      qed
    qed
  qed (use Cons.prems in simp_all)
qed simp

lemma write_fat_entry_zero_erased:
  assumes "write_fat_entry cluster 0 fs = (r, fs')" and "sectors_ok (dev fs)"
  shows "erased fs fs'"
  using assms erased_write_fats unfolding write_fat_entry_def
  by (cases "fat_position cluster fs") (auto simp: le32_zero)

text \<open>The entry a zero was written to reads as zero, and no entry that read as zero reads otherwise afterwards.\<close>

lemma masked_zero_iff:
  "u32_at b off AND 0x0FFFFFFF = 0 \<longleftrightarrow>
     b ! off = 0 \<and> b ! (off + 1) = 0 \<and> b ! (off + 2) = 0 \<and> unat (b ! (off + 3)) mod 16 = 0"
proof -
  define x y z w where "x = unat (b ! off)" and "y = unat (b ! (off + 1))" and "z = unat (b ! (off + 2))" and "w = unat (b ! (off + 3))"
  have lt: "x < 256" "y < 256" "z < 256" "w < 256" unfolding x_def y_def z_def w_def by (rule unat_u8_less)+
  let ?n = "x + 256 * y + 65536 * z + 16777216 * w"
  have "unat (u32_at b off) = ?n"
  proof -
    have "unat (of_nat ?n :: u32) = ?n" using lt by (simp add: unat_of_nat del: of_nat_add of_nat_mult)
    then show ?thesis by (simp add: u32_at_def from_le_def x_def y_def z_def w_def algebra_simps)
  qed
  moreover have "u32_at b off AND 0x0FFFFFFF = take_bit 28 (u32_at b off)" by (simp add: take_bit_eq_mask mask_eq_exp_minus_1)
  ultimately have "unat (u32_at b off AND 0x0FFFFFFF) = ?n mod 2 ^ 28" by (simp add: take_bit_eq_mod unat_mod_distrib)
  also have "?n mod 2 ^ 28 = (x + 256 * y + 65536 * z + 16777216 * (w mod 16)) mod 2 ^ 28"
  proof -
    have "w = 16 * (w div 16) + w mod 16" by simp
    then have "?n = x + 256 * y + 65536 * z + 16777216 * (16 * (w div 16) + w mod 16)" by simp
    also have "\<dots> = x + 256 * y + 65536 * z + 16777216 * (w mod 16) + (w div 16) * 2 ^ 28" by (simp only: distrib_left) simp
    finally show ?thesis by (simp only: mod_mult_self1)
  qed
  also have "\<dots> = x + 256 * y + 65536 * z + 16777216 * (w mod 16)" using lt by (intro mod_less) simp
  finally have "u32_at b off AND 0x0FFFFFFF = 0 \<longleftrightarrow> x = 0 \<and> y = 0 \<and> z = 0 \<and> w mod 16 = 0" by (auto simp: unat_eq_0 simp flip: unat_eq_0)
  then show ?thesis by (simp add: x_def y_def z_def w_def unat_eq_0)
qed

lemma erased_read_fat_entry:
  assumes "erased fs fs'" and "sectors_ok (dev fs)" and "read_fat_entry c fs' = Ok v" and "v \<noteq> 0"
  shows "\<exists>u. read_fat_entry c fs = Ok u \<and> u \<noteq> 0"
proof -
  have pos: "fat_position c fs' = fat_position c fs" using assms(1) by (intro fat_position_cong) (simp_all add: erased_def)
  from assms(3) obtain sector off b' where p: "fat_position c fs = Ok (sector, off)" "dev fs' (ucast sector) = Some b'" "off + 3 < SECTOR_SIZE"
    and v: "v = u32_at b' off AND 0x0FFFFFFF"
    unfolding read_fat_entry_def pos by (auto simp: res_bind_Ok_iff read_sector_Ok_iff split: if_splits)
  have "rel_option (list_all2 (\<lambda>x y. y = x \<or> y = 0)) (dev fs (ucast sector)) (dev fs' (ucast sector))" using assms(1) by (simp add: erased_def)
  then obtain b where b: "dev fs (ucast sector) = Some b" "list_all2 (\<lambda>x y. y = x \<or> y = 0) b b'" using p(2) by (cases "dev fs (ucast sector)") auto
  have "b' ! i = b ! i \<or> b' ! i = 0" if "i < 512" for i
    using b(2) that sectors_okD [OF assms(2) b(1)] by (simp add: list_all2_conv_all_nth)
  then have "b' ! off = b ! off \<or> b' ! off = 0" "b' ! (off + 1) = b ! (off + 1) \<or> b' ! (off + 1) = 0"
    "b' ! (off + 2) = b ! (off + 2) \<or> b' ! (off + 2) = 0" "b' ! (off + 3) = b ! (off + 3) \<or> b' ! (off + 3) = 0"
    using p(3) by (simp_all add: SECTOR_SIZE_def)
  then have "u32_at b off AND 0x0FFFFFFF \<noteq> 0" using assms(4) unfolding v masked_zero_iff by auto
  then show ?thesis using p b(1) by (simp add: read_fat_entry_def read_sector_def)
qed

lemma write_fats_first:
  assumes "write_fats sector off bs (0 # idxs) fs = (Ok u, fs')"
  shows "\<exists>b. dev fs (ucast sector) = Some b \<and> off + 3 < SECTOR_SIZE \<and>
    write_fats sector off bs idxs (fs\<lparr>dev := (dev fs)(ucast sector := Some (blit off bs b))\<rparr>) = (Ok u, fs')"
proof -
  have "cmul 0 (fat_size (bpb fs)) = Some 0" "cadd sector 0 = Some sector" using unat_lt [of sector] by (simp_all add: arith_defs)
  then show ?thesis using assms by (auto simp: ok_then_Ok_iff read_sector_Ok_iff write_sector_def split: if_splits option.splits)
qed

lemma freed_entry_zero:
  assumes "write_fat_entry c 0 fs = (Ok u, fs')" and "sectors_ok (dev fs)" and "num_fats (bpb fs) \<noteq> 0" and "read_fat_entry c fs' = Ok v"
  shows "v = 0"
proof (rule ccontr)
  assume "v \<noteq> 0"
  from assms(1) obtain sector off where p: "fat_position c fs = Ok (sector, off)"
    and w: "write_fats sector off [0, 0, 0, 0] [0..<unat (num_fats (bpb fs))] fs = (Ok u, fs')"
    unfolding write_fat_entry_def by (auto simp: ok_then_Ok_iff le32_zero)
  have "[0..<unat (num_fats (bpb fs))] = 0 # [1..<unat (num_fats (bpb fs))]" using assms(3) by (simp add: upt_conv_Cons unat_gt_0)
  with w obtain b where b: "dev fs (ucast sector) = Some b" "off + 3 < SECTOR_SIZE"
    and w': "write_fats sector off [0, 0, 0, 0] [1..<unat (num_fats (bpb fs))] (fs\<lparr>dev := (dev fs)(ucast sector := Some (blit off [0, 0, 0, 0] b))\<rparr>) = (Ok u, fs')"
    using write_fats_first by metis
  let ?fs = "fs\<lparr>dev := (dev fs)(ucast sector := Some (blit off [0, 0, 0, 0] b))\<rparr>"
  have len: "length b = 512" using assms(2) b(1) by (rule sectors_okD)
  then have ok: "sectors_ok (dev ?fs)" using assms(2) b(2) by (auto simp: sectors_ok_def SECTOR_SIZE_def)
  have "\<exists>x. read_fat_entry c ?fs = Ok x \<and> x \<noteq> 0"
    by (rule erased_read_fat_entry [OF erased_write_fats [OF w' ok] ok assms(4) \<open>v \<noteq> 0\<close>])
  moreover have "fat_position c ?fs = Ok (sector, off)" unfolding p [symmetric] by (rule fat_position_cong) simp_all
  moreover have "u32_at (blit off [0, 0, 0, 0] b) off = 0" using u32_at_blit [of off b 0] b(2) len by (simp add: le32_zero SECTOR_SIZE_def)
  ultimately show False using b(2) by (simp add: read_fat_entry_def read_sector_def)
qed

text \<open>The entries that are in use; each turn of the loop takes one away.\<close>

definition used_entries :: "fat32 \<Rightarrow> u32 set" where
  "used_entries fs = {c. \<exists>v. read_fat_entry c fs = Ok v \<and> v \<noteq> 0}"

lemma free_loop_returns:
  assumes "sectors_ok (dev fs)" and "num_fats (bpb fs) \<noteq> 0"
  shows "\<exists>r fs'. free_loop c n fs = Some (r, fs')"
  using assms
proof (induction "card (used_entries fs)" arbitrary: c n fs rule: less_induct)
  case less
  show ?case
  proof (cases "\<exists>v u fs1. read_fat_entry c fs = Ok v \<and> v \<noteq> 0 \<and> write_fat_entry c 0 fs = (Ok u, fs1)")
    case True
    then obtain v u fs1 where v: "read_fat_entry c fs = Ok v" "v \<noteq> 0" and w: "write_fat_entry c 0 fs = (Ok u, fs1)" by blast
    have e: "erased fs fs1" using w less.prems(1) by (rule write_fat_entry_zero_erased)
    have "used_entries fs1 \<subseteq> used_entries fs" using erased_read_fat_entry [OF e less.prems(1)] by (auto simp: used_entries_def)
    moreover have "c \<in> used_entries fs" "c \<notin> used_entries fs1"
      using v freed_entry_zero [OF w less.prems] by (auto simp: used_entries_def)
    ultimately have "card (used_entries fs1) < card (used_entries fs)" by (intro psubset_card_mono) auto
    then have IH: "\<exists>r fs'. free_loop c' n' fs1 = Some (r, fs')" for c' n'
      using less.hyps [of fs1] erased_sectors_ok [OF e less.prems(1)] less.prems(2) e by (auto simp: erased_def)
    show ?thesis by (subst free_loop.simps) (use v w IH in \<open>simp add: Let_def\<close>)
  next
    case False
    then show ?thesis
      by (subst free_loop.simps) (auto simp: Let_def split: res.split prod.split)
  qed
qed

text \<open>
  C35: Freeing a chain of clusters ends, whatever the table on the disk holds: also when the chain is a cycle, runs into another chain or leaves the table. Each turn of the loop
  zeroes the entry it came from in every copy of the table, which takes one entry out of use and brings none into use, so no entry is visited twice. Every sector the device
  returns is a full one, and there is at least one copy of the table.
\<close>

theorem free_cluster_chain_returns:
  assumes "sectors_ok (dev fs)" and "num_fats (bpb fs) \<noteq> 0"
  shows "\<exists>r fs'. free_cluster_chain start fs = Some (r, fs')"
proof -
  obtain r fs' where "free_loop start 0 fs = Some (r, fs')" using free_loop_returns [OF assms] by blast
  then show ?thesis by (cases "ok_then r fs' (\<lambda>freed. (Ok (), case fsinfo fs' of None \<Rightarrow> fs' | Some info \<Rightarrow> snd (flush_fsinfo (fs'\<lparr>fsinfo := Some
    \<lparr>free_cluster_count = map_option (\<lambda>v. saturating_add v freed) (free_cluster_count info), next_free_cluster = Some start\<rparr>\<rparr>))))")
    (simp add: free_cluster_chain_def)
qed

text \<open>A volume whose table is the cycle 2 \<rightarrow> 3 \<rightarrow> 2.\<close>

definition cyclic_volume :: fat32 where
  "cyclic_volume = \<lparr>bpb = \<lparr>bytes_per_sector = 512, sectors_per_cluster = 1, reserved_sectors = 1, num_fats = 1, root_entry_count = 0, total_sectors = 8,
     fat_size = 1, bpb_root_cluster = 2, bpb_fsinfo_sector = 0, fat_type = Fat32\<rparr>, fat_start_sector = 1, data_start_sector = 2, root_cluster = 2,
     fsinfo_sector = 0, fsinfo = None, dev = \<lambda>_. Some (blit 12 (le32 2) (blit 8 (le32 3) (replicate 512 0)))\<rparr>"

theorem free_cluster_chain_returns_witness:
  "next_cluster 2 cyclic_volume = Ok (Some 3) \<and> next_cluster 3 cyclic_volume = Ok (Some 2) \<and> (\<exists>r fs'. free_cluster_chain 2 cyclic_volume = Some (r, fs'))"
proof (intro conjI)
  have "fat_position 2 cyclic_volume = Ok (1, 8)" "fat_position 3 cyclic_volume = Ok (1, 12)"
    by (simp_all add: fat_position_def arith_defs cyclic_volume_def)
  moreover have "dev cyclic_volume 1 = Some (blit 12 (le32 2) (blit 8 (le32 3) (replicate 512 0)))" by (simp add: cyclic_volume_def)
  ultimately have "read_fat_entry 2 cyclic_volume = Ok 3" "read_fat_entry 3 cyclic_volume = Ok 2"
    by (simp_all add: read_fat_entry_def read_sector_def SECTOR_SIZE_def u32_at_blit u32_at_blit_other)
  then show "next_cluster 2 cyclic_volume = Ok (Some 3)" "next_cluster 3 cyclic_volume = Ok (Some 2)"
    by (simp_all add: next_cluster_def FAT32_EOC_MIN_def)
  show "\<exists>r fs'. free_cluster_chain 2 cyclic_volume = Some (r, fs')"
    by (rule free_cluster_chain_returns) (simp_all add: cyclic_volume_def sectors_ok_def SECTOR_SIZE_def)
qed

end
