(* ===== verification/Fat32_Files.thy ===== *)
theory Fat32_Files
  imports Fat32_Table
begin

text \<open>
  File data on a FAT32 volume with a valid geometry: what the driver writes it reads back, and the clusters in use by other files stay as they were.
\<close>

section \<open>Geometry\<close>

text \<open>
  What a boot sector must say for the driver's arithmetic to mean what it should: whole sectors of 512 bytes, the table copies between the reserved sectors and the data, the FSInfo
  sector among the reserved ones, cluster numbers of 28 bits, and a hint for the next free cluster that is one.
\<close>

definition table_entries :: "fat32 \<Rightarrow> nat" where
  "table_entries fs = 128 * unat (fat_size (bpb fs))"

definition geometry :: "fat32 \<Rightarrow> bool" where
  "geometry fs \<longleftrightarrow> sectors_ok (dev fs) \<and> bytes_per_sector (bpb fs) = 512 \<and> sectors_per_cluster (bpb fs) \<noteq> 0 \<and> num_fats (bpb fs) \<noteq> 0 \<and>
     unat (fat_size (bpb fs)) < 2 ^ 21 \<and>
     unat (data_start_sector fs) = unat (fat_start_sector fs) + unat (num_fats (bpb fs)) * unat (fat_size (bpb fs)) \<and>
     unat (fsinfo_sector fs) < unat (fat_start_sector fs) \<and>
     (\<forall>n. Option.bind (fsinfo fs) next_free_cluster = Some n \<longrightarrow> 2 \<le> unat n \<and> unat n \<le> table_entries fs)"

definition same_layout :: "fat32 \<Rightarrow> fat32 \<Rightarrow> bool" where
  "same_layout fs fs' \<longleftrightarrow> bpb fs' = bpb fs \<and> fat_start_sector fs' = fat_start_sector fs \<and> data_start_sector fs' = data_start_sector fs \<and>
     root_cluster fs' = root_cluster fs \<and> fsinfo_sector fs' = fsinfo_sector fs"

definition same_data :: "fat32 \<Rightarrow> fat32 \<Rightarrow> bool" where
  "same_data fs fs' \<longleftrightarrow> (\<forall>s. unat (data_start_sector fs) \<le> unat s \<longrightarrow> dev fs' s = dev fs s)"

definition same_table :: "fat32 \<Rightarrow> fat32 \<Rightarrow> bool" where
  "same_table fs fs' \<longleftrightarrow> (\<forall>s. unat (fat_start_sector fs) \<le> unat s \<and> unat s < unat (data_start_sector fs) \<longrightarrow> dev fs' s = dev fs s)"

text \<open>The effect of setting one entry.\<close>

definition relinked :: "u32 \<Rightarrow> u32 \<Rightarrow> fat32 \<Rightarrow> fat32 \<Rightarrow> bool" where
  "relinked c v fs fs' \<longleftrightarrow> geometry fs' \<and> same_layout fs fs' \<and> same_data fs fs' \<and>
     (\<forall>d. unat d < table_entries fs \<longrightarrow> read_fat_entry d fs' = (if d = c then Ok v else read_fat_entry d fs))"

lemma geometryD:
  assumes "geometry fs"
  shows "sectors_ok (dev fs)" and "bps fs = 512" and "unat (fat_size (bpb fs)) < 2 ^ 21"
    and "unat (data_start_sector fs) = unat (fat_start_sector fs) + unat (num_fats (bpb fs)) * unat (fat_size (bpb fs))"
    and "unat (fat_size (bpb fs)) \<le> unat (num_fats (bpb fs)) * unat (fat_size (bpb fs))"
    and "unat (sectors_per_cluster (bpb fs)) \<noteq> 0" and "0 < unat (num_fats (bpb fs))"
    and "unat (fsinfo_sector fs) < unat (fat_start_sector fs)"
  using assms by (auto simp: geometry_def unat_eq_0 unat_gt_0 Suc_le_eq)

lemma geometry_layout:
  assumes "geometry fs" and "same_layout fs fs'" and "sectors_ok (dev fs')" and "fsinfo fs' = fsinfo fs"
  shows "geometry fs'"
  using assms by (simp add: geometry_def same_layout_def table_entries_def)

section \<open>One entry\<close>

lemma fat_position_geometry:
  assumes "geometry fs" and "unat c < table_entries fs"
  shows "\<exists>sector. fat_position c fs = Ok (sector, 4 * (unat c mod 128)) \<and> unat sector = unat (fat_start_sector fs) + unat c div 128"
proof -
  note g = geometryD [OF assms(1)]
  have lt: "unat c < 2 ^ 28" using assms(2) g(3) by (simp add: table_entries_def)
  then have mul: "cmul c 4 = Some (c * 4)" and u4: "unat (c * 4) = unat c * 4" by (simp_all add: cmul_def unat_mult_lem [THEN iffD1])
  have u: "unat (c * 4 div 512) = unat c div 128" "unat (c * 4 mod 512) = 4 * (unat c mod 128)"
  proof -
    have "unat (c * 4 div 512) = unat c * 4 div (128 * 4)" by (simp add: unat_div_distrib u4)
    then show "unat (c * 4 div 512) = unat c div 128" by simp
    have "unat (c * 4 mod 512) = 4 * unat c mod (4 * 128)" by (simp add: unat_mod_distrib u4 mult.commute)
    then show "unat (c * 4 mod 512) = 4 * (unat c mod 128)" by (simp only: mult_mod_right)
  qed
  have "unat c div 128 < unat (fat_size (bpb fs))" using assms(2) by (simp add: table_entries_def less_mult_imp_div_less mult.commute)
  then have "unat (fat_start_sector fs) + unat c div 128 < 2 ^ 32"
    using order.strict_trans2 [OF _ g(5)] unat_lt [of "data_start_sector fs"] g(4) by fastforce
  then have "cadd (fat_start_sector fs) (c * 4 div 512) = Some (fat_start_sector fs + c * 4 div 512)"
    and "unat (fat_start_sector fs + c * 4 div 512) = unat (fat_start_sector fs) + unat c div 128"
    by (simp_all add: cadd_def u unat_add_lem [THEN iffD1])
  then show ?thesis by (simp add: fat_position_def mul g(2) u)
qed

text \<open>The copies of the table are written one after the other; each gets the bytes at the same place.\<close>

lemma blit_twice: "off + length bs \<le> length b \<Longrightarrow> blit off bs (blit off bs b) = blit off bs b"
  by (simp add: blit_def)

definition copies_written :: "nat \<Rightarrow> nat \<Rightarrow> bytes \<Rightarrow> nat list \<Rightarrow> fat32 \<Rightarrow> disk" where
  "copies_written sector off bs idxs fs s =
     (if \<exists>k\<in>set idxs. unat s = sector + k * unat (fat_size (bpb fs)) then map_option (blit off bs) (dev fs s) else dev fs s)"

lemma unat_ucast_u64 [simp]: "unat (ucast (w :: u32) :: u64) = unat w"
  using unat_lt [of w] by (simp add: unsigned_ucast_eq take_bit_nat_eq_self)

lemma u64_eq_ucast_iff: "s = ucast (w :: u32) \<longleftrightarrow> unat (s :: u64) = unat w"
  by (simp add: word_unat_eq_iff)

lemma write_fats_effect:
  assumes "write_fats sector off bs idxs fs = (Ok u, fs')" and "off + length bs \<le> 512" and "sectors_ok (dev fs)" and "\<forall>k\<in>set idxs. k < 256"
  shows "fs' = fs\<lparr>dev := copies_written (unat sector) off bs idxs fs\<rparr>"
  using assms
proof (induction idxs arbitrary: fs)
  case Nil
  then show ?case by (simp add: copies_written_def)
next
  case (Cons k idxs)
  from Cons.prems(1) obtain fsec b where f: "Option.bind (cmul (of_nat k) (fat_size (bpb fs))) (cadd sector) = Some fsec" "dev fs (ucast fsec) = Some b"
    and w: "write_fats sector off bs idxs (fs\<lparr>dev := (dev fs)(ucast fsec := Some (blit off bs b))\<rparr>) = (Ok u, fs')"
    by (auto simp: ok_then_Ok_iff or_panic_eq_iff read_sector_Ok_iff write_sector_def split: if_splits)
  have k: "unat (of_nat k :: u32) = k" using Cons.prems(4) by (simp add: unat_of_nat)
  have fsec: "unat fsec = unat sector + k * unat (fat_size (bpb fs))"
    using f(1) by (auto simp: bind_eq_Some_conv k dest!: unat_cadd unat_cmul)
  let ?fs = "fs\<lparr>dev := (dev fs)(ucast fsec := Some (blit off bs b))\<rparr>"
  have len: "length b = 512" using Cons.prems(3) f(2) by (rule sectors_okD)
  then have "sectors_ok (dev ?fs)" using Cons.prems(2,3) by (auto simp: sectors_ok_def SECTOR_SIZE_def)
  then have "fs' = ?fs\<lparr>dev := copies_written (unat sector) off bs idxs ?fs\<rparr>"
    using Cons.prems(4) by (intro Cons.IH [OF w Cons.prems(2)]) (simp_all add: fun_upd_def)
  moreover have "copies_written (unat sector) off bs idxs ?fs = copies_written (unat sector) off bs (k # idxs) fs"
  proof
    fix s
    show "copies_written (unat sector) off bs idxs ?fs s = copies_written (unat sector) off bs (k # idxs) fs s"
    proof (cases "s = ucast fsec")
      case True
      then show ?thesis using f(2) fsec blit_twice [of off bs b] Cons.prems(2) len by (simp add: copies_written_def)
    next
      case False
      then show ?thesis using fsec by (simp add: copies_written_def u64_eq_ucast_iff)
    qed
  qed
  ultimately show ?case by simp
qed

lemma quads_apart: "x \<noteq> y \<Longrightarrow> 4 * x + 4 \<le> 4 * y \<or> 4 * y + 4 \<le> 4 * (x :: nat)"
  by arith

lemma write_fat_entry_relinked:
  assumes g: "geometry fs" and c: "unat c < table_entries fs" and w: "write_fat_entry c v fs = (Ok u, fs')"
  shows "relinked c (v AND 0x0FFFFFFF) fs fs'" and "fsinfo fs' = fsinfo fs"
proof -
  note gs = geometryD [OF g]
  obtain sector where p: "fat_position c fs = Ok (sector, 4 * (unat c mod 128))" and sec: "unat sector = unat (fat_start_sector fs) + unat c div 128"
    using fat_position_geometry [OF g c] by blast
  let ?off = "4 * (unat c mod 128)" and ?bs = "le32 (v AND 0x0FFFFFFF)" and ?n = "unat (num_fats (bpb fs))" and ?z = "unat (fat_size (bpb fs))"
  have off: "?off + 4 \<le> 512" by (simp add: less_imp_le_nat Suc_le_eq)
  have wf: "write_fats sector ?off ?bs [0..<?n] fs = (Ok u, fs')" using w p by (simp add: write_fat_entry_def)
  moreover have "\<forall>k\<in>set [0..<?n]. k < 256" using unat_u8_less [of "num_fats (bpb fs)"] by auto
  ultimately have fs': "fs' = fs\<lparr>dev := copies_written (unat sector) ?off ?bs [0..<?n] fs\<rparr>"
    using off gs(1) by (intro write_fats_effect) simp_all
  have z: "unat c div 128 < ?z" using c by (simp add: table_entries_def less_mult_imp_div_less mult.commute)
  have reg: "unat (fat_start_sector fs) \<le> unat sector + k * ?z \<and> unat sector + k * ?z < unat (data_start_sector fs)" if "k < ?n" for k
  proof -
    have "k * ?z + ?z \<le> ?n * ?z" using that by (metis Suc_leI add.commute mult_Suc mult_le_mono1)
    then show ?thesis using z by (simp add: sec gs(4))
  qed
  have ok: "sectors_ok (dev fs')" unfolding fs' using gs(1) off by (auto simp: sectors_ok_def copies_written_def SECTOR_SIZE_def split: if_splits)
  have lay: "same_layout fs fs'" by (simp add: fs' same_layout_def)
  have dat: "same_data fs fs'" unfolding fs' same_data_def copies_written_def using reg by fastforce
  have "read_fat_entry d fs' = (if d = c then Ok (v AND 0x0FFFFFFF) else read_fat_entry d fs)" if d: "unat d < table_entries fs" for d
  proof -
    obtain ds where pd: "fat_position d fs = Ok (ds, 4 * (unat d mod 128))" and ds: "unat ds = unat (fat_start_sector fs) + unat d div 128"
      using fat_position_geometry [OF g d] by blast
    have pd': "fat_position d fs' = Ok (ds, 4 * (unat d mod 128))" using pd fat_position_cong [of fs' fs d] by (simp add: fs')
    have zd: "unat d div 128 < ?z" using d by (simp add: table_entries_def less_mult_imp_div_less mult.commute)
    have hit: "(\<exists>k\<in>set [0..<?n]. unat ds = unat sector + k * ?z) \<longleftrightarrow> unat d div 128 = unat c div 128"
    proof
      assume "\<exists>k\<in>set [0..<?n]. unat ds = unat sector + k * ?z"
      then obtain k where k: "unat d div 128 = unat c div 128 + k * ?z" by (auto simp: ds sec)
      then have "k = 0" using zd by (cases k) auto
      then show "unat d div 128 = unat c div 128" using k by simp
    next
      assume "unat d div 128 = unat c div 128"
      then show "\<exists>k\<in>set [0..<?n]. unat ds = unat sector + k * ?z" using gs(7) by (intro bexI [of _ 0]) (auto simp: ds sec)
    qed
    have same: "d = c" if "unat d div 128 = unat c div 128" "unat d mod 128 = unat c mod 128"
      using that by (metis div_mult_mod_eq word_unat_eq_iff)
    have off_d: "4 * (unat d mod 128) + 4 \<le> 512" by (simp add: less_imp_le_nat Suc_le_eq)
    show ?thesis
    proof (cases "dev fs (ucast ds)")
      case None
      have "read_fat_entry d fs' = Err ''read_sector failed''" "read_fat_entry d fs = Err ''read_sector failed''"
        by (simp_all add: read_fat_entry_def pd pd' read_sector_def None) (simp add: fs' copies_written_def None)
      moreover have "d \<noteq> c"
      proof
        assume "d = c"
        then have "ds = sector" using ds sec by (simp add: word_unat_eq_iff)
        moreover have "[0..<?n] = 0 # [1..<?n]" using gs(7) by (simp add: upt_conv_Cons)
        ultimately have "write_fats ds ?off ?bs (0 # [1..<?n]) fs = (Ok u, fs')" using wf by simp
        from write_fats_first [OF this] None show False by simp
      qed
      ultimately show ?thesis by simp
    next
      case (Some b)
      have len: "length b = 512" using gs(1) Some by (rule sectors_okD)
      have "dev fs' (ucast ds) = Some (if unat d div 128 = unat c div 128 then blit ?off ?bs b else b)"
        unfolding fs' using hit Some by (simp add: copies_written_def)
      then have rd: "read_fat_entry d fs' = Ok (u32_at (if unat d div 128 = unat c div 128 then blit ?off ?bs b else b) (4 * (unat d mod 128)) AND 0x0FFFFFFF)"
        using off_d by (simp add: read_fat_entry_def pd' read_sector_def SECTOR_SIZE_def)
      have rd0: "read_fat_entry d fs = Ok (u32_at b (4 * (unat d mod 128)) AND 0x0FFFFFFF)"
        using off_d Some by (simp add: read_fat_entry_def pd read_sector_def SECTOR_SIZE_def)
      show ?thesis
      proof (cases "d = c")
        case True
        then show ?thesis using rd u32_at_blit [of ?off b] off len by (simp add: and.assoc)
      next
        case False
        have "u32_at (blit ?off ?bs b) (4 * (unat d mod 128)) = u32_at b (4 * (unat d mod 128))" if "unat d div 128 = unat c div 128"
        proof (rule u32_at_blit_other)
          have "unat d mod 128 \<noteq> unat c mod 128" using same [OF that] False by blast
          then show "4 * (unat d mod 128) + 4 \<le> ?off \<or> ?off + length ?bs \<le> 4 * (unat d mod 128)"
            unfolding length_le by (rule quads_apart)
        qed (use off off_d len in simp_all)
        then show ?thesis using rd rd0 False by simp
      qed
    qed
  qed
  then show "relinked c (v AND 0x0FFFFFFF) fs fs'" using geometry_layout [OF g lay ok] lay dat by (simp add: relinked_def fs')
  show "fsinfo fs' = fsinfo fs" by (simp add: fs')
qed

section \<open>Allocation\<close>

lemma write_fsinfo_length: "length (write_fsinfo b info) = length b"
  by (simp add: write_fsinfo_def Let_def)

lemma flush_fsinfo_effect:
  assumes "snd (flush_fsinfo fs) = fs'" and "sectors_ok (dev fs)"
  shows "same_layout fs fs'" and "fsinfo fs' = fsinfo fs" and "sectors_ok (dev fs')" and "unat s \<noteq> unat (fsinfo_sector fs) \<Longrightarrow> dev fs' s = dev fs s"
proof -
  have "fs' = fs \<or> (\<exists>b info. dev fs (ucast (fsinfo_sector fs)) = Some b \<and>
      fs' = fs\<lparr>dev := (dev fs)(ucast (fsinfo_sector fs) := Some (write_fsinfo b info))\<rparr>)"
    using assms(1) by (auto simp: flush_fsinfo_def read_sector_def write_sector_def split: option.splits if_splits)
  then consider "fs' = fs" | b info where "dev fs (ucast (fsinfo_sector fs)) = Some b"
      "fs' = fs\<lparr>dev := (dev fs)(ucast (fsinfo_sector fs) := Some (write_fsinfo b info))\<rparr>" by blast
  then have "same_layout fs fs' \<and> fsinfo fs' = fsinfo fs \<and> sectors_ok (dev fs') \<and> (unat s \<noteq> unat (fsinfo_sector fs) \<longrightarrow> dev fs' s = dev fs s)"
  proof cases
    case 1
    then show ?thesis using assms(2) by (simp add: same_layout_def)
  next
    case 2
    then show ?thesis using assms(2) by (auto simp: same_layout_def sectors_ok_def write_fsinfo_length)
  qed
  then show "same_layout fs fs'" "fsinfo fs' = fsinfo fs" "sectors_ok (dev fs')" "unat s \<noteq> unat (fsinfo_sector fs) \<Longrightarrow> dev fs' s = dev fs s" by blast+
qed

lemma same_table_read:
  assumes "geometry fs" and "same_layout fs fs'" and "same_table fs fs'" and "unat d < table_entries fs"
  shows "read_fat_entry d fs' = read_fat_entry d fs"
proof -
  obtain ds where p: "fat_position d fs = Ok (ds, 4 * (unat d mod 128))" and ds: "unat ds = unat (fat_start_sector fs) + unat d div 128"
    using fat_position_geometry [OF assms(1,4)] by blast
  have "unat d div 128 < unat (fat_size (bpb fs))" using assms(4) by (simp add: table_entries_def less_mult_imp_div_less mult.commute)
  then have "unat ds < unat (data_start_sector fs)" using geometryD(4,5) [OF assms(1)] ds by linarith
  then have "dev fs' (ucast ds) = dev fs (ucast ds)" using assms(3) ds by (simp add: same_table_def)
  moreover have "fat_position d fs' = fat_position d fs" using assms(2) by (intro fat_position_cong) (simp_all add: same_layout_def)
  ultimately show ?thesis by (simp add: read_fat_entry_def p read_sector_def)
qed

text \<open>Updating the hint in memory and on disk leaves table and data alone.\<close>

lemma hint_kept:
  assumes g: "geometry fs" and fs': "fs' = snd (flush_fsinfo (fs\<lparr>fsinfo := Some info\<rparr>))"
    and n: "\<forall>n. next_free_cluster info = Some n \<longrightarrow> 2 \<le> unat n \<and> unat n \<le> table_entries fs"
  shows "geometry fs'" and "same_layout fs fs'" and "same_data fs fs'" and "same_table fs fs'"
proof -
  let ?fs = "fs\<lparr>fsinfo := Some info\<rparr>"
  note e = flush_fsinfo_effect [OF fs' [symmetric]]
  have ok: "sectors_ok (dev ?fs)" using geometryD(1) [OF g] by simp
  have "geometry ?fs" using g n by (simp add: geometry_def table_entries_def)
  then show "geometry fs'" using geometry_layout e(1,2,3) [OF ok] by blast
  show "same_layout fs fs'" using e(1) [OF ok] by (simp add: same_layout_def)
  show "same_data fs fs'" "same_table fs fs'"
    using e(4) [OF ok] geometryD(4,8) [OF g] by (auto simp: same_data_def same_table_def)
qed

lemma relinked_table:
  assumes "relinked c v fs fs1" and "same_layout fs1 fs2" and "same_data fs1 fs2" and "same_table fs1 fs2" and "geometry fs2"
  shows "relinked c v fs fs2"
proof -
  have lay: "same_layout fs fs1" "geometry fs1" "same_data fs fs1" using assms(1) by (simp_all add: relinked_def)
  then have "same_layout fs fs2" "same_data fs fs2" "table_entries fs1 = table_entries fs"
    using assms(2,3) by (auto simp: same_layout_def same_data_def table_entries_def)
  then show ?thesis using assms(1,5) same_table_read [OF lay(2) assms(2,4)] by (auto simp: relinked_def)
qed

lemma EOC_masked: "FAT32_EOC_MIN AND 0x0FFFFFFF = FAT32_EOC_MIN"
  by (simp add: FAT32_EOC_MIN_def)

lemma took_cluster_relinked:
  assumes g: "geometry fs" and c: "2 \<le> unat c" "unat c < table_entries fs" and t: "took_cluster c fs = (Ok c', fs')"
  shows "c' = c" and "relinked c FAT32_EOC_MIN fs fs'"
proof -
  obtain res fs1 where w1: "write_fat_entry c FAT32_EOC_MIN fs = (res, fs1)" by fastforce
  then obtain u where w: "write_fat_entry c FAT32_EOC_MIN fs = (Ok u, fs1)" using t by (cases res) (auto simp: took_cluster_def)
  note r = t [unfolded took_cluster_def w, simplified]
  have rel: "relinked c FAT32_EOC_MIN fs fs1" using write_fat_entry_relinked(1) [OF g c(2) w] by (simp add: EOC_masked)
  show "c' = c" using r by (auto simp: ok_then_Ok_iff split: option.splits)
  show "relinked c FAT32_EOC_MIN fs fs'"
  proof (cases "fsinfo fs1")
    case None
    then show ?thesis using r rel by simp
  next
    case (Some info)
    with r obtain nxt where n: "cadd c 1 = Some nxt" and fs': "fs' = snd (flush_fsinfo (fs1\<lparr>fsinfo := Some
        \<lparr>free_cluster_count = map_option (\<lambda>v. saturating_sub v 1) (free_cluster_count info), next_free_cluster = Some nxt\<rparr>\<rparr>))"
      by (auto simp: ok_then_Ok_iff or_panic_eq_iff)
    have g1: "geometry fs1" and lay: "table_entries fs1 = table_entries fs" using rel by (simp_all add: relinked_def same_layout_def table_entries_def)
    have "2 \<le> unat nxt \<and> unat nxt \<le> table_entries fs1" using unat_cadd [OF n] c lay by simp
    then show ?thesis using hint_kept [OF g1 fs'] by (intro relinked_table [OF rel]) simp_all
  qed
qed

lemma alloc_scan_relinked:
  assumes "alloc_scan cs fs = (Some (Ok c), fs')" and "geometry fs" and "\<forall>c\<in>set cs. 2 \<le> unat c \<and> unat c < table_entries fs"
  shows "c \<in> set cs \<and> read_fat_entry c fs = Ok 0 \<and> relinked c FAT32_EOC_MIN fs fs'"
  using assms
proof (induction cs)
  case (Cons x cs)
  from Cons.prems(1) consider "read_fat_entry x fs = Ok 0" "took_cluster x fs = (Ok c, fs')" | "alloc_scan cs fs = (Some (Ok c), fs')"
    by (auto split: res.splits if_splits prod.splits)
  then show ?case
  proof cases
    case 1
    then show ?thesis using took_cluster_relinked [OF Cons.prems(2) _ _ 1(2)] Cons.prems(3) by simp
  qed (use Cons in simp)
qed simp

lemma alloc_scan_none: "alloc_scan cs fs = (None, fs') \<Longrightarrow> fs' = fs"
  by (induction cs) (auto split: res.splits if_splits prod.splits)

lemma clusters_from_mem: "c \<in> set (clusters_from a b) \<Longrightarrow> unat a \<le> unat c \<and> unat c < unat b"
  using unat_lt [of b] by (auto simp: clusters_from_def unat_of_nat)

text \<open>A cluster handed out was free, is in the table and the only one whose entry changes.\<close>

lemma alloc_cluster_relinked:
  assumes g: "geometry fs" and a: "alloc_cluster fs = (Ok c, fs')"
  shows "2 \<le> unat c" and "unat c < table_entries fs" and "read_fat_entry c fs = Ok 0" and "relinked c FAT32_EOC_MIN fs fs'"
proof -
  note gs = geometryD [OF g]
  let ?start = "unwrap_or (Option.bind (fsinfo fs) next_free_cluster) 2"
  have small: "unat (fat_size (bpb fs)) * 512 < 2 ^ 32" using gs(3) by simp
  then have mul: "cmul (fat_size (bpb fs)) (bps fs) = Some (fat_size (bpb fs) * 512)" by (simp add: gs(2) cmul_def)
  have "unat (fat_size (bpb fs) * 512) = unat (fat_size (bpb fs)) * 512" using small by (simp add: unat_mult_lem [THEN iffD1])
  then have tot: "unat (fat_size (bpb fs) * 512 div 4) = table_entries fs" by (simp add: unat_div_distrib table_entries_def)
  have st: "2 \<le> unat ?start" "unat ?start \<le> table_entries fs \<or> ?start = 2"
    using g by (auto simp: geometry_def unwrap_or_def split: option.splits)
  have in1: "2 \<le> unat x \<and> unat x < table_entries fs" if "x \<in> set (clusters_from ?start (fat_size (bpb fs) * 512 div 4))" for x
    using clusters_from_mem [OF that] tot st(1) by simp
  have in2: "2 \<le> unat x \<and> unat x < table_entries fs" if "x \<in> set (clusters_from 2 ?start)" for x
    using clusters_from_mem [OF that] st(2) by auto
  consider "alloc_scan (clusters_from ?start (fat_size (bpb fs) * 512 div 4)) fs = (Some (Ok c), fs')"
    | "alloc_scan (clusters_from 2 ?start) fs = (Some (Ok c), fs')"
    using a by (auto simp: alloc_cluster_def mul Let_def dest!: alloc_scan_none split: prod.splits option.splits)
  then have "(2 \<le> unat c \<and> unat c < table_entries fs) \<and> read_fat_entry c fs = Ok 0 \<and> relinked c FAT32_EOC_MIN fs fs'"
  proof cases
    case 1
    then show ?thesis using alloc_scan_relinked [OF 1 g] in1 by blast
  next
    case 2
    then show ?thesis using alloc_scan_relinked [OF 2 g] in2 by blast
  qed
  then show "2 \<le> unat c" "unat c < table_entries fs" "read_fat_entry c fs = Ok 0" "relinked c FAT32_EOC_MIN fs fs'" by blast+
qed

section \<open>The sectors of a cluster\<close>

lemma sector_at_Ok: "i < 256 \<Longrightarrow> sector_at first i = Ok s \<Longrightarrow> unat s = unat first + i"
  by (cases "cadd first (of_nat i)") (auto simp: sector_at_def unat_of_nat dest: unat_cadd)

lemma write_sectors_dev:
  assumes "write_sectors first idxs remaining fs = (Ok rest, fs')" and "\<forall>i\<in>set idxs. i < 256"
  shows "\<exists>d. fs' = fs\<lparr>dev := d\<rparr> \<and> (\<forall>s. (\<forall>i\<in>set idxs. unat s \<noteq> unat first + i) \<longrightarrow> d s = dev fs s) \<and> (sectors_ok (dev fs) \<longrightarrow> sectors_ok d)"
  using assms
proof (induction idxs arbitrary: remaining fs)
  case Nil
  then show ?case by (auto intro: exI [of _ "dev fs"])
next
  case (Cons i idxs)
  let ?n = "min SECTOR_SIZE (length remaining)"
  let ?b = "take ?n remaining @ replicate (SECTOR_SIZE - ?n) 0"
  from Cons.prems(1) obtain s where s: "sector_at first i = Ok s" and d: "dev fs s \<noteq> None"
    and w: "(if drop ?n remaining = [] then (Ok [], fs\<lparr>dev := (dev fs)(s := Some ?b)\<rparr>)
             else write_sectors first idxs (drop ?n remaining) (fs\<lparr>dev := (dev fs)(s := Some ?b)\<rparr>)) = (Ok rest, fs')"
    by (auto simp: ok_then_Ok_iff Let_def write_sector_def split: option.splits)
  have u: "unat s = unat first + i" using sector_at_Ok s Cons.prems(2) by simp
  have ok: "sectors_ok (dev fs) \<longrightarrow> sectors_ok ((dev fs)(s := Some ?b))" by (auto simp: sectors_ok_def)
  show ?case
  proof (cases "drop ?n remaining = []")
    case True
    then show ?thesis using w u ok by (intro exI [of _ "dev fs'"]) (auto simp: fun_upd_def)
  next
    case False
    then have "write_sectors first idxs (drop ?n remaining) (fs\<lparr>dev := (dev fs)(s := Some ?b)\<rparr>) = (Ok rest, fs')" using w by simp
    from Cons.IH [OF this] Cons.prems(2) obtain d where "fs' = fs\<lparr>dev := d\<rparr>"
      and "\<forall>t. (\<forall>j\<in>set idxs. unat t \<noteq> unat first + j) \<longrightarrow> d t = (if t = s then Some ?b else dev fs t)"
      and "sectors_ok ((dev fs)(s := Some ?b)) \<longrightarrow> sectors_ok d" by (auto simp: fun_upd_def)
    then show ?thesis using u ok by (intro exI [of _ d]) (auto split: if_splits)
  qed
qed

text \<open>Reading the sectors of a cluster gives what was written to them, in any later state in which they are the same.\<close>

lemma read_back_sectors:
  assumes "write_sectors first idxs remaining fs = (Ok rest, fs')" and "remaining \<noteq> []" and "\<forall>i\<in>set idxs. i < 256" and "distinct idxs"
    and "\<forall>i\<in>set idxs. \<forall>s. unat s = unat first + i \<longrightarrow> dev fs2 s = dev fs' s"
  shows "\<exists>chunk. remaining = chunk @ rest \<and> (idxs \<noteq> [] \<longrightarrow> chunk \<noteq> []) \<and>
    read_sectors first idxs acc (length remaining) fs2 = Ok (if rest = [] then Inl (acc @ remaining) else Inr (acc @ chunk, length rest))"
  using assms
proof (induction idxs arbitrary: remaining fs acc)
  case Nil
  then show ?case by simp
next
  case (Cons i idxs)
  let ?n = "min SECTOR_SIZE (length remaining)"
  let ?b = "take ?n remaining @ replicate (SECTOR_SIZE - ?n) 0"
  let ?fs = "\<lambda>s. fs\<lparr>dev := (dev fs)(s := Some ?b)\<rparr>"
  from Cons.prems(1) obtain s where s: "sector_at first i = Ok s" and d: "dev fs s \<noteq> None"
    and w: "(if drop ?n remaining = [] then (Ok [], ?fs s) else write_sectors first idxs (drop ?n remaining) (?fs s)) = (Ok rest, fs')"
    by (auto simp: ok_then_Ok_iff Let_def write_sector_def split: option.splits)
  have u: "unat s = unat first + i" using sector_at_Ok s Cons.prems(3) by simp
  have n: "0 < ?n" "?n \<le> length remaining" using Cons.prems(2) by (auto simp: SECTOR_SIZE_def)
  have tk: "take (min (length remaining) SECTOR_SIZE) ?b = take ?n remaining" by (simp add: min.commute)
  show ?case
  proof (cases "drop ?n remaining = []")
    case True
    have "dev fs2 s = Some ?b" using Cons.prems(5) u w True by auto
    moreover have "length remaining - min (length remaining) SECTOR_SIZE = 0" "take ?n remaining = remaining" using True by (auto simp: min_def split: if_splits)
    ultimately show ?thesis using s w True n Cons.prems(2) tk by (intro exI [of _ remaining]) (auto simp: read_sector_def Let_def)
  next
    case False
    then have w': "write_sectors first idxs (drop ?n remaining) (?fs s) = (Ok rest, fs')" using w by simp
    obtain dd where dd: "fs' = (?fs s)\<lparr>dev := dd\<rparr>" "\<forall>t. (\<forall>j\<in>set idxs. unat t \<noteq> unat first + j) \<longrightarrow> dd t = dev (?fs s) t"
      using write_sectors_dev [OF w'] Cons.prems(3) by auto
    have "\<forall>j\<in>set idxs. unat s \<noteq> unat first + j" using u Cons.prems(4) by auto
    with dd(2) have "dd s = dev (?fs s) s" by blast
    then have b: "dev fs2 s = Some ?b" using Cons.prems(5) u dd(1) by simp
    have "length (drop ?n remaining) = length remaining - min (length remaining) SECTOR_SIZE" by (simp add: min.commute)
    moreover have "length remaining - min (length remaining) SECTOR_SIZE \<noteq> 0" using False by (simp add: min.commute)
    ultimately have rd: "read_sectors first (i # idxs) acc (length remaining) fs2 = read_sectors first idxs (acc @ take ?n remaining) (length (drop ?n remaining)) fs2"
      using s b tk by (simp add: read_sector_def Let_def)
    obtain chunk where "drop ?n remaining = chunk @ rest" and
      r: "read_sectors first idxs (acc @ take ?n remaining) (length (drop ?n remaining)) fs2 =
        Ok (if rest = [] then Inl ((acc @ take ?n remaining) @ drop ?n remaining) else Inr ((acc @ take ?n remaining) @ chunk, length rest))"
    proof -
      have "\<exists>chunk. drop ?n remaining = chunk @ rest \<and> (idxs \<noteq> [] \<longrightarrow> chunk \<noteq> []) \<and>
        read_sectors first idxs (acc @ take ?n remaining) (length (drop ?n remaining)) fs2 =
          Ok (if rest = [] then Inl ((acc @ take ?n remaining) @ drop ?n remaining) else Inr ((acc @ take ?n remaining) @ chunk, length rest))"
        using Cons.prems(3,4,5) by (intro Cons.IH [OF w' False]) simp_all
      then show ?thesis using that by blast
    qed
    then have "remaining = (take ?n remaining @ chunk) @ rest" by (metis append.assoc append_take_drop_id)
    moreover have "take ?n remaining \<noteq> []" using n by auto
    ultimately show ?thesis unfolding rd r by (intro exI [of _ "take ?n remaining @ chunk"]) (simp only: append_is_Nil_conv append.assoc append_take_drop_id simp_thms)
  qed
qed

section \<open>Clusters of other files\<close>

definition in_cluster :: "u32 \<Rightarrow> fat32 \<Rightarrow> u64 \<Rightarrow> bool" where
  "in_cluster c fs s \<longleftrightarrow>
     (\<exists>i < unat (sectors_per_cluster (bpb fs)). unat s = unat (data_start_sector fs) + (unat c - 2) * unat (sectors_per_cluster (bpb fs)) + i)"

definition data_kept :: "u32 \<Rightarrow> fat32 \<Rightarrow> fat32 \<Rightarrow> bool" where
  "data_kept c fs fs' \<longleftrightarrow> (\<forall>s. in_cluster c fs s \<longrightarrow> dev fs' s = dev fs s)"

definition cluster_kept :: "u32 \<Rightarrow> fat32 \<Rightarrow> fat32 \<Rightarrow> bool" where
  "cluster_kept c fs fs' \<longleftrightarrow> read_fat_entry c fs' = read_fat_entry c fs \<and> data_kept c fs fs'"

lemma in_cluster_unique:
  assumes "in_cluster c fs s" and "in_cluster d fs s" and "2 \<le> unat c" and "2 \<le> unat d"
  shows "c = d"
proof -
  let ?k = "unat (sectors_per_cluster (bpb fs))"
  from assms(1,2) obtain i j where ij: "i < ?k" "j < ?k" and eq: "(unat c - 2) * ?k + i = (unat d - 2) * ?k + j" by (auto simp: in_cluster_def)
  have "((unat c - 2) * ?k + i) div ?k = unat c - 2" "((unat d - 2) * ?k + j) div ?k = unat d - 2" using ij by simp_all
  then have "unat c - 2 = unat d - 2" unfolding eq by simp
  then show ?thesis using assms(3,4) by (simp add: word_unat_eq_iff)
qed

lemma in_cluster_data: "in_cluster c fs s \<Longrightarrow> unat (data_start_sector fs) \<le> unat s"
  by (auto simp: in_cluster_def)

lemma in_cluster_layout: "same_layout fs fs' \<Longrightarrow> in_cluster c fs' = in_cluster c fs"
  by (simp add: fun_eq_iff in_cluster_def same_layout_def)

lemma data_kept_trans: "same_layout fs fs1 \<Longrightarrow> data_kept c fs fs1 \<Longrightarrow> data_kept c fs1 fs2 \<Longrightarrow> data_kept c fs fs2"
  by (simp add: data_kept_def in_cluster_layout)

lemma same_layout_trans: "same_layout fs fs1 \<Longrightarrow> same_layout fs1 fs2 \<Longrightarrow> same_layout fs fs2"
  by (simp add: same_layout_def)

lemma same_layout_entries: "same_layout fs fs' \<Longrightarrow> table_entries fs' = table_entries fs"
  by (simp add: same_layout_def table_entries_def)

lemma relinked_data: "relinked c v fs fs' \<Longrightarrow> data_kept d fs fs'"
  using in_cluster_data by (auto simp: relinked_def data_kept_def same_data_def)

lemma relinked_entry: "relinked c v fs fs' \<Longrightarrow> unat d < table_entries fs \<Longrightarrow> read_fat_entry d fs' = (if d = c then Ok v else read_fat_entry d fs)"
  by (simp add: relinked_def)

lemma unat_ucast_u8 [simp]: "unat (ucast (w :: u8) :: u32) = unat w"
  using unat_lt [of w] by (simp add: unsigned_ucast_eq take_bit_nat_eq_self)

lemma cluster_to_sector_Ok:
  assumes "cluster_to_sector c fs = Ok sec"
  shows "unat sec = unat (data_start_sector fs) + (unat c - 2) * unat (sectors_per_cluster (bpb fs))"
  using assms unfolding cluster_to_sector_def or_panic_eq_iff by (auto simp: bind_eq_Some_conv dest!: unat_cadd unat_cmul unat_csub)

lemma cluster_to_sector_layout: "same_layout fs fs' \<Longrightarrow> cluster_to_sector c fs' = cluster_to_sector c fs"
  unfolding cluster_to_sector_def same_layout_def by metis

lemma cluster_sectors_small: "\<forall>i\<in>set (cluster_sectors fs). i < 256" and cluster_sectors_distinct: "distinct (cluster_sectors fs)"
  using unat_u8_less [of "sectors_per_cluster (bpb fs)"] by (auto simp: cluster_sectors_def)

text \<open>Filling a cluster.\<close>

lemma fill_cluster:
  assumes g: "geometry fs" and c: "2 \<le> unat c" and sec: "cluster_to_sector c fs = Ok sec"
    and w: "write_sectors sec (cluster_sectors fs) remaining fs = (Ok rest, fs')"
  shows "geometry fs'" and "same_layout fs fs'" and "unat d < table_entries fs \<Longrightarrow> read_fat_entry d fs' = read_fat_entry d fs"
    and "2 \<le> unat d \<Longrightarrow> d \<noteq> c \<Longrightarrow> data_kept d fs fs'"
    and "remaining \<noteq> [] \<Longrightarrow> \<exists>chunk. remaining = chunk @ rest \<and> chunk \<noteq> [] \<and>
      (\<forall>fs2 acc. same_layout fs fs2 \<and> (\<forall>s. in_cluster c fs s \<longrightarrow> dev fs2 s = dev fs' s) \<longrightarrow>
        read_sectors sec (cluster_sectors fs2) acc (length remaining) fs2 =
          Ok (if rest = [] then Inl (acc @ remaining) else Inr (acc @ chunk, length rest)))"
proof -
  let ?k = "unat (sectors_per_cluster (bpb fs))"
  note u = cluster_to_sector_Ok [OF sec]
  obtain dd where dd: "fs' = fs\<lparr>dev := dd\<rparr>" "sectors_ok dd"
    and keep: "\<forall>s. (\<forall>i\<in>set (cluster_sectors fs). unat s \<noteq> unat sec + i) \<longrightarrow> dd s = dev fs s"
    using write_sectors_dev [OF w cluster_sectors_small] geometryD(1) [OF g] by auto
  have out: "dd s = dev fs s" if "\<not> in_cluster c fs s" for s
    using that keep u by (auto simp: in_cluster_def cluster_sectors_def)
  show lay: "same_layout fs fs'" by (simp add: dd(1) same_layout_def)
  show "geometry fs'" using g lay by (rule geometry_layout) (simp_all add: dd)
  have "same_table fs fs'" using out in_cluster_data by (auto simp: same_table_def dd(1)) (metis leD out in_cluster_data)
  then show rd: "read_fat_entry d fs' = read_fat_entry d fs" if "unat d < table_entries fs" for d using same_table_read [OF g lay] that by blast
  show "data_kept d fs fs'" if "2 \<le> unat d" "d \<noteq> c"
  proof -
    have "\<not> in_cluster c fs s" if "in_cluster d fs s" for s using in_cluster_unique [OF that _ \<open>2 \<le> unat d\<close> c] \<open>d \<noteq> c\<close> by blast
    then show ?thesis using out by (simp add: data_kept_def dd(1))
  qed
  show "\<exists>chunk. remaining = chunk @ rest \<and> chunk \<noteq> [] \<and>
      (\<forall>fs2 acc. same_layout fs fs2 \<and> (\<forall>s. in_cluster c fs s \<longrightarrow> dev fs2 s = dev fs' s) \<longrightarrow>
        read_sectors sec (cluster_sectors fs2) acc (length remaining) fs2 =
          Ok (if rest = [] then Inl (acc @ remaining) else Inr (acc @ chunk, length rest)))" if ne: "remaining \<noteq> []"
  proof -
    have nil: "cluster_sectors fs \<noteq> []" using geometryD(6) [OF g] by (simp add: cluster_sectors_def)
    have got: "\<exists>chunk. remaining = chunk @ rest \<and> (cluster_sectors fs \<noteq> [] \<longrightarrow> chunk \<noteq> []) \<and>
        read_sectors sec (cluster_sectors fs) acc (length remaining) fs2 = Ok (if rest = [] then Inl (acc @ remaining) else Inr (acc @ chunk, length rest))"
      if "\<forall>s. in_cluster c fs s \<longrightarrow> dev fs2 s = dev fs' s" for fs2 acc
      using that u by (intro read_back_sectors [OF w ne cluster_sectors_small cluster_sectors_distinct]) (auto simp: in_cluster_def cluster_sectors_def)
    obtain chunk where ch: "remaining = chunk @ rest" "chunk \<noteq> []" using got [of fs'] nil by blast
    have "read_sectors sec (cluster_sectors fs2) acc (length remaining) fs2 = Ok (if rest = [] then Inl (acc @ remaining) else Inr (acc @ chunk, length rest))"
      if "same_layout fs fs2" "\<forall>s. in_cluster c fs s \<longrightarrow> dev fs2 s = dev fs' s" for fs2 acc
    proof -
      have "cluster_sectors fs2 = cluster_sectors fs" using that(1) by (simp add: cluster_sectors_def same_layout_def)
      then show ?thesis using got [OF that(2), of acc] ch by auto
    qed
    then show ?thesis using ch by blast
  qed
qed

section \<open>Writing a file and reading it back\<close>

lemma entry_fits: "unat c < table_entries fs \<Longrightarrow> geometry fs \<Longrightarrow> c AND 0x0FFFFFFF = c \<and> c < FAT32_EOC_MIN"
proof -
  assume "unat c < table_entries fs" and "geometry fs"
  then have "unat c < 128 * 2097151 + 1" using geometryD(3) [of fs] by (simp add: table_entries_def)
  then have lt: "unat c < 0x0FFFFFF8" by simp
  then have "take_bit 28 c = c" by (simp add: word_unat_eq_iff take_bit_eq_mod unat_mod_distrib)
  then show ?thesis using lt by (simp add: take_bit_eq_mask mask_eq_exp_minus_1 FAT32_EOC_MIN_def word_less_nat_alt)
qed

text \<open>One turn of the loop.\<close>

lemma write_turn_effect:
  assumes g: "geometry fs" and ne: "remaining \<noteq> []" and t: "write_turn first prev remaining fs = (Ok (f, c, rest), fs')"
    and prev: "first \<noteq> 0 \<longrightarrow> unat prev < table_entries fs \<and> 2 \<le> unat prev \<and> read_fat_entry prev fs \<noteq> Ok 0"
  shows "2 \<le> unat c" and "unat c < table_entries fs" and "read_fat_entry c fs = Ok 0" and "f = (if first = 0 then c else first)"
    and "geometry fs'" and "same_layout fs fs'" and "read_fat_entry c fs' = Ok FAT32_EOC_MIN" and "first \<noteq> 0 \<Longrightarrow> read_fat_entry prev fs' = Ok c"
    and "2 \<le> unat d \<Longrightarrow> d \<noteq> c \<Longrightarrow> data_kept d fs fs'"
    and "d \<noteq> c \<Longrightarrow> first = 0 \<or> d \<noteq> prev \<Longrightarrow> unat d < table_entries fs \<Longrightarrow> read_fat_entry d fs' = read_fat_entry d fs"
    and "\<exists>sec chunk. cluster_to_sector c fs = Ok sec \<and> remaining = chunk @ rest \<and> chunk \<noteq> [] \<and>
      (\<forall>fs2 acc. same_layout fs' fs2 \<and> (\<forall>s. in_cluster c fs' s \<longrightarrow> dev fs2 s = dev fs' s) \<longrightarrow>
        read_sectors sec (cluster_sectors fs2) acc (length remaining) fs2 =
          Ok (if rest = [] then Inl (acc @ remaining) else Inr (acc @ chunk, length rest)))"
proof -
  obtain r1 fs1 where a1: "alloc_cluster fs = (r1, fs1)" by fastforce
  then obtain c1 where a: "alloc_cluster fs = (Ok c1, fs1)" using t by (cases r1) (auto simp: write_turn_def)
  obtain r2 fs2 where l2: "(if first = 0 then (Ok (), fs1) else write_fat_entry prev c1 fs1) = (r2, fs2)" by fastforce
  then have l: "(if first = 0 then (Ok (), fs1) else write_fat_entry prev c1 fs1) = (Ok (), fs2)"
    using t a by (cases r2) (auto simp: write_turn_def)
  then obtain sec where sec: "cluster_to_sector c1 fs2 = Ok sec" using t a by (cases "cluster_to_sector c1 fs2") (auto simp: write_turn_def)
  obtain r3 fs3 where w3: "write_sectors sec (cluster_sectors fs2) remaining fs2 = (r3, fs3)" by fastforce
  then have w: "write_sectors sec (cluster_sectors fs2) remaining fs2 = (Ok rest, fs')" and fc: "f = (if first = 0 then c1 else first)" "c = c1"
    using t a l sec by (cases r3; auto simp: write_turn_def)+
  note al = alloc_cluster_relinked [OF g a, folded fc(2)]
  have lay1: "same_layout fs fs1" and g1: "geometry fs1" using al(4) by (simp_all add: relinked_def)
  note te1 = same_layout_entries [OF lay1]
  have pc: "prev \<noteq> c" if "first \<noteq> 0" using prev [rule_format, OF that] al(3) by auto
  have link: "relinked prev c fs1 fs2" if "first \<noteq> 0"
    using write_fat_entry_relinked(1) [OF g1, of prev c "()" fs2] prev [rule_format, OF that] l fc(2) that te1 entry_fits [OF al(2) g] by simp
  have lay2: "same_layout fs fs2" and g2: "geometry fs2"
  proof -
    have "same_layout fs fs2 \<and> geometry fs2"
    proof (cases "first = 0")
      case True
      then show ?thesis using l lay1 g1 by simp
    next
      case False
      then show ?thesis using link [OF False] same_layout_trans [OF lay1, of fs2] by (simp add: relinked_def)
    qed
    then show "same_layout fs fs2" "geometry fs2" by blast+
  qed
  note te2 = same_layout_entries [OF lay2]
  have c2: "read_fat_entry c fs2 = Ok FAT32_EOC_MIN"
    using al(2,4) l link pc te1 by (cases "first = 0") (auto simp: relinked_def)
  note fill = fill_cluster [OF g2 _ sec w, folded fc(2), OF al(1)]
  show "2 \<le> unat c" "unat c < table_entries fs" "read_fat_entry c fs = Ok 0" by (fact al)+
  show "f = (if first = 0 then c else first)" using fc by simp
  show "geometry fs'" "same_layout fs fs'" using fill(1) same_layout_trans [OF lay2 fill(2)] by blast+
  show "read_fat_entry c fs' = Ok FAT32_EOC_MIN" using fill(3) [of c] al(2) c2 te2 by simp
  show "read_fat_entry prev fs' = Ok c" if "first \<noteq> 0"
    using fill(3) [of prev] link [OF that] prev [rule_format, OF that] te1 te2 by (simp add: relinked_def)
  show "data_kept d fs fs'" if "2 \<le> unat d" "d \<noteq> c"
  proof -
    have "data_kept d fs1 fs2" using l relinked_data [OF link] by (cases "first = 0") (auto simp: data_kept_def)
    then have "data_kept d fs fs2" using data_kept_trans [OF lay1 relinked_data [OF al(4)]] by blast
    then show ?thesis using data_kept_trans [OF lay2 _ fill(4) [OF that]] by blast
  qed
  show "read_fat_entry d fs' = read_fat_entry d fs" if "d \<noteq> c" "first = 0 \<or> d \<noteq> prev" "unat d < table_entries fs"
  proof -
    have "read_fat_entry d fs2 = read_fat_entry d fs1" using l link that te1 by (cases "first = 0") (auto simp: relinked_entry)
    then show ?thesis using fill(3) [of d] relinked_entry [OF al(4) that(3)] that te2 by simp
  qed
  show "\<exists>sec chunk. cluster_to_sector c fs = Ok sec \<and> remaining = chunk @ rest \<and> chunk \<noteq> [] \<and>
      (\<forall>fs2 acc. same_layout fs' fs2 \<and> (\<forall>s. in_cluster c fs' s \<longrightarrow> dev fs2 s = dev fs' s) \<longrightarrow>
        read_sectors sec (cluster_sectors fs2) acc (length remaining) fs2 =
          Ok (if rest = [] then Inl (acc @ remaining) else Inr (acc @ chunk, length rest)))"
  proof -
    have "cluster_to_sector c fs = Ok sec" using sec cluster_to_sector_layout [OF lay2, of c] fc(2) by simp
    then show ?thesis using fill(5) [OF ne] same_layout_trans [OF fill(2)] unfolding in_cluster_layout [OF fill(2), of c] by blast
  qed
qed

lemma next_cluster_of: "read_fat_entry c fs = Ok v \<Longrightarrow> next_cluster c fs = Ok (if v \<ge> FAT32_EOC_MIN \<or> v = 0 then None else Some v)"
  by (simp add: next_cluster_def)

text \<open>
  What the rest of the loop and the final mark achieve together, from the state \<open>fs\<close> to the state \<open>fs'\<close>: a chain from the free cluster \<open>c\<close> that holds the data, linked to the cluster
  before it if there is one, and every cluster in use kept, but for that link.
\<close>

definition appended :: "u32 \<Rightarrow> u32 \<Rightarrow> u32 \<Rightarrow> bytes \<Rightarrow> fat32 \<Rightarrow> fat32 \<Rightarrow> bool" where
  "appended first prev c data fs fs' \<longleftrightarrow>
     2 \<le> unat c \<and> unat c < table_entries fs \<and> read_fat_entry c fs = Ok 0 \<and> same_layout fs fs' \<and>
     (first \<noteq> 0 \<longrightarrow> read_fat_entry prev fs' = Ok c) \<and>
     (\<forall>acc. read_loop c acc (length data) fs' = Some (Ok (acc @ data))) \<and>
     (\<forall>d. 2 \<le> unat d \<and> unat d < table_entries fs \<and> read_fat_entry d fs \<noteq> Ok 0 \<longrightarrow>
        data_kept d fs fs' \<and> (first = 0 \<or> d \<noteq> prev \<longrightarrow> read_fat_entry d fs' = read_fat_entry d fs))"

lemma write_loop_turn:
  assumes "write_loop first prev remaining fs = Some (Ok (f, l), fs1)" and "remaining \<noteq> []"
  shows "\<exists>f' c rest fs'. write_turn first prev remaining fs = (Ok (f', c, rest), fs') \<and> write_loop f' c rest fs' = Some (Ok (f, l), fs1)"
proof -
  obtain r fs' where t: "write_turn first prev remaining fs = (r, fs')" by fastforce
  have "(case r of Ok (f', c, rest) \<Rightarrow> write_loop f' c rest fs' | Err e \<Rightarrow> Some (Err e, fs') | Panic \<Rightarrow> Some (Panic, fs')) = Some (Ok (f, l), fs1)"
    using assms(1) unfolding write_loop.simps [of first prev remaining fs] t using assms(2) by (simp split: res.splits)
  then show ?thesis using t by (cases r) auto
qed

lemma write_loop_appended:
  assumes "geometry fs" and "remaining \<noteq> []" and "write_loop first prev remaining fs = Some (Ok (f, l), fs1)" and "write_fat_entry l FAT32_EOC_MIN fs1 = (Ok u, fs2)"
    and "first \<noteq> 0 \<longrightarrow> unat prev < table_entries fs \<and> 2 \<le> unat prev \<and> read_fat_entry prev fs \<noteq> Ok 0"
  shows "\<exists>c. f = (if first = 0 then c else first) \<and> appended first prev c remaining fs fs2"
  using assms
proof (induction "length remaining" arbitrary: first prev remaining fs rule: less_induct)
  case less
  obtain f' c rest fs' where t: "write_turn first prev remaining fs = (Ok (f', c, rest), fs')" and wl: "write_loop f' c rest fs' = Some (Ok (f, l), fs1)"
    using write_loop_turn [OF less.prems(3,2)] by blast
  note te = write_turn_effect [OF less.prems(1,2) t less.prems(5)]
  obtain sec chunk where ch: "cluster_to_sector c fs = Ok sec" "remaining = chunk @ rest" "chunk \<noteq> []"
    and rd: "\<And>fs2 acc. same_layout fs' fs2 \<Longrightarrow> \<forall>s. in_cluster c fs' s \<longrightarrow> dev fs2 s = dev fs' s \<Longrightarrow>
      read_sectors sec (cluster_sectors fs2) acc (length remaining) fs2 = Ok (if rest = [] then Inl (acc @ remaining) else Inr (acc @ chunk, length rest))"
    using te(11) by blast
  have ents: "table_entries fs' = table_entries fs" using same_layout_entries [OF te(6)] .
  have link: "read_fat_entry prev fs' = Ok c" if "first \<noteq> 0" using te(8) that by simp
  have c0: "c \<noteq> 0" using te(1) by (auto simp: word_unat_eq_iff)
  have used: "d \<noteq> c" if "read_fat_entry d fs \<noteq> Ok 0" for d using that te(3) by auto
  show ?case
  proof (cases "rest = []")
    case True
    then have fl: "f = f'" "l = c" "fs1 = fs'" using wl by (simp_all add: write_loop.simps)
    have rel: "relinked c FAT32_EOC_MIN fs' fs2"
      using write_fat_entry_relinked(1) [OF te(5)] less.prems(4) te(2) ents by (metis fl(2,3) EOC_masked)
    then have lay: "same_layout fs' fs2" by (simp add: relinked_def)
    have lay2: "same_layout fs fs2" using same_layout_trans [OF te(6) lay] .
    have "read_loop c acc (length remaining) fs2 = Some (Ok (acc @ remaining))" for acc
      using rd [OF lay relinked_data [OF rel, unfolded data_kept_def]] True ch(1) cluster_to_sector_layout [OF lay2, of c]
      by (subst read_loop.simps) simp
    moreover have "read_fat_entry prev fs2 = Ok c" if "first \<noteq> 0"
      using relinked_entry [OF rel, of prev] link [OF that] used [of prev] less.prems(5) [rule_format, OF that] ents by simp
    moreover have "data_kept d fs fs2 \<and> (first = 0 \<or> d \<noteq> prev \<longrightarrow> read_fat_entry d fs2 = read_fat_entry d fs)"
      if "2 \<le> unat d" "unat d < table_entries fs" "read_fat_entry d fs \<noteq> Ok 0" for d
      using te(9,10) [of d] that used [OF that(3)] relinked_data [OF rel, of d] relinked_entry [OF rel, of d] data_kept_trans [OF te(6), of d fs2] ents by simp
    ultimately show ?thesis using te(1,2,3,4) fl(1) lay2 by (simp add: appended_def)
  next
    case False
    have shorter: "length rest < length remaining" using ch by simp
    have f0: "f' \<noteq> 0" using te(4) c0 by simp
    have eoc: "read_fat_entry c fs' \<noteq> Ok 0" using te(7) by (simp add: FAT32_EOC_MIN_def)
    have "\<exists>c'. f = (if f' = 0 then c' else f') \<and> appended f' c c' rest fs' fs2"
      using te(1,2) eoc ents by (intro less.hyps [OF shorter te(5) False wl less.prems(4)]) simp
    then obtain c' where f: "f = f'" and ap: "appended f' c c' rest fs' fs2" using f0 by auto
    have lay: "same_layout fs' fs2" and c': "2 \<le> unat c'" "unat c' < table_entries fs'" "read_fat_entry c fs2 = Ok c'" and
      rl: "read_loop c' acc (length rest) fs2 = Some (Ok (acc @ rest))" for acc using ap f0 by (simp_all add: appended_def)
    have kept: "data_kept d fs' fs2 \<and> (d \<noteq> c \<longrightarrow> read_fat_entry d fs2 = read_fat_entry d fs')"
      if "2 \<le> unat d" "unat d < table_entries fs" "read_fat_entry d fs' \<noteq> Ok 0" for d using ap f0 that ents by (simp add: appended_def)
    have lay2: "same_layout fs fs2" using same_layout_trans [OF te(6) lay] .
    have nx: "next_cluster c fs2 = Ok (Some c')"
      using next_cluster_of [OF c'(3)] entry_fits [OF c'(2) te(5)] c'(1) by (auto simp: not_le word_unat_eq_iff)
    have "read_loop c acc (length remaining) fs2 = Some (Ok (acc @ remaining))" for acc
      using rd [OF lay conjunct1 [OF kept [OF te(1,2) eoc], unfolded data_kept_def], of acc] False ch(1,2) cluster_to_sector_layout [OF lay2, of c] nx rl
      by (subst read_loop.simps) simp
    moreover have "read_fat_entry prev fs2 = Ok c" if "first \<noteq> 0"
      using kept [of prev] link [OF that] c0 used [of prev] less.prems(5) [rule_format, OF that] by simp
    moreover have "data_kept d fs fs2 \<and> (first = 0 \<or> d \<noteq> prev \<longrightarrow> read_fat_entry d fs2 = read_fat_entry d fs)"
      if d: "2 \<le> unat d" "unat d < table_entries fs" "read_fat_entry d fs \<noteq> Ok 0" for d
    proof -
      have "read_fat_entry d fs' = (if first \<noteq> 0 \<and> d = prev then Ok c else read_fat_entry d fs)" using te(10) [of d] d used [OF d(3)] link by auto
      moreover from this have "read_fat_entry d fs' \<noteq> Ok 0" using d(3) c0 by auto
      ultimately show ?thesis using kept [OF d(1,2)] used [OF d(3)] data_kept_trans [OF te(6) te(9)] d(1) by auto
    qed
    ultimately show ?thesis using te(1,2,3,4) f lay2 by (simp add: appended_def)
  qed
qed

lemma write_loop_returns:
  assumes "geometry fs" and "first \<noteq> 0 \<longrightarrow> unat prev < table_entries fs \<and> 2 \<le> unat prev \<and> read_fat_entry prev fs \<noteq> Ok 0"
  shows "\<exists>r fs'. write_loop first prev remaining fs = Some (r, fs') \<and> (\<forall>f l. r = Ok (f, l) \<and> (remaining \<noteq> [] \<or> prev \<noteq> 0) \<longrightarrow> l \<noteq> 0)"
  using assms
proof (induction "length remaining" arbitrary: first prev remaining fs rule: less_induct)
  case less
  show ?case
  proof (cases "remaining \<noteq> [] \<and> (\<exists>f c rest fs'. write_turn first prev remaining fs = (Ok (f, c, rest), fs'))")
    case True
    then obtain f c rest fs' where ne: "remaining \<noteq> []" and t: "write_turn first prev remaining fs = (Ok (f, c, rest), fs')" by blast
    note te = write_turn_effect [OF less.prems(1) ne t less.prems(2)]
    have "length rest < length remaining" using te(11) by auto
    moreover have "f \<noteq> 0 \<longrightarrow> unat c < table_entries fs' \<and> 2 \<le> unat c \<and> read_fat_entry c fs' \<noteq> Ok 0"
      using te(1,2,7) same_layout_entries [OF te(6)] by (simp add: FAT32_EOC_MIN_def)
    ultimately have "\<exists>r fs''. write_loop f c rest fs' = Some (r, fs'') \<and> (\<forall>f l. r = Ok (f, l) \<and> (rest \<noteq> [] \<or> c \<noteq> 0) \<longrightarrow> l \<noteq> 0)"
      using te(5) by (intro less.hyps)
    moreover have "c \<noteq> 0" using te(1) by (auto simp: word_unat_eq_iff)
    ultimately show ?thesis by (subst write_loop.simps) (simp add: ne t)
  next
    case False
    obtain r fs' where t: "write_turn first prev remaining fs = (r, fs')" by fastforce
    show ?thesis by (subst write_loop.simps) (use False t in \<open>cases r; auto\<close>)
  qed
qed

definition cluster_used :: "u32 \<Rightarrow> fat32 \<Rightarrow> bool" where
  "cluster_used c fs \<longleftrightarrow> 2 \<le> unat c \<and> unat c < table_entries fs \<and> read_fat_entry c fs \<noteq> Ok 0"

lemma write_file_data_stored:
  assumes g: "geometry fs" and data: "length data < 2 ^ 32" and w: "write_file_data data fs = Some (Ok (first, n), fs')"
  shows "read_file_data (e\<lparr>de_first_cluster := first, de_size := of_nat n\<rparr>) fs' = Some (Ok data)" and "cluster_used c fs \<Longrightarrow> cluster_kept c fs fs'"
proof -
  obtain r0 fs0 where wl: "write_loop 0 0 data fs = Some (r0, fs0)" and last: "\<forall>f l. r0 = Ok (f, l) \<and> (data \<noteq> [] \<or> (0 :: u32) \<noteq> 0) \<longrightarrow> l \<noteq> 0" using write_loop_returns [OF g, of 0 0 data] by auto
  then obtain f l where wl': "write_loop 0 0 data fs = Some (Ok (f, l), fs0)" using w by (cases r0) (auto simp: write_file_data_def)
  have "read_file_data (e\<lparr>de_first_cluster := first, de_size := of_nat n\<rparr>) fs' = Some (Ok data) \<and> (cluster_used c fs \<longrightarrow> cluster_kept c fs fs')"
  proof (cases "data = []")
    case True
    then have "f = 0" "l = 0" "fs0 = fs" using wl' by (simp_all add: write_loop.simps)
    then show ?thesis using w wl' True by (simp add: write_file_data_def read_file_data_def cluster_kept_def data_kept_def)
  next
    case False
    have l: "l \<noteq> 0" using last wl wl' False by auto
    obtain r1 fs1 where e1: "write_fat_entry l FAT32_EOC_MIN fs0 = (r1, fs1)" by fastforce
    then have e: "write_fat_entry l FAT32_EOC_MIN fs0 = (Ok (), fs')" and fn: "first = f" "n = length data"
      using w wl' l by (cases r1; simp add: write_file_data_def)+
    obtain c0 where c0: "f = c0" and ap: "appended 0 0 c0 data fs fs'" using write_loop_appended [OF g False wl' e] by auto
    have "unat (of_nat (length data) :: u32) = length data" using data by (simp add: unat_of_nat)
    moreover have "c0 \<noteq> 0" "read_loop c0 [] (length data) fs' = Some (Ok data)" using ap by (auto simp: appended_def word_unat_eq_iff)
    ultimately have "read_file_data (e\<lparr>de_first_cluster := first, de_size := of_nat n\<rparr>) fs' = Some (Ok data)"
      by (simp add: read_file_data_def fn c0)
    moreover have "cluster_kept c fs fs'" if "cluster_used c fs" using ap that by (simp add: appended_def cluster_used_def cluster_kept_def)
    ultimately show ?thesis by blast
  qed
  then show "read_file_data (e\<lparr>de_first_cluster := first, de_size := of_nat n\<rparr>) fs' = Some (Ok data)" "cluster_used c fs \<Longrightarrow> cluster_kept c fs fs'" by blast+
qed

text \<open>
  C36: On a volume with a valid geometry, writing the data of a file always returns. When it reports success, reading the file through the entry it stands for gives exactly the data, however
  many clusters it took and whatever the table held before; and every cluster that was in use keeps its link and all its sectors, so no other file or directory changes. The data
  is shorter than the 4 GiB a directory entry can record.
\<close>

theorem write_read_file_data:
  assumes "geometry fs" and "length data < 2 ^ 32"
  shows "\<exists>r fs'. write_file_data data fs = Some (r, fs') \<and>
    (\<forall>first n. r = Ok (first, n) \<longrightarrow>
       read_file_data (e\<lparr>de_first_cluster := first, de_size := of_nat n\<rparr>) fs' = Some (Ok data) \<and>
       (\<forall>c. cluster_used c fs \<longrightarrow> cluster_kept c fs fs'))"
proof -
  obtain r fs' where "write_loop 0 0 data fs = Some (r, fs')" using write_loop_returns [OF assms(1), of 0 0 data] by auto
  then obtain r' fs'' where w: "write_file_data data fs = Some (r', fs'')" unfolding write_file_data_def by (metis (no_types, lifting) option.simps(9) surj_pair)
  then show ?thesis using write_file_data_stored [OF assms] by blast
qed

text \<open>A volume of empty sectors with one table of one sector.\<close>

definition blank_volume :: fat32 where
  "blank_volume = cyclic_volume\<lparr>dev := \<lambda>_. Some (replicate 512 0)\<rparr>"

lemma blank_fields:
  "bytes_per_sector (bpb blank_volume) = 512" "sectors_per_cluster (bpb blank_volume) = 1" "num_fats (bpb blank_volume) = 1"
  "fat_size (bpb blank_volume) = 1" "fat_start_sector blank_volume = 1" "data_start_sector blank_volume = 2" "fsinfo_sector blank_volume = 0"
  "fsinfo blank_volume = None" "dev blank_volume s = Some (replicate 512 0)"
  by (simp_all add: blank_volume_def cyclic_volume_def)

lemma blank_geometry: "geometry blank_volume"
  by (auto simp: geometry_def blank_fields sectors_ok_def SECTOR_SIZE_def)

definition sample_entry :: DirEntry where
  "sample_entry = \<lparr>de_name = ''a'', de_short_name = 0x41 # replicate 10 0x20, de_attr = 0, de_first_cluster = 0, de_size = 0\<rparr>"

theorem write_read_file_data_witness:
  "geometry blank_volume \<and> (\<exists>fs'. write_file_data [1, 2, 3] blank_volume = Some (Ok (2, 3), fs') \<and>
     read_file_data (sample_entry\<lparr>de_first_cluster := 2, de_size := of_nat 3\<rparr>) fs' = Some (Ok [1, 2, 3]))"
proof -
  let ?fat = "\<lambda>b. blit 8 (le32 FAT32_EOC_MIN) b"
  have pos: "fat_position 2 (blank_volume\<lparr>dev := d\<rparr>) = Ok (1, 8)" for d by (simp add: fat_position_def arith_defs blank_fields)
  have set2: "write_fat_entry 2 FAT32_EOC_MIN (blank_volume\<lparr>dev := d\<rparr>) = (Ok (), blank_volume\<lparr>dev := d(1 := Some (?fat b))\<rparr>)" if "d 1 = Some b" for d b
    using that by (simp add: write_fat_entry_def pos blank_fields EOC_masked arith_defs read_sector_def write_sector_def SECTOR_SIZE_def)
  have blank: "blank_volume = blank_volume\<lparr>dev := \<lambda>_. Some (replicate 512 0)\<rparr>" by (simp add: blank_volume_def)
  have "fat_position 2 blank_volume = Ok (1, 8)" using pos [of "\<lambda>_. Some (replicate 512 0)"] blank by simp
  then have free2: "read_fat_entry 2 blank_volume = Ok 0"
    by (simp add: read_fat_entry_def read_sector_def blank_fields SECTOR_SIZE_def u32_at_def from_le_def)
  let ?d1 = "(\<lambda>_. Some (replicate 512 0))(1 := Some (?fat (replicate 512 0))) :: disk"
  have took: "took_cluster 2 blank_volume = (Ok 2, blank_volume\<lparr>dev := ?d1\<rparr>)"
    using set2 [of "\<lambda>_. Some (replicate 512 0)"] blank by (simp add: took_cluster_def blank_fields)
  have "clusters_from 2 128 = 2 # clusters_from 3 128" by (simp add: clusters_from_def upt_conv_Cons)
  then have alloc: "alloc_cluster blank_volume = (Ok 2, blank_volume\<lparr>dev := ?d1\<rparr>)"
    using free2 took by (simp add: alloc_cluster_def blank_fields arith_defs unwrap_or_def)
  let ?d2 = "?d1(2 := Some ([1, 2, 3] @ replicate 509 0))"
  have turn: "write_turn 0 0 [1, 2, 3] blank_volume = (Ok (2, 2, []), blank_volume\<lparr>dev := ?d2\<rparr>)"
    by (simp add: write_turn_def alloc cluster_to_sector_def blank_fields arith_defs cluster_sectors_def sector_at_def SECTOR_SIZE_def write_sector_def Let_def)
  obtain fs' where w: "write_file_data [1, 2, 3] blank_volume = Some (Ok (2, 3), fs')"
    using set2 [of ?d2] by (simp add: write_file_data_def turn write_loop.simps)
  obtain r fs'' where r: "write_file_data [1, 2, 3] blank_volume = Some (r, fs'')" and
    rd: "\<forall>first n. r = Ok (first, n) \<longrightarrow> read_file_data (sample_entry\<lparr>de_first_cluster := first, de_size := of_nat n\<rparr>) fs'' = Some (Ok [1, 2, 3])"
    using write_read_file_data [OF blank_geometry, of "[1, 2, 3]" sample_entry] by auto
  have "read_file_data (sample_entry\<lparr>de_first_cluster := 2, de_size := of_nat 3\<rparr>) fs' = Some (Ok [1, 2, 3])"
    using rd [rule_format, of 2 3] r w by auto
  then show ?thesis using w blank_geometry by blast
qed

end
