(* ===== verification/Fat32_Dirs.thy ===== *)
theory Fat32_Dirs
  imports Fat32_Files "HOL-Library.Multiset"
begin

text \<open>
  Directory sectors of the FAT32 driver. A sector is a list of 16 slots of 32 bytes; the parser reads the slots one after the other. The entries of a name, long-name parts
  and short entry, are written over free slots; parsing the sector afterwards gives the same entries as before and the new one in its place, under its long name.
\<close>

section \<open>Slots\<close>

lemma list_of_length_Suc: "length xs = Suc n \<longleftrightarrow> (\<exists>y ys. xs = y # ys \<and> length ys = n)"
  by (cases xs) auto

lemma update_mid: "k < length mid \<Longrightarrow> (pre @ mid @ post)[length pre + k := v] = pre @ mid[k := v] @ post"
  by (simp add: list_update_append)

lemma blit_mid: "k + length ys \<le> length mid \<Longrightarrow> blit (length pre + k) ys (pre @ mid @ post) = pre @ blit k ys mid @ post"
  by (simp add: blit_def add.assoc)

definition lfn_bytes :: "LfnRaw \<Rightarrow> bytes" where
  "lfn_bytes e = [rorder e] @ concat (map le16 (take 5 (rname e))) @ [ATTR_LFN, 0, rchecksum e] @ concat (map le16 (take 6 (drop 5 (rname e)))) @ [0, 0] @
     concat (map le16 (drop 11 (rname e)))"

lemma le16_bytes: "\<exists>lo hi. \<forall>v. le16 v = [lo v, hi v]"
  unfolding le16_def by (intro exI [of _ ucast] exI [of _ "\<lambda>v. of_nat (unat v div 256)"]) (simp add: numeral_2_eq_2)

lemma slice_split:
  assumes "off + n \<le> length b"
  obtains pre mid post where "b = pre @ mid @ post" and "off = length pre" and "length mid = n"
proof
  show "b = take off b @ take n (drop off b) @ drop n (drop off b)" by (simp only: append_take_drop_id)
  show "off = length (take off b)" "length (take n (drop off b)) = n" using assms by simp_all
qed

lemma fold_blit_mid:
  assumes "\<forall>(k, ch)\<in>set zs. k + 2 \<le> length mid"
  shows "fold (\<lambda>(k, ch). blit (length pre + k) (le16 ch)) zs (pre @ mid @ post) = pre @ fold (\<lambda>(k, ch). blit k (le16 ch)) zs mid @ post"
  using assms by (induction zs arbitrary: mid) (auto simp: blit_mid)

lemma write_lfn_entry_blit:
  assumes "length (rname e) = 13" and "off + 32 \<le> length b"
  shows "write_lfn_entry b off e = blit off (lfn_bytes e) b"
proof -
  obtain pre mid post where b: "b = pre @ mid @ post" and off: "off = length pre" and mid: "length mid = 32" using assms(2) by (rule slice_split)
  obtain lo hi where le: "\<And>v. le16 v = [lo v, hi v]" using le16_bytes by blast
  obtain n0 n1 n2 n3 n4 n5 n6 n7 n8 n9 n10 n11 n12 where n: "rname e = [n0, n1, n2, n3, n4, n5, n6, n7, n8, n9, n10, n11, n12]"
    using assms(1) by (auto simp: eval_nat_numeral length_Suc_conv)
  obtain m0 m1 m2 m3 m4 m5 m6 m7 m8 m9 m10 m11 m12 m13 m14 m15 m16 m17 m18 m19 m20 m21 m22 m23 m24 m25 m26 m27 m28 m29 m30 m31 where m: "mid = [m0, m1, m2, m3, m4, m5, m6, m7, m8, m9, m10, m11, m12, m13, m14, m15, m16, m17, m18, m19, m20, m21, m22, m23, m24, m25, m26, m27, m28, m29, m30, m31]"
    using mid by (auto simp: numeral_eq_Suc length_Suc_conv)
  have upd: "mid[0 := rorder e, 11 := ATTR_LFN, 13 := rchecksum e, 12 := 0, 26 := 0, 27 := 0] =
      [rorder e, m1, m2, m3, m4, m5, m6, m7, m8, m9, m10, ATTR_LFN, 0, rchecksum e, m14, m15, m16, m17, m18, m19, m20, m21, m22, m23, m24, m25, 0, 0, m28, m29, m30, m31]"
    by (simp add: m)
  let ?M = "mid[0 := rorder e, 11 := ATTR_LFN, 13 := rchecksum e, 12 := 0, 26 := 0, 27 := 0]"
  have "write_lfn_entry b off e = fold (\<lambda>(o', ch). blit (length pre + o') (le16 ch)) (zip LFN_OFFSETS (rname e)) (pre @ ?M @ post)"
    using mid update_mid [of 0 mid pre post "rorder e"] by (simp add: write_lfn_entry_def b off update_mid)
  also have "\<dots> = pre @ fold (\<lambda>(o', ch). blit o' (le16 ch)) (zip LFN_OFFSETS (rname e)) ?M @ post"
    using mid by (intro fold_blit_mid) (auto simp: LFN_OFFSETS_def n)
  also have "fold (\<lambda>(o', ch). blit o' (le16 ch)) (zip LFN_OFFSETS (rname e)) ?M = lfn_bytes e"
    unfolding upd by (simp add: LFN_OFFSETS_def lfn_bytes_def n le blit_def)
  also have "pre @ lfn_bytes e @ post = blit off (lfn_bytes e) b" using mid by (simp add: b off blit_def lfn_bytes_def n le)
  finally show ?thesis .
qed

definition short_bytes :: "bytes \<Rightarrow> bytes \<Rightarrow> bool \<Rightarrow> u32 \<Rightarrow> u32 \<Rightarrow> bytes" where
  "short_bytes old short_name is_dir first_cluster sz =
     short_name @ [if is_dir then ATTR_DIRECTORY else 0] @ take 8 (drop 12 old) @ le16 (ucast (drop_bit 16 first_cluster)) @ take 4 (drop 22 old) @
     le16 (ucast (first_cluster AND 0xFFFF)) @ le32 sz"

lemma write_short_entry_blit:
  assumes "length short_name = 11" and "off + 32 \<le> length b"
  shows "write_short_entry b off short_name is_dir first_cluster sz = blit off (short_bytes (sub_slice off 32 b) short_name is_dir first_cluster sz) b"
proof -
  obtain pre mid post where b: "b = pre @ mid @ post" and off: "off = length pre" and mid: "length mid = 32" using assms(2) by (rule slice_split)
  have sl: "sub_slice off 32 b = mid" using mid by (simp add: sub_slice_def b off)
  have at0: "blit (length pre) short_name (pre @ m @ post) = pre @ blit 0 short_name m @ post" if "length m = 32" for m
    using blit_mid [of 0 short_name m pre post] that assms(1) by simp
  have "write_short_entry b off short_name is_dir first_cluster sz = pre @
      blit 28 (le32 sz) (blit 26 (le16 (ucast (first_cluster AND 0xFFFF))) (blit 20 (le16 (ucast (drop_bit 16 first_cluster)))
        ((blit 0 short_name mid)[11 := if is_dir then ATTR_DIRECTORY else 0]))) @ post"
    using mid assms(1) by (simp add: write_short_entry_def Let_def b off at0 update_mid blit_mid)
  also have "(blit 0 short_name mid)[11 := if is_dir then ATTR_DIRECTORY else 0] = short_name @ [if is_dir then ATTR_DIRECTORY else 0] @ drop 12 mid"
    using mid assms(1) by (simp add: blit_def list_update_append drop_Suc [symmetric] list_update_beyond Cons_nth_drop_Suc [symmetric])
  also have "blit 28 (le32 sz) (blit 26 (le16 (ucast (first_cluster AND 0xFFFF))) (blit 20 (le16 (ucast (drop_bit 16 first_cluster)))
      (short_name @ [if is_dir then ATTR_DIRECTORY else 0] @ drop 12 mid))) = short_bytes mid short_name is_dir first_cluster sz"
    using mid assms(1) by (simp add: blit_def short_bytes_def)
  also have "pre @ short_bytes mid short_name is_dir first_cluster sz @ post = blit off (short_bytes (sub_slice off 32 b) short_name is_dir first_cluster sz) b"
    using mid assms(1) by (simp add: sl) (simp add: b off blit_def short_bytes_def)
  finally show ?thesis .
qed

definition slot :: "bytes \<Rightarrow> nat \<Rightarrow> bytes" where
  "slot b i = sub_slice (i * 32) 32 b"

lemma slot_length: "(i + 1) * 32 \<le> length b \<Longrightarrow> length (slot b i) = 32"
  by (simp add: slot_def sub_slice_def)

lemma slot_nth: "k < 32 \<Longrightarrow> (i + 1) * 32 \<le> length b \<Longrightarrow> slot b i ! k = b ! (i * 32 + k)"
  by (simp add: slot_def sub_slice_def)

lemma slot_blit:
  assumes "length s = 32" and "(p + 1) * 32 \<le> length b" and "(i + 1) * 32 \<le> length b"
  shows "slot (blit (p * 32) s b) i = (if i = p then s else slot b i)"
proof (cases "i = p")
  case True
  then show ?thesis using assms by (simp add: slot_def sub_slice_def blit_def)
next
  case False
  have "slot (blit (p * 32) s b) i ! k = slot b i ! k" if "k < 32" for k
  proof -
    have "\<not> (p * 32 \<le> i * 32 + k \<and> i * 32 + k < p * 32 + 32)" using False that by (cases "i < p") auto
    then show ?thesis using assms that by (auto simp: slot_nth nth_blit)
  qed
  then show ?thesis using False assms by (intro nth_equalityI) (simp_all add: slot_length)
qed

section \<open>The parser over slots\<close>

definition slot_part :: "bytes \<Rightarrow> LfnPart" where
  "slot_part s = \<lparr>lorder = s ! 0, lchecksum = s ! 13, lname = map (u16_at s) LFN_OFFSETS\<rparr>"

definition slot_entry :: "LfnPart list \<Rightarrow> bytes \<Rightarrow> DirEntry" where
  "slot_entry parts s =
     \<lparr>de_name = (if parts \<noteq> [] then unwrap_or (lfn_name parts (take 11 s)) (short_name_to_string (take 11 s)) else short_name_to_string (take 11 s)),
      de_short_name = take 11 s, de_attr = s ! 11, de_first_cluster = entry_cluster s 0, de_size = u32_at s 28\<rparr>"

definition slot_free :: "bytes \<Rightarrow> bool" where
  "slot_free s \<longleftrightarrow> s ! 0 = 0 \<or> s ! 0 = 0xE5"

definition slot_lfn :: "bytes \<Rightarrow> bool" where
  "slot_lfn s \<longleftrightarrow> \<not> slot_free s \<and> s ! 11 = ATTR_LFN"

fun scan_slots :: "bytes list \<Rightarrow> LfnPart list \<Rightarrow> DirEntry list" where
  "scan_slots [] parts = []"
| "scan_slots (s # ss) parts =
     (if s ! 0 = 0 then []
      else if s ! 0 = 0xE5 then scan_slots ss []
      else if s ! 11 = ATTR_LFN then scan_slots ss (parts @ [slot_part s])
      else if s ! 11 AND ATTR_VOLUME_ID \<noteq> 0 then scan_slots ss []
      else slot_entry parts s # scan_slots ss [])"

lemma u16_at_slot: "k + 1 < 32 \<Longrightarrow> (i + 1) * 32 \<le> length b \<Longrightarrow> u16_at b (i * 32 + k) = u16_at (slot b i) k"
  by (simp add: u16_at_def slot_nth [of k] slot_nth [of "Suc k"])

lemma u32_at_slot: "k + 3 < 32 \<Longrightarrow> (i + 1) * 32 \<le> length b \<Longrightarrow> u32_at b (i * 32 + k) = u32_at (slot b i) k"
  using slot_nth [of k i b] slot_nth [of "k + 1" i b] slot_nth [of "k + 2" i b] slot_nth [of "k + 3" i b] by (simp add: u32_at_def add.assoc)

lemma parse_entries_scan:
  assumes "\<forall>i\<in>set idxs. (i + 1) * 32 \<le> length b"
  shows "parse_entries b idxs parts es = Ok (es @ scan_slots (map (slot b) idxs) parts)"
  using assms
proof (induction idxs arbitrary: parts es)
  case (Cons i idxs)
  have i: "(i + 1) * 32 \<le> length b" using Cons.prems by simp
  have nth: "b ! (i * 32) = slot b i ! 0" "b ! (i * 32 + 11) = slot b i ! 11" using slot_nth [of 0 i b] slot_nth [of 11 i b] i by simp_all
  have part: "parse_lfn_part (sub_slice (i * 32) 32 b) = Ok (slot_part (slot b i))"
    using slot_length [OF i] by (simp add: parse_lfn_part_def slot_part_def slot_def)
  have name: "sub_slice (i * 32) 11 b = take 11 (slot b i)" by (simp add: slot_def sub_slice_def)
  have "entry_cluster b (i * 32) = entry_cluster (slot b i) 0" "u32_at b (i * 32 + 28) = u32_at (slot b i) 28"
    using i by (simp_all add: entry_cluster_def u16_at_slot u32_at_slot)
  then show ?case using Cons by (simp add: Let_def nth part name slot_entry_def)
qed simp

lemma parse_dir_entries_scan:
  assumes "length b = 512"
  shows "parse_dir_entries b es = Ok (es @ scan_slots (map (slot b) [0..<16]) [])"
  unfolding parse_dir_entries_def using assms by (simp add: parse_entries_scan)

section \<open>Long names\<close>

definition raw_part :: "LfnRaw \<Rightarrow> LfnPart" where
  "raw_part e = \<lparr>lorder = rorder e, lchecksum = rchecksum e, lname = rname e\<rparr>"

lemma lfn_bytes_length: "length (rname e) = 13 \<Longrightarrow> length (lfn_bytes e) = 32"
  by (simp add: lfn_bytes_def length_concat comp_def sum_list_triv)

lemma slot_part_lfn_bytes:
  assumes "length (rname e) = 13"
  shows "slot_part (lfn_bytes e) = raw_part e" and "lfn_bytes e ! 0 = rorder e" and "lfn_bytes e ! 11 = ATTR_LFN"
proof -
  obtain lo hi where le: "\<And>v. le16 v = [lo v, hi v]" using le16_bytes by blast
  have inv: "from_le [lo v, hi v] = v" for v using from_le_to_le(1) [of v] by (simp add: le)
  obtain n0 n1 n2 n3 n4 n5 n6 n7 n8 n9 n10 n11 n12 where n: "rname e = [n0, n1, n2, n3, n4, n5, n6, n7, n8, n9, n10, n11, n12]"
    using assms by (auto simp: eval_nat_numeral length_Suc_conv)
  show "lfn_bytes e ! 0 = rorder e" "lfn_bytes e ! 11 = ATTR_LFN" by (simp_all add: lfn_bytes_def n le)
  show "slot_part (lfn_bytes e) = raw_part e"
    by (simp add: slot_part_def raw_part_def LFN_OFFSETS_def u16_at_def lfn_bytes_def n le inv)
qed

lemma lfn_fragments_concat: "concat (lfn_fragments u) = map (lfn_unit u) [0..<13 * ((length u + 12) div 13)]"
proof -
  have "concat (map (\<lambda>k. map (\<lambda>i. lfn_unit u (13 * k + i)) [0..<13]) [0..<n]) = map (lfn_unit u) [0..<13 * n]" for n
  proof (induction n)
    case (Suc n)
    have "[0..<13 * Suc n] = [0..<13 * n] @ map (\<lambda>i. 13 * n + i) [0..<13]" by (intro nth_equalityI) (simp_all add: nth_append)
    then show ?case using Suc by (simp add: comp_def)
  qed simp
  then show ?thesis by (simp add: lfn_fragments_def)
qed

lemma decode_fragments:
  assumes "0 \<notin> set u" and "0xFFFF \<notin> set u" and "13 * n \<ge> length u"
  shows "filter (\<lambda>ch. ch \<noteq> 0xFFFF) (takeWhile (\<lambda>ch. ch \<noteq> 0) (map (lfn_unit u) [0..<13 * n])) = u"
proof -
  have "[0..<13 * n] = [0..<length u] @ [length u..<13 * n]" using assms(3) by (metis le_add_diff_inverse upt_add_eq_append zero_le)
  moreover have "map (lfn_unit u) [0..<length u] = u" by (rule nth_equalityI) (simp_all add: lfn_unit_def)
  ultimately have "map (lfn_unit u) [0..<13 * n] = u @ map (lfn_unit u) [length u..<13 * n]" by (simp only: map_append)
  moreover have "takeWhile (\<lambda>ch. ch \<noteq> 0) (map (lfn_unit u) [length u..<13 * n]) = []"
    by (cases "length u < 13 * n") (simp_all add: upt_conv_Cons lfn_unit_def)
  ultimately show ?thesis using assms(1,2) by (auto simp: takeWhile_append filter_id_conv)
qed

lemma build_lfn_entries_rev:
  fixes name checksum
  defines "parts \<equiv> lfn_fragments (encode_utf16 name)"
  shows "rev (build_lfn_entries name checksum) =
    map (\<lambda>j. \<lparr>rorder = (if j + 1 = length parts then of_nat (j + 1) OR 0x40 else of_nat (j + 1)), rchecksum = checksum, rname = parts ! j\<rparr>) [0..<length parts]"
proof (rule nth_equalityI)
  show "length (rev (build_lfn_entries name checksum)) = length (map (\<lambda>j. \<lparr>rorder = (if j + 1 = length parts then of_nat (j + 1) OR 0x40 else of_nat (j + 1)),
      rchecksum = checksum, rname = parts ! j\<rparr>) [0..<length parts])" by (simp add: build_lfn_entries_def Let_def parts_def)
  show "rev (build_lfn_entries name checksum) ! j = map (\<lambda>j. \<lparr>rorder = (if j + 1 = length parts then of_nat (j + 1) OR 0x40 else of_nat (j + 1)),
      rchecksum = checksum, rname = parts ! j\<rparr>) [0..<length parts] ! j" if "j < length (rev (build_lfn_entries name checksum))" for j
  proof -
    have j: "j < length parts" using that by (simp add: build_lfn_entries_def Let_def parts_def)
    then have "enumerate 0 (rev parts) ! (length parts - Suc j) = (length parts - Suc j, parts ! j)" by (simp add: nth_enumerate_eq rev_nth)
    then show ?thesis using j by (auto simp: build_lfn_entries_def Let_def rev_nth parts_def [symmetric])
  qed
qed

text \<open>A name that a directory can hold: valid text without the two code units that end and fill a long name.\<close>

definition storable_name :: "string \<Rightarrow> bool" where
  "storable_name name \<longleftrightarrow> utf8_valid (bytes_of_string name) \<and> 0 \<notin> set (encode_utf16 name) \<and> 0xFFFF \<notin> set (encode_utf16 name)"

lemma order_key:
  assumes "j < 31"
  shows "((if b then of_nat (j + 1) OR 0x40 else of_nat (j + 1)) :: u8) AND 0x1F = of_nat (j + 1)"
proof -
  have "\<forall>j\<in>set [0..<31]. ((of_nat (j + 1) OR 0x40) :: u8) AND 0x1F = of_nat (j + 1) \<and> (of_nat (j + 1) :: u8) AND 0x1F = of_nat (j + 1)"
    by code_simp
  then show ?thesis using assms by simp
qed

lemma build_length: "length (build_lfn_entries name checksum) = (length (encode_utf16 name) + 12) div 13"
  by (simp add: build_lfn_entries_def Let_def lfn_fragments_def)

lemma build_member:
  assumes "e \<in> set (build_lfn_entries name checksum)"
  shows "length (rname e) = 13 \<and> rchecksum e = checksum"
proof -
  have "e \<in> set (rev (build_lfn_entries name checksum))" using assms by simp
  then show ?thesis unfolding build_lfn_entries_rev by (auto simp: lfn_fragments_def)
qed

lemma build_not_Nil:
  assumes "storable_name name" and "name \<noteq> []"
  shows "build_lfn_entries name checksum \<noteq> []"
proof
  assume "build_lfn_entries name checksum = []"
  then have "length (encode_utf16 name) = 0" using build_length [of name checksum] by (simp add: div_eq_0_iff)
  then show False using from_encode_utf16 [of name] assms by (simp add: storable_name_def from_utf16_def str_of_chars_def string_of_bytes_def)
qed

lemma build_order:
  assumes "e \<in> set (build_lfn_entries name checksum)" and "length (build_lfn_entries name checksum) \<le> 15"
  shows "rorder e \<noteq> 0 \<and> rorder e \<noteq> 0xE5"
proof -
  have "e \<in> set (rev (build_lfn_entries name checksum))" using assms(1) by simp
  then obtain j c where j: "j < length (build_lfn_entries name checksum)" and e: "rorder e = (if c then of_nat (j + 1) OR 0x40 else of_nat (j + 1))"
    unfolding build_lfn_entries_rev by (auto simp: build_length lfn_fragments_def)
  have "\<forall>j\<in>set [0..<15]. of_nat (j + 1) OR 0x40 \<noteq> (0 :: u8) \<and> of_nat (j + 1) OR 0x40 \<noteq> (0xE5 :: u8) \<and> of_nat (j + 1) \<noteq> (0 :: u8) \<and> of_nat (j + 1) \<noteq> (0xE5 :: u8)"
    by code_simp
  then show ?thesis using j e assms(2) by auto
qed

lemma lfn_name_build:
  assumes "storable_name name" and "length (build_lfn_entries name (lfn_checksum sn)) \<le> 31"
  shows "lfn_name (map raw_part (build_lfn_entries name (lfn_checksum sn))) sn = Some name"
proof -
  let ?l = "build_lfn_entries name (lfn_checksum sn)" and ?u = "encode_utf16 name" and ?f = "\<lambda>p. lorder p AND 0x1F"
  define n where "n = (length ?u + 12) div 13"
  have n: "n \<le> 31" using assms(2) by (simp add: build_length n_def)
  have frag: "length (lfn_fragments ?u) = n" by (simp add: lfn_fragments_def n_def)
  have all: "filter (\<lambda>p. lchecksum p = lfn_checksum sn) (map raw_part ?l) = map raw_part ?l"
    using build_member by (auto simp: filter_id_conv raw_part_def)
  have rv: "map raw_part (rev ?l) = map (\<lambda>j. \<lparr>lorder = (if j + 1 = n then of_nat (j + 1) OR 0x40 else of_nat (j + 1)), lchecksum = lfn_checksum sn,
      lname = lfn_fragments ?u ! j\<rparr>) [0..<n]"
    unfolding build_lfn_entries_rev by (simp add: raw_part_def frag)
  have keys: "map ?f (map raw_part (rev ?l)) = map (\<lambda>j. of_nat (j + 1)) [0..<n]"
    unfolding rv map_map comp_def LfnPart.simps using n by (intro map_cong [OF refl] order_key) simp
  have "sort_key ?f (map raw_part ?l) = map raw_part (rev ?l)"
  proof (rule sort_key_inj_key_eq)
    show "mset (map raw_part ?l) = mset (map raw_part (rev ?l))" by (simp flip: rev_map)
    have inj: "inj_on (\<lambda>j. of_nat (j + 1) :: u8) {0..<n}" using n by (auto simp: inj_on_def word_unat_eq_iff unat_of_nat simp del: of_nat_add of_nat_Suc)
    have "distinct (map ?f (map raw_part (rev ?l)))" unfolding keys using inj by (simp add: distinct_map)
    then have "inj_on ?f (set (map raw_part (rev ?l)))" by (simp only: distinct_map)
    then show "inj_on ?f (set (map raw_part ?l))" by simp
    show "sorted (map ?f (map raw_part (rev ?l)))" unfolding keys sorted_iff_nth_mono
      using n by (auto simp: word_le_nat_alt unat_of_nat simp del: of_nat_add of_nat_Suc)
  qed
  moreover have "concat (map lname (map raw_part (rev ?l))) = concat (lfn_fragments ?u)" unfolding rv by (simp add: comp_def frag [symmetric] map_nth)
  moreover have "length ?u \<le> 13 * n" by (simp add: n_def)
  ultimately show ?thesis using assms(1) decode_fragments [of ?u n] from_encode_utf16
    by (simp add: lfn_name_def all decode_lfn_entries_def Let_def lfn_fragments_concat storable_name_def n_def)
qed

section \<open>Adding entries to a sector\<close>

text \<open>
  A directory sector as the driver keeps it: nothing follows the first slot that was never used, and long-name parts stand before the entry they belong to.
\<close>

fun slots_ok :: "bytes list \<Rightarrow> bool" where
  "slots_ok [] \<longleftrightarrow> True"
| "slots_ok (s # ss) \<longleftrightarrow> (s ! 0 = 0 \<longrightarrow> list_all (\<lambda>t. t ! 0 = 0) ss) \<and> (slot_lfn s \<longrightarrow> ss \<noteq> [] \<and> \<not> slot_free (hd ss)) \<and> slots_ok ss"

definition dir_sector_ok :: "bytes \<Rightarrow> bool" where
  "dir_sector_ok b \<longleftrightarrow> length b = 512 \<and> slots_ok (map (slot b) [0..<16])"

fun pending :: "bytes list \<Rightarrow> LfnPart list \<Rightarrow> LfnPart list" where
  "pending [] parts = parts"
| "pending (s # ss) parts = pending ss (if slot_lfn s then parts @ [slot_part s] else [])"

lemma scan_append:
  "list_all (\<lambda>s. s ! 0 \<noteq> 0) A \<Longrightarrow> scan_slots (A @ B) parts = scan_slots A parts @ scan_slots B (pending A parts)"
  by (induction A arbitrary: parts) (auto simp: slot_lfn_def slot_free_def)

lemma slots_ok_suffix: "slots_ok (A @ B) \<Longrightarrow> slots_ok B"
  by (induction A) auto

lemma no_lfn_before_free: "slots_ok (A @ B) \<Longrightarrow> B = [] \<or> slot_free (hd B) \<Longrightarrow> A = [] \<or> \<not> slot_lfn (last A)"
  by (induction A) (auto simp: hd_append)

lemma slots_ok_new:
  assumes "\<forall>s\<in>set N. \<not> slot_free s" and "N \<noteq> []" and "\<not> slot_lfn (last N)" and "slots_ok C"
  shows "slots_ok (N @ C)"
  using assms by (induction N) (auto simp: slot_free_def hd_append neq_Nil_conv split: if_splits)

lemma slots_ok_replace:
  assumes "slots_ok (A @ F @ C)" and "F \<noteq> []" and "\<forall>s\<in>set F. slot_free s" and "\<forall>s\<in>set A. s ! 0 \<noteq> 0" and "slots_ok (N @ C)" and "N \<noteq> []"
  shows "slots_ok (A @ N @ C)"
  using assms(1,4)
proof (induction A)
  case (Cons a A)
  have "A \<noteq> []" if "slot_lfn a" using no_lfn_before_free [of "[a]" "F @ C"] Cons.prems(1) assms(2,3) that by (cases A) (auto simp: neq_Nil_conv)
  then show ?case using Cons by (auto simp: hd_append)
qed (use assms(5) in simp)

lemma pending_last: "A = [] \<or> \<not> slot_lfn (last A) \<Longrightarrow> pending A [] = []"
proof (induction A rule: rev_induct)
  case (snoc s A)
  have "pending (A @ [s]) parts = (if slot_lfn s then pending A parts @ [slot_part s] else [])" for parts by (induction A arbitrary: parts) auto
  then show ?case using snoc.prems by simp
qed simp

lemma scan_free:
  assumes "\<forall>s\<in>set F. slot_free s" and "slots_ok (F @ C)"
  shows "scan_slots (F @ C) [] = scan_slots C []"
  using assms
proof (induction F)
  case (Cons s F)
  have zero: "scan_slots C [] = []" if "list_all (\<lambda>t. t ! 0 = 0) C" using that by (cases C) auto
  show ?case using Cons zero by (auto simp: slot_free_def list_all_iff)
qed simp

lemma insert_slots:
  assumes "slots_ok (A @ F @ C)" and "F \<noteq> []" and "\<forall>s\<in>set F. slot_free s" and "\<forall>s\<in>set A. s ! 0 \<noteq> 0"
    and "\<forall>s\<in>set L. slot_lfn s" and "\<not> slot_free e" and "e ! 11 \<noteq> ATTR_LFN" and "e ! 11 AND ATTR_VOLUME_ID = 0"
  shows "slots_ok (A @ (L @ [e]) @ C)" and "scan_slots (A @ F @ C) [] = scan_slots A [] @ scan_slots C []"
    and "scan_slots (A @ (L @ [e]) @ C) [] = scan_slots A [] @ slot_entry (map slot_part L) e # scan_slots C []"
proof -
  have p: "pending A [] = []" using no_lfn_before_free [OF assms(1)] assms(2,3) by (intro pending_last) (cases F; auto)
  have sA: "list_all (\<lambda>s. s ! 0 \<noteq> 0) A" using assms(4) by (simp add: list_all_iff)
  have "slots_ok ((L @ [e]) @ C)" using assms(5,6,7) slots_ok_suffix [of "A @ F" C] assms(1) by (intro slots_ok_new) (auto simp: slot_lfn_def)
  then show "slots_ok (A @ (L @ [e]) @ C)" by (rule slots_ok_replace [OF assms(1-4)]) simp
  show "scan_slots (A @ F @ C) [] = scan_slots A [] @ scan_slots C []"
    using scan_append [OF sA, of "F @ C" "[]"] p scan_free [OF assms(3) slots_ok_suffix [OF assms(1)]] by simp
  have "scan_slots (L @ e # C) parts = slot_entry (parts @ map slot_part L) e # scan_slots C []" for parts
    using assms(5-8) by (induction L arbitrary: parts) (auto simp: slot_lfn_def slot_free_def)
  then show "scan_slots (A @ (L @ [e]) @ C) [] = scan_slots A [] @ slot_entry (map slot_part L) e # scan_slots C []"
    using scan_append [OF sA, of "(L @ [e]) @ C" "[]"] p by simp
qed

lemma slot_write_entries:
  assumes "pos + length lfns < 16" and "length b = 512" and "\<forall>e\<in>set lfns. length (rname e) = 13" and "length sn = 11"
  shows "length (write_entries b pos lfns sn d fc sz) = 512 \<and>
    (\<forall>i<16. slot (write_entries b pos lfns sn d fc sz) i =
       (if i < pos then slot b i else if i < pos + length lfns then lfn_bytes (lfns ! (i - pos))
        else if i = pos + length lfns then short_bytes (slot b i) sn d fc sz else slot b i))"
  using assms
proof (induction lfns arbitrary: b pos)
  case Nil
  have len: "length (short_bytes (slot b pos) sn d fc sz) = 32" using Nil slot_length [of pos b] by (simp add: short_bytes_def)
  have "write_entries b pos [] sn d fc sz = blit (pos * 32) (short_bytes (slot b pos) sn d fc sz) b"
    using Nil by (simp add: write_short_entry_blit slot_def)
  then show ?case using Nil len by (simp add: slot_blit)
next
  case (Cons e lfns)
  have len: "length (lfn_bytes e) = 32" using Cons.prems(3) by (simp add: lfn_bytes_length)
  let ?b = "blit (pos * 32) (lfn_bytes e) b"
  have w: "write_entries b pos (e # lfns) sn d fc sz = write_entries ?b (pos + 1) lfns sn d fc sz"
    using Cons.prems by (simp add: write_lfn_entry_blit)
  have lb: "length ?b = 512" using Cons.prems len by simp
  have sb: "slot ?b i = (if i = pos then lfn_bytes e else slot b i)" if "i < 16" for i using Cons.prems(1,2) len that by (simp add: slot_blit)
  have "pos + 1 + length lfns < 16" "\<forall>e\<in>set lfns. length (rname e) = 13" using Cons.prems by simp_all
  note IH = Cons.IH [OF this(1) lb this(2) Cons.prems(4)]
  show ?case unfolding w
  proof (intro conjI allI impI)
    show "length (write_entries ?b (pos + 1) lfns sn d fc sz) = 512" using IH by blast
    fix i :: nat
    assume "i < 16"
    then show "slot (write_entries ?b (pos + 1) lfns sn d fc sz) i = (if i < pos then slot b i else if i < pos + length (e # lfns) then lfn_bytes ((e # lfns) ! (i - pos))
        else if i = pos + length (e # lfns) then short_bytes (slot b i) sn d fc sz else slot b i)"
      using IH sb [of i] by (auto simp: nth_Cons' less_Suc_eq)
  qed
qed

lemma slots_write_entries:
  assumes "pos + length lfns < 16" and "length b = 512" and "\<forall>e\<in>set lfns. length (rname e) = 13" and "length sn = 11"
  shows "map (slot (write_entries b pos lfns sn d fc sz)) [0..<16] =
    map (slot b) [0..<pos] @ (map lfn_bytes lfns @ [short_bytes (slot b (pos + length lfns)) sn d fc sz]) @ map (slot b) [pos + length lfns + 1..<16]"
proof (rule nth_equalityI)
  show "length (map (slot (write_entries b pos lfns sn d fc sz)) [0..<16]) =
      length (map (slot b) [0..<pos] @ (map lfn_bytes lfns @ [short_bytes (slot b (pos + length lfns)) sn d fc sz]) @ map (slot b) [pos + length lfns + 1..<16])"
    using assms(1) by simp
  fix i
  assume "i < length (map (slot (write_entries b pos lfns sn d fc sz)) [0..<16])"
  then have i: "i < 16" by simp
  then have "map (slot (write_entries b pos lfns sn d fc sz)) [0..<16] ! i = slot (write_entries b pos lfns sn d fc sz) i" by (simp del: upt_Suc)
  also have "\<dots> = (if i < pos then slot b i else if i < pos + length lfns then lfn_bytes (lfns ! (i - pos))
      else if i = pos + length lfns then short_bytes (slot b i) sn d fc sz else slot b i)" using slot_write_entries [OF assms, of d fc sz] i by blast
  also have "\<dots> = (map (slot b) [0..<pos] @ (map lfn_bytes lfns @ [short_bytes (slot b (pos + length lfns)) sn d fc sz]) @ map (slot b) [pos + length lfns + 1..<16]) ! i"
    using i assms(1) by (auto simp: nth_append nth_Cons' simp del: upt_Suc)
  finally show "map (slot (write_entries b pos lfns sn d fc sz)) [0..<16] ! i =
    (map (slot b) [0..<pos] @ (map lfn_bytes lfns @ [short_bytes (slot b (pos + length lfns)) sn d fc sz]) @ map (slot b) [pos + length lfns + 1..<16]) ! i" .
qed

lemma upt_split3: "pos \<le> k \<Longrightarrow> k \<le> m \<Longrightarrow> [0..<m] = [0..<pos] @ [pos..<k] @ [k..<m]"
  using upt_add_eq_append [of 0 pos "m - pos"] upt_add_eq_append [of pos k "m - k"] by simp

lemma slots_split:
  assumes "pos + n < 16"
  shows "map (slot b) [0..<16] = map (slot b) [0..<pos] @ map (slot b) [pos..<pos + n + 1] @ map (slot b) [pos + n + 1..<16]"
proof -
  have "[0..<16] = [0..<pos] @ [pos..<pos + n + 1] @ [pos + n + 1..<16]" using assms by (intro upt_split3) simp_all
  then show ?thesis by (simp only: map_append)
qed

lemma slots_ok_zero: "slots_ok ss \<Longrightarrow> i \<le> j \<Longrightarrow> j < length ss \<Longrightarrow> ss ! i ! 0 = 0 \<Longrightarrow> ss ! j ! 0 = 0"
proof (induction ss arbitrary: i j)
  case (Cons s ss)
  then show ?case by (cases i; cases j) (auto simp: list_all_length)
qed simp

lemma free_slotD:
  assumes "dir_sector_ok b" and "free_slot b (n + 1) = Some pos"
  shows "pos + n < 16" and "\<forall>i\<in>{pos..<pos + n + 1}. slot_free (slot b i)" and "\<forall>i<pos. slot b i ! 0 \<noteq> 0"
proof -
  have len: "length b = 512" and ok: "slots_ok (map (slot b) [0..<16])" using assms(1) by (simp_all add: dir_sector_ok_def)
  have first: "b ! (i * 32) = slot b i ! 0" if "i < 16" for i using slot_nth [of 0 i b] len that by simp
  let ?P = "\<lambda>i. b ! (i * 32) \<in> set [0, 0xE5] \<and> has_contiguous_free b i (n + 1)"
  have 16: "SECTOR_SIZE div 32 = 16" by (simp add: SECTOR_SIZE_def)
  have P: "?P pos" and before: "\<forall>j<pos. \<not> ?P j" and p16: "pos < 16"
    using assms(2) unfolding free_slot_def 16 by (auto simp: find_Some_iff simp del: upt_Suc upt_rec_numeral)
  from P have c: "(pos + i) * 32 < 512 \<and> b ! ((pos + i) * 32) \<in> set [0, 0xE5]" if "i < n + 1" for i
    using that len by (auto simp: has_contiguous_free_def list_all_iff simp del: upt_Suc)
  show lt: "pos + n < 16" using c [of n] by simp
  show "\<forall>i\<in>{pos..<pos + n + 1}. slot_free (slot b i)"
  proof
    fix i
    assume i: "i \<in> {pos..<pos + n + 1}"
    then show "slot_free (slot b i)" using c [of "i - pos"] first [of i] lt by (auto simp: slot_free_def)
  qed
  show "\<forall>i<pos. slot b i ! 0 \<noteq> 0"
  proof (intro allI impI notI)
    fix i
    assume i: "i < pos" and z: "slot b i ! 0 = 0"
    have zero: "b ! (j * 32) = 0" if "i \<le> j" "j < 16" for j
      using slots_ok_zero [OF ok that(1)] that z first [of j] p16 i by (simp del: upt_Suc upt_rec_numeral)
    have "b ! (i * 32 + k * 32) = 0" if "k < n + 1" for k using zero [of "i + k"] that lt i by (simp add: add_mult_distrib)
    then have "?P i" using zero [of i] p16 lt i by (auto simp: has_contiguous_free_def list_all_iff len simp del: upt_Suc)
    then show False using before i by blast
  qed
qed

lemma short_slot:
  fixes old sn d fc sz
  assumes "length old = 32" and "length sn = 11"
  defines "e \<equiv> short_bytes old sn d fc sz"
  shows "e ! 0 = sn ! 0" and "e ! 11 = (if d then ATTR_DIRECTORY else 0)" and "take 11 e = sn" and "entry_cluster e 0 = fc" and "u32_at e 28 = sz"
proof -
  obtain lo hi where le: "\<And>v. le16 v = [lo v, hi v]" using le16_bytes by blast
  have inv: "from_le [lo v, hi v] = v" for v using from_le_to_le(1) [of v] by (simp add: le)
  have pieces: "length (take 8 (drop 12 old)) = 8" "length (take 4 (drop 22 old)) = 4" using assms(1) by simp_all
  show "e ! 0 = sn ! 0" "e ! 11 = (if d then ATTR_DIRECTORY else 0)" "take 11 e = sn"
    using assms(2) by (simp_all add: e_def short_bytes_def nth_append)
  have "u16_at e 20 = ucast (drop_bit 16 fc)" "u16_at e 26 = ucast (fc AND 0xFFFF)"
    using assms(1,2) by (simp_all add: e_def short_bytes_def u16_at_def nth_append le inv)
  then show "entry_cluster e 0 = fc"
  proof -
    have mask: "(0xFFFF :: u32) = mask 16" by (simp add: mask_eq_exp_minus_1)
    show ?thesis using \<open>u16_at e 20 = _\<close> \<open>u16_at e 26 = _\<close> unfolding entry_cluster_def mask
      by simp (rule bit_word_eqI, auto simp: bit_simps not_le)
  qed
  have "e = blit 28 (le32 sz) (take 28 e @ replicate 4 0)" using assms(1,2) by (simp add: e_def short_bytes_def blit_def)
  then have "u32_at e 28 = u32_at (blit 28 (le32 sz) (take 28 e @ replicate 4 0)) 28" by (rule arg_cong)
  also have "\<dots> = sz" using assms(1,2) by (intro u32_at_blit) (simp add: e_def short_bytes_def)
  finally show "u32_at e 28 = sz" .
qed

text \<open>A short name the driver makes up does not look like a free slot.\<close>

lemma short_char_used: "short_char c \<noteq> 0" "short_char c \<noteq> 0xE5"
  by (auto simp: short_char_def Let_def is_valid_short_char_def split: if_splits)

lemma short_candidate_used:
  assumes "\<forall>c\<in>set base. c \<noteq> 0 \<and> c \<noteq> 0xE5" and "length base \<le> 8" and "length ext \<le> 3"
  shows "short_candidate base ext n ! 0 \<noteq> 0 \<and> short_candidate base ext n ! 0 \<noteq> 0xE5"
proof (cases base)
  case Nil
  then show ?thesis using assms(3) by (simp add: short_candidate_def Let_def nth_blit blit_def nth_append)
next
  case (Cons c cs)
  then have "short_candidate base ext n ! 0 = c" using assms(2,3) by (simp add: short_candidate_def Let_def nth_blit)
  then show ?thesis using assms(1) Cons by simp
qed

lemma short_loop_used:
  "\<forall>c\<in>set base. c \<noteq> 0 \<and> c \<noteq> 0xE5 \<Longrightarrow> length base \<le> 8 \<Longrightarrow> length ext \<le> 3 \<Longrightarrow>
    short_loop base ext taken n ! 0 \<noteq> 0 \<and> short_loop base ext taken n ! 0 \<noteq> 0xE5"
proof (induction base ext taken n rule: short_loop.induct)
  case (1 base ext taken n)
  then show ?case by (subst (1 2) short_loop.simps) (simp add: Let_def short_candidate_used)
qed

lemma make_short_name_used: "make_short_name long taken ! 0 \<noteq> 0" "make_short_name long taken ! 0 \<noteq> 0xE5"
proof -
  have "\<forall>c\<in>set (take 8 (short_base base)). c \<noteq> 0 \<and> c \<noteq> 0xE5" for base
    using short_char_used by (auto simp: short_base_def dest!: in_set_takeD)
  then have *: "short_loop (take 8 (short_base base)) (short_ext ext) taken 0 ! 0 \<noteq> 0 \<and> short_loop (take 8 (short_base base)) (short_ext ext) taken 0 ! 0 \<noteq> 0xE5" for base ext
    by (intro short_loop_used) (simp_all add: short_ext_def)
  then show "make_short_name long taken ! 0 \<noteq> 0" "make_short_name long taken ! 0 \<noteq> 0xE5"
    by (simp_all add: make_short_name_def split: option.split)
qed

text \<open>
  C37: Adding a name to a directory sector with room for it makes exactly that entry appear. The name is split into long-name parts, written last part first under a generated short
  name, over slots that are free; the parser then returns the entries it returned before, in the same order, and in between the new one with the full name, the attribute, the
  first cluster and the size it was given. The sector is as the driver keeps it, before and after. The name is valid text without the code units 0 and 0xFFFF.
\<close>

theorem added_entry_listed:
  assumes sn_def: "sn = make_short_name name taken" and lfns_def: "lfns = build_lfn_entries name (lfn_checksum sn)"
    and b: "dir_sector_ok b" and name: "storable_name name" "name \<noteq> []" and pos: "free_slot b (length lfns + 1) = Some pos"
  shows "dir_sector_ok (write_entries b pos lfns sn is_dir first_cluster sz) \<and>
    (\<exists>xs ys. parse_dir_entries b es = Ok (es @ xs @ ys) \<and>
       parse_dir_entries (write_entries b pos lfns sn is_dir first_cluster sz) es =
         Ok (es @ xs @ [\<lparr>de_name = name, de_short_name = sn, de_attr = (if is_dir then ATTR_DIRECTORY else 0), de_first_cluster = first_cluster, de_size = sz\<rparr>] @ ys))"
proof -
  let ?b = "write_entries b pos lfns sn is_dir first_cluster sz" and ?n = "length lfns"
  let ?A = "map (slot b) [0..<pos]" and ?F = "map (slot b) [pos..<pos + ?n + 1]" and ?C = "map (slot b) [pos + ?n + 1..<16]"
  let ?e = "short_bytes (slot b (pos + ?n)) sn is_dir first_cluster sz"
  have len: "length b = 512" and ok: "slots_ok (map (slot b) [0..<16])" using b by (simp_all add: dir_sector_ok_def)
  have sn: "length sn = 11" "sn ! 0 \<noteq> 0" "sn ! 0 \<noteq> 0xE5" unfolding sn_def by (rule make_short_name_length make_short_name_used)+
  have raw: "\<forall>e\<in>set lfns. length (rname e) = 13" using build_member by (auto simp: lfns_def)
  note fr = free_slotD [OF b pos]
  have lt: "?n \<le> 15" using fr(1) by simp
  have e: "length (slot b (pos + ?n)) = 32" using fr(1) len by (simp add: slot_length)
  note se = short_slot [OF e sn(1), of is_dir first_cluster sz]
  have slots: "map (slot b) [0..<16] = ?A @ ?F @ ?C" by (rule slots_split [OF fr(1)])
  have slots': "map (slot ?b) [0..<16] = ?A @ (map lfn_bytes lfns @ [?e]) @ ?C" by (rule slots_write_entries [OF fr(1) len raw sn(1)])
  have L: "\<forall>s\<in>set (map lfn_bytes lfns). slot_lfn s"
    using build_order lt raw slot_part_lfn_bytes(2,3) by (auto simp: slot_lfn_def slot_free_def lfns_def)
  have F: "?F \<noteq> []" "\<forall>s\<in>set ?F. slot_free s" "\<forall>s\<in>set ?A. s ! 0 \<noteq> 0" using fr(2,3) by (auto simp del: upt_Suc)
  have E: "\<not> slot_free ?e" "?e ! 11 \<noteq> ATTR_LFN" "?e ! 11 AND ATTR_VOLUME_ID = 0"
    using se(1,2) sn(2,3) by (auto simp: slot_free_def ATTR_LFN_def ATTR_DIRECTORY_def ATTR_VOLUME_ID_def)
  note ins = insert_slots [OF ok [unfolded slots] F L E]
  have entry: "slot_entry (map slot_part (map lfn_bytes lfns)) ?e = \<lparr>de_name = name, de_short_name = sn, de_attr = (if is_dir then ATTR_DIRECTORY else 0),
      de_first_cluster = first_cluster, de_size = sz\<rparr>"
  proof -
    have parts: "map slot_part (map lfn_bytes lfns) = map raw_part lfns" using raw slot_part_lfn_bytes(1) by simp
    have "lfn_name (map raw_part lfns) sn = Some name" using lfn_name_build [OF name(1)] lt by (simp add: lfns_def)
    moreover have "lfns \<noteq> []" unfolding lfns_def by (rule build_not_Nil [OF name])
    ultimately show ?thesis unfolding parts by (simp add: slot_entry_def se unwrap_or_def)
  qed
  have len': "length ?b = 512" using slot_write_entries [OF fr(1) len raw sn(1)] by blast
  show ?thesis unfolding dir_sector_ok_def parse_dir_entries_scan [OF len] parse_dir_entries_scan [OF len'] slots slots' ins(2,3) entry
    using len' ins(1) by (intro conjI exI [of _ "scan_slots ?A []"] exI [of _ "scan_slots ?C []"]) simp_all
qed

lemma empty_sector_ok: "dir_sector_ok (replicate 512 0)"
proof -
  have "slot (replicate 512 0) i ! 0 = 0" if "i < 16" for i using that by (simp add: slot_nth [of 0, simplified])
  moreover have "slots_ok ss" if "\<forall>s\<in>set ss. s ! 0 = 0" for ss using that by (induction ss) (auto simp: list_all_iff slot_lfn_def slot_free_def)
  ultimately show ?thesis by (simp add: dir_sector_ok_def del: upt_Suc upt_rec_numeral)
qed

theorem added_entry_listed_witness:
  "\<exists>sn xs ys. sn = make_short_name ''Long name.txt'' (\<lambda>_. False) \<and>
     parse_dir_entries (write_entries (replicate 512 0) 0 (build_lfn_entries ''Long name.txt'' (lfn_checksum sn)) sn False 5 7) [] =
       Ok (xs @ [\<lparr>de_name = ''Long name.txt'', de_short_name = sn, de_attr = 0, de_first_cluster = 5, de_size = 7\<rparr>] @ ys)"
proof -
  define sn where "sn = make_short_name ''Long name.txt'' (\<lambda>_. False)"
  have "storable_name ''Long name.txt''" by code_simp
  moreover have "length (encode_utf16 ''Long name.txt'') = 13" by code_simp
  moreover have "free_slot (replicate 512 0) 2 = Some 0"
    by (simp add: free_slot_def SECTOR_SIZE_def has_contiguous_free_def upt_conv_Cons)
  ultimately have "free_slot (replicate 512 0) (length (build_lfn_entries ''Long name.txt'' (lfn_checksum sn)) + 1) = Some 0" by (simp add: build_length numeral_2_eq_2)
  from added_entry_listed [OF sn_def refl empty_sector_ok \<open>storable_name ''Long name.txt''\<close> _ this, of False 5 7 "[]"]
  show ?thesis unfolding sn_def by auto
qed

end
