(* ===== verification/Fat32_Vfs.thy ===== *)
theory Fat32_Vfs
  imports Fat32_Dirs Vfs
begin

text \<open>
  \<^verbatim>\<open>kernel/src/fat32.rs\<close>: FAT32 volumes as file systems of the kernel. Every operation mounts the volume on its device anew, so the state is the device alone. A result
  \<open>None\<close> is a directory or file whose cluster chain has no end.
\<close>

section \<open>Operations\<close>

definition fat32_volume :: "disk \<Rightarrow> (VfsError, fat32) res" where
  "fat32_volume d = map_err (\<lambda>_. IoError) (new_with_device d)"

definition fat_file_read :: "bytes \<Rightarrow> nat \<Rightarrow> nat \<Rightarrow> (VfsError, bytes) res" where
  "fat_file_read data offset n =
     (if offset \<ge> length data then Ok []
      else let remaining = length data - offset; to_copy = min remaining n in Ok (take to_copy (drop offset data)))"

definition fat_file :: "bytes \<Rightarrow> vfs_node" where
  "fat_file data = \<lparr>node_kind = File, node_size = length data, node_read = fat_file_read data\<rparr>"

definition fat32_open :: "string \<Rightarrow> disk \<Rightarrow> (VfsError, vfs_node) res option" where
  "fat32_open path d =
     await (Some (fat32_volume d)) (\<lambda>fs.
       if path = ''/'' \<or> path = [] then Some (Err NotAFile)
       else map_option (\<lambda>r. map_res id fat_file (map_err (\<lambda>_. NotFound) r)) (read_file path fs))"

definition vfs_entry :: "DirEntry \<Rightarrow> VfsDirEntry" where
  "vfs_entry e = VfsDirEntry.make (DirEntry.de_name e) (if de_attr e AND ATTR_DIRECTORY \<noteq> 0 then Directory else File) (unat (DirEntry.de_size e))"

definition fat32_list_dir :: "string \<Rightarrow> disk \<Rightarrow> (VfsError, VfsDirEntry list) res option" where
  "fat32_list_dir path d =
     await (Some (fat32_volume d)) (\<lambda>fs. map_option (\<lambda>r. map_res id (map vfs_entry) (map_err (\<lambda>_. NotFound) r)) (list_dir path fs))"

text \<open>An operation that changes the volume leaves its device behind; the driver object is dropped.\<close>

definition fat32_update :: "VfsError \<Rightarrow> (fat32 \<Rightarrow> ((string, unit) res \<times> fat32) option) \<Rightarrow> disk \<Rightarrow> ((VfsError, unit) res \<times> disk) option" where
  "fat32_update e act d =
     await_then (Some (fat32_volume d)) d (\<lambda>fs. map_option (\<lambda>(r, fs). (map_err (\<lambda>_. e) r, dev fs)) (act fs))"

definition fat32_create_file :: "string \<Rightarrow> bytes \<Rightarrow> disk \<Rightarrow> ((VfsError, unit) res \<times> disk) option" where
  "fat32_create_file path data = fat32_update IoError (create_file path data)"

definition fat32_delete_file :: "string \<Rightarrow> disk \<Rightarrow> ((VfsError, unit) res \<times> disk) option" where
  "fat32_delete_file path = fat32_update NotFound (delete_file path)"

definition fat32_create_dir :: "string \<Rightarrow> disk \<Rightarrow> ((VfsError, unit) res \<times> disk) option" where
  "fat32_create_dir path = fat32_update IoError (create_dir path)"

definition fat32_delete_dir :: "string \<Rightarrow> disk \<Rightarrow> ((VfsError, unit) res \<times> disk) option" where
  "fat32_delete_dir path = fat32_update IoError (delete_dir path)"

definition fat32_read_file :: "string \<Rightarrow> disk \<Rightarrow> (VfsError, bytes) res option" where
  "fat32_read_file path d =
     await (Some (fat32_volume d)) (\<lambda>fs. map_option (map_err (\<lambda>_. NotFound)) (read_file path fs))"

section \<open>The direct read\<close>

lemma fat_file_serves: "serves data (fat_file_read data)"
  by (auto simp: serves_def fat_file_read_def Let_def min_def)

lemma default_read_fat_file: "default_read_file (\<lambda>_. Ok (fat_file data)) s = Some (Ok data)"
  using read_chunks_serves [OF fat_file_serves [of data], of 0] read_sized_serves [OF fat_file_serves [of data] refl, of 0]
  by (auto simp: default_read_file_def fat_file_def)

text \<open>Reading a file directly gives what opening it and reading it through its node would give, except that the root directory is reported as not found.\<close>

lemma direct_read_equals_default:
  assumes "path \<noteq> ''/''" and "path \<noteq> []"
  shows "fat32_read_file path d = Option.bind (fat32_open path d) (\<lambda>r. default_read_file (\<lambda>_. r) d)"
proof (cases "fat32_volume d")
  case (Ok fs)
  show ?thesis
  proof (cases "read_file path fs")
    case (Some r)
    then show ?thesis using assms Ok
      by (cases r) (simp_all add: fat32_read_file_def fat32_open_def await_def default_read_fat_file, simp_all add: default_read_file_def)
  qed (use assms Ok in \<open>simp add: fat32_read_file_def fat32_open_def await_def\<close>)
qed (simp_all add: fat32_read_file_def fat32_open_def await_def default_read_file_def)

end
