(* ===== verification/Net_Base.thy ===== *)
theory Net_Base
  imports Rust_Utf
begin

text \<open>
  \<^verbatim>\<open>kernel/src/netstack/types.rs\<close>, the tables of \<^verbatim>\<open>netstack/mod.rs\<close> and \<^verbatim>\<open>net_config.rs\<close>: packet headers, connections and sockets, the state of the network stack, the ARP
  cache and the Internet checksum. The state also holds what the stack sees of the machine: the timer, the stream of random numbers, what the driver of the network card answers to a frame, and
  the frames it took.
\<close>

section \<open>Headers\<close>

text \<open>A packed header is read from the front of a byte sequence and written as its fields one after the other.\<close>

record EthernetHeader =
  dst_mac :: bytes
  src_mac :: bytes
  ethertype :: bytes

definition field :: "bytes \<Rightarrow> nat \<Rightarrow> nat \<Rightarrow> bytes" where
  "field b off n = take n (drop off b)"

definition ethernet_from_bytes :: "bytes \<Rightarrow> EthernetHeader option" where
  "ethernet_from_bytes b =
     (if length b < 14 then None else Some \<lparr>dst_mac = field b 0 6, src_mac = field b 6 6, ethertype = field b 12 2\<rparr>)"

definition ethernet_bytes :: "EthernetHeader \<Rightarrow> bytes" where
  "ethernet_bytes h = dst_mac h @ src_mac h @ ethertype h"

definition ethertype_u16 :: "EthernetHeader \<Rightarrow> u16" where
  "ethertype_u16 h = from_be (ethertype h)"

record ArpPacket =
  htype :: bytes
  ptype :: bytes
  hlen :: u8
  plen :: u8
  oper :: bytes
  sha :: bytes
  spa :: bytes
  tha :: bytes
  tpa :: bytes

definition arp_from_bytes :: "bytes \<Rightarrow> ArpPacket" where
  "arp_from_bytes b =
     \<lparr>htype = field b 0 2, ptype = field b 2 2, hlen = b ! 4, plen = b ! 5, oper = field b 6 2, sha = field b 8 6, spa = field b 14 4, tha = field b 18 6, tpa = field b 24 4\<rparr>"

definition arp_bytes :: "ArpPacket \<Rightarrow> bytes" where
  "arp_bytes p = htype p @ ptype p @ [hlen p, plen p] @ oper p @ sha p @ spa p @ tha p @ tpa p"

definition oper_u16 :: "ArpPacket \<Rightarrow> u16" where
  "oper_u16 p = from_be (oper p)"

record Ipv4Header =
  version_ihl :: u8
  tos :: u8
  total_length :: bytes
  identification :: bytes
  flags_fragment :: bytes
  ttl :: u8
  protocol :: u8
  ip_checksum :: bytes
  src_ip :: bytes
  dst_ip :: bytes

definition ipv4_from_bytes :: "bytes \<Rightarrow> Ipv4Header" where
  "ipv4_from_bytes b =
     \<lparr>version_ihl = b ! 0, tos = b ! 1, total_length = field b 2 2, identification = field b 4 2, flags_fragment = field b 6 2, ttl = b ! 8, protocol = b ! 9,
      ip_checksum = field b 10 2, src_ip = field b 12 4, dst_ip = field b 16 4\<rparr>"

definition ipv4_bytes :: "Ipv4Header \<Rightarrow> bytes" where
  "ipv4_bytes h = [version_ihl h, tos h] @ total_length h @ identification h @ flags_fragment h @ [ttl h, protocol h] @ ip_checksum h @ src_ip h @ dst_ip h"

definition header_length :: "Ipv4Header \<Rightarrow> nat" where
  "header_length h = unat (version_ihl h AND 0x0F) * 4"

record IcmpHeader =
  icmp_type :: u8
  icmp_code :: u8
  icmp_checksum :: bytes
  icmp_identifier :: bytes
  icmp_sequence :: bytes

definition icmp_from_bytes :: "bytes \<Rightarrow> IcmpHeader" where
  "icmp_from_bytes b =
     \<lparr>icmp_type = b ! 0, icmp_code = b ! 1, icmp_checksum = field b 2 2, icmp_identifier = field b 4 2, icmp_sequence = field b 6 2\<rparr>"

definition icmp_bytes :: "IcmpHeader \<Rightarrow> bytes" where
  "icmp_bytes h = [icmp_type h, icmp_code h] @ icmp_checksum h @ icmp_identifier h @ icmp_sequence h"

record UdpHeader =
  udp_src_port :: bytes
  udp_dst_port :: bytes
  udp_length :: bytes
  udp_checksum :: bytes

definition udp_from_bytes :: "bytes \<Rightarrow> UdpHeader" where
  "udp_from_bytes b = \<lparr>udp_src_port = field b 0 2, udp_dst_port = field b 2 2, udp_length = field b 4 2, udp_checksum = field b 6 2\<rparr>"

definition udp_bytes :: "UdpHeader \<Rightarrow> bytes" where
  "udp_bytes h = udp_src_port h @ udp_dst_port h @ udp_length h @ udp_checksum h"

record TcpHeader =
  tcp_src_port :: bytes
  tcp_dst_port :: bytes
  tcp_seq :: bytes
  tcp_ack :: bytes
  data_offset_reserved :: u8
  tcp_flags :: u8
  window :: bytes
  tcp_checksum :: bytes
  urgent_ptr :: bytes

definition tcp_from_bytes :: "bytes \<Rightarrow> TcpHeader" where
  "tcp_from_bytes b =
     \<lparr>tcp_src_port = field b 0 2, tcp_dst_port = field b 2 2, tcp_seq = field b 4 4, tcp_ack = field b 8 4, data_offset_reserved = b ! 12, tcp_flags = b ! 13,
      window = field b 14 2, tcp_checksum = field b 16 2, urgent_ptr = field b 18 2\<rparr>"

definition tcp_bytes :: "TcpHeader \<Rightarrow> bytes" where
  "tcp_bytes h = tcp_src_port h @ tcp_dst_port h @ tcp_seq h @ tcp_ack h @ [data_offset_reserved h, tcp_flags h] @ window h @ tcp_checksum h @ urgent_ptr h"

definition TCP_FLAG_FIN :: u8 where "TCP_FLAG_FIN = 0x01"
definition TCP_FLAG_SYN :: u8 where "TCP_FLAG_SYN = 0x02"
definition TCP_FLAG_RST :: u8 where "TCP_FLAG_RST = 0x04"
definition TCP_FLAG_PSH :: u8 where "TCP_FLAG_PSH = 0x08"
definition TCP_FLAG_ACK :: u8 where "TCP_FLAG_ACK = 0x10"

lemmas tcp_flag_defs = TCP_FLAG_FIN_def TCP_FLAG_SYN_def TCP_FLAG_RST_def TCP_FLAG_PSH_def TCP_FLAG_ACK_def

definition data_offset :: "TcpHeader \<Rightarrow> nat" where
  "data_offset h = unat (drop_bit 4 (data_offset_reserved h)) * 4"

definition has_flag :: "TcpHeader \<Rightarrow> u8 \<Rightarrow> bool" where
  "has_flag h flag \<longleftrightarrow> tcp_flags h AND flag \<noteq> 0"

section \<open>Connections, sockets and the state of the stack\<close>

datatype TcpState = Closed | SynSent | SynReceived | Established | FinWait1 | FinWait2 | CloseWait | LastAck | TimeWait

definition TCP_INITIAL_RTO_TICKS :: u64 where "TCP_INITIAL_RTO_TICKS = 18"
definition TCP_MAX_RETRANSMIT :: u8 where "TCP_MAX_RETRANSMIT = 5"

record UnackedPacket =
  up_seq :: u32
  up_ack :: u32
  up_flags :: u8
  up_payload :: bytes
  retransmit_deadline :: u64
  retransmit_count :: u8

record TcpConnection =
  tc_id :: u32
  tc_state :: TcpState
  local_port :: u16
  remote_ip :: bytes
  remote_port :: u16
  seq_num :: u32
  ack_num :: u32
  recv_buffer :: bytes
  time_wait_deadline :: "u64 option"
  unacked_packet :: "UnackedPacket option"

record UdpSocketEntry =
  us_id :: u32
  us_port :: u16
  recv_queue :: "(bytes \<times> u16 \<times> bytes) list"

record NetConfig =
  my_ip :: bytes
  gateway_ip :: bytes
  dns_server_ip :: bytes
  subnet_mask :: bytes

record NetState =
  mac :: bytes
  tcp_connections :: "TcpConnection list"
  tcp_next_id :: u32
  tcp_next_port :: u16
  tcp_listen_ports :: "u16 list"
  tcp_pending_accept :: "(u32 \<times> u16) list"
  udp_response :: "(u16 \<times> bytes) option"
  udp_sockets :: "UdpSocketEntry list"
  udp_next_port :: u16
  icmpv6_echo_reply :: "(u16 \<times> u16 \<times> bytes) option"
  net_waiters :: "u64 list"
  arp_cache :: "(bytes \<times> bytes) list"
  my_mac :: bytes
  net_config :: NetConfig
  tick :: u64
  rdrand :: "nat \<Rightarrow> u64"
  rdrand_used :: nat
  nic_answer :: "bytes list \<Rightarrow> bytes \<Rightarrow> (string, unit) res"
  frames_out :: "bytes list"

definition default_config :: NetConfig where
  "default_config = \<lparr>my_ip = [10, 0, 2, 15], gateway_ip = [10, 0, 2, 2], dns_server_ip = [10, 0, 2, 3], subnet_mask = [255, 255, 255, 0]\<rparr>"

definition net_init :: "bytes \<Rightarrow> u64 \<Rightarrow> (nat \<Rightarrow> u64) \<Rightarrow> (bytes list \<Rightarrow> bytes \<Rightarrow> (string, unit) res) \<Rightarrow> NetState" where
  "net_init m now rnd nic =
     \<lparr>mac = m, tcp_connections = [], tcp_next_id = 1, tcp_next_port = 49152, tcp_listen_ports = [], tcp_pending_accept = [], udp_response = None,
      udp_sockets = [], udp_next_port = 49152, icmpv6_echo_reply = None, net_waiters = [], arp_cache = [], my_mac = m, net_config = default_config,
      tick = now, rdrand = rnd, rdrand_used = 0, nic_answer = nic, frames_out = []\<rparr>"

definition set_config :: "bytes \<Rightarrow> bytes \<Rightarrow> bytes \<Rightarrow> bytes \<Rightarrow> NetState \<Rightarrow> NetState" where
  "set_config ip gw dns sm s = s\<lparr>net_config := \<lparr>my_ip = ip, gateway_ip = gw, dns_server_ip = dns, subnet_mask = sm\<rparr>\<rparr>"

abbreviation get_my_ip :: "NetState \<Rightarrow> bytes" where
  "get_my_ip s \<equiv> my_ip (net_config s)"

definition kernel_rdrand64 :: "NetState \<Rightarrow> u64 \<times> NetState" where
  "kernel_rdrand64 s = (rdrand s (rdrand_used s), s\<lparr>rdrand_used := rdrand_used s + 1\<rparr>)"

definition new_connection :: "u32 \<Rightarrow> u16 \<Rightarrow> bytes \<Rightarrow> u16 \<Rightarrow> NetState \<Rightarrow> TcpConnection \<times> NetState" where
  "new_connection i lport rip rport s =
     (case kernel_rdrand64 s of (r, s) \<Rightarrow>
       (\<lparr>tc_id = i, tc_state = Closed, local_port = lport, remote_ip = rip, remote_port = rport, seq_num = ucast r, ack_num = 0, recv_buffer = [],
         time_wait_deadline = None, unacked_packet = None\<rparr>, s))"

definition alloc_conn_id :: "NetState \<Rightarrow> u32 \<times> NetState" where
  "alloc_conn_id s =
     (let i = (if tcp_next_id s = 0 then 1 else tcp_next_id s); n = tcp_next_id s + 1 in
      (i, s\<lparr>tcp_next_id := if n = 0 then 1 else n\<rparr>))"

definition next_ephemeral :: "u16 \<Rightarrow> u16" where
  "next_ephemeral p = (let n = p + 1 in if n < 49152 then 49152 else n)"

definition alloc_local_port :: "NetState \<Rightarrow> u16 \<times> NetState" where
  "alloc_local_port s = (tcp_next_port s, s\<lparr>tcp_next_port := next_ephemeral (tcp_next_port s)\<rparr>)"

definition find_conn_index_by_id :: "NetState \<Rightarrow> u32 \<Rightarrow> nat option" where
  "find_conn_index_by_id s i = position (\<lambda>c. tc_id c = i) (tcp_connections s)"

definition find_conn_index_by_tuple :: "NetState \<Rightarrow> bytes \<Rightarrow> u16 \<Rightarrow> u16 \<Rightarrow> nat option" where
  "find_conn_index_by_tuple s sip sport dport =
     position (\<lambda>c. remote_ip c = sip \<and> remote_port c = sport \<and> local_port c = dport) (tcp_connections s)"

definition remove_conn_by_id :: "u32 \<Rightarrow> NetState \<Rightarrow> NetState" where
  "remove_conn_by_id i s =
     (case find_conn_index_by_id s i of Some idx \<Rightarrow> s\<lparr>tcp_connections := remove_nth idx (tcp_connections s)\<rparr> | None \<Rightarrow> s)"

section \<open>ARP cache\<close>

definition ARP_CACHE_MAX :: nat where "ARP_CACHE_MAX = 64"
definition BROADCAST_MAC :: bytes where "BROADCAST_MAC = replicate 6 0xFF"
definition LOOPBACK_IP :: bytes where "LOOPBACK_IP = [127, 0, 0, 1]"

definition arp_lookup :: "bytes \<Rightarrow> NetState \<Rightarrow> bytes option" where
  "arp_lookup ip s = map_of (arp_cache s) ip"

fun arp_set :: "bytes \<Rightarrow> bytes \<Rightarrow> (bytes \<times> bytes) list \<Rightarrow> (bytes \<times> bytes) list option" where
  "arp_set ip m [] = None"
| "arp_set ip m ((i, m') # es) = (if i = ip then Some ((i, m) # es) else map_option (\<lambda>es. (i, m') # es) (arp_set ip m es))"

definition arp_update :: "bytes \<Rightarrow> bytes \<Rightarrow> NetState \<Rightarrow> NetState" where
  "arp_update ip m s =
     (case arp_set ip m (arp_cache s) of
        Some es \<Rightarrow> s\<lparr>arp_cache := es\<rparr>
      | None \<Rightarrow>
          let es = (if length (arp_cache s) \<ge> ARP_CACHE_MAX then tl (arp_cache s) else arp_cache s) in s\<lparr>arp_cache := es @ [(ip, m)]\<rparr>)"

definition is_local_ip :: "bytes \<Rightarrow> NetState \<Rightarrow> bool" where
  "is_local_ip ip s \<longleftrightarrow> ip = get_my_ip s \<or> ip = LOOPBACK_IP \<or> ip = [255, 255, 255, 255]"

text \<open>The driver of the card answers for a frame, given the frames it has taken so far; without a card the answer is always the same error.\<close>

definition send_frame :: "bytes \<Rightarrow> NetState \<Rightarrow> (string, unit) res \<times> NetState" where
  "send_frame b s =
     (case nic_answer s (frames_out s) b of Ok u \<Rightarrow> (Ok u, s\<lparr>frames_out := frames_out s @ [b]\<rparr>) | r \<Rightarrow> (r, s))"

section \<open>Checksums\<close>

text \<open>The sum of the big-endian 16-bit words in 32 bits, an odd last byte being the high half of a word.\<close>

fun checksum_sum :: "bytes \<Rightarrow> u32 \<Rightarrow> u32 option" where
  "checksum_sum (x # y # r) acc = Option.bind (cadd acc (ucast (from_be [x, y] :: u16))) (checksum_sum r)"
| "checksum_sum [x] acc = cadd acc (push_bit 8 (ucast x))"
| "checksum_sum [] acc = Some acc"

text \<open>Folding the carries back; the addition cannot overflow, as the lemma shows.\<close>

lemma unat_fold_step: "unat ((acc AND 0xFFFF) + drop_bit 16 acc) = unat acc mod 65536 + unat acc div 65536"
  for acc :: u32
proof -
  have "acc AND 0xFFFF = take_bit 16 acc" by (simp add: take_bit_eq_mask mask_eq_exp_minus_1)
  then have "unat (acc AND 0xFFFF) = unat acc mod 65536" "unat (drop_bit 16 acc) = unat acc div 65536"
    by (simp_all add: take_bit_eq_mod drop_bit_eq_div unat_mod_distrib unat_div_distrib)
  moreover have "unat acc div 65536 < 65536" using unat_lt [of acc] by simp
  ultimately show ?thesis by (simp add: unat_word_ariths)
qed

lemma drop_16_eq_0_iff: "drop_bit 16 acc = 0 \<longleftrightarrow> unat acc < 65536"
  for acc :: u32
  by (simp add: unat_eq_zero [symmetric] drop_bit_eq_div unat_div_distrib div_eq_0_iff)

lemma fold_step_less: "65536 \<le> n \<Longrightarrow> n mod 65536 + n div 65536 < n"
  for n :: nat
proof -
  assume "65536 \<le> n"
  then have "1 \<le> n div 65536" by (simp add: Suc_le_eq div_greater_zero_iff)
  moreover have "n = 65536 * (n div 65536) + n mod 65536" by simp
  ultimately show ?thesis by linarith
qed

function fold_carry :: "u32 \<Rightarrow> u32" where
  "fold_carry acc = (if drop_bit 16 acc = 0 then acc else fold_carry ((acc AND 0xFFFF) + drop_bit 16 acc))"
  by pat_completeness auto
termination
  by (relation "measure unat") (simp_all add: unat_fold_step drop_16_eq_0_iff fold_step_less)

declare fold_carry.simps [simp del]

definition calculate_checksum :: "bytes \<Rightarrow> (string, u16) res" where
  "calculate_checksum data = map_res id (\<lambda>acc. NOT (ucast (fold_carry acc))) (or_panic (checksum_sum data 0))"

section \<open>What the checksum computes\<close>

text \<open>The sum as a natural number, and the value the carries fold to: the residue modulo 65535, with 65535 standing for a nonzero multiple of it.\<close>

fun word_sum :: "bytes \<Rightarrow> nat" where
  "word_sum (x # y # r) = unat x * 256 + unat y + word_sum r"
| "word_sum [x] = unat x * 256"
| "word_sum [] = 0"

lemma word_sum_append: "even (length a) \<Longrightarrow> word_sum (a @ b) = word_sum a + word_sum b"
  by (induction a rule: word_sum.induct) auto

lemma word_sum_bound: "word_sum b \<le> 65535 * ((length b + 1) div 2)"
proof (induction b rule: word_sum.induct)
  case (1 x y r)
  then show ?case using unat_lt [of x] unat_lt [of y] by simp
next
  case (2 x)
  then show ?case using unat_lt [of x] by simp
qed simp

lemma unat_be_pair: "unat (from_be [x, y] :: u16) = unat x * 256 + unat y"
  using unat_lt [of x] unat_lt [of y] by (simp add: from_be_def unat_of_nat del: of_nat_add of_nat_mult)

lemma word_sum_be16: "word_sum (be16 c @ r) = unat c + word_sum r"
proof -
  obtain x y where b: "be16 c = [x, y]" using length_le(4) [of c] by (auto simp: length_Suc_conv numeral_eq_Suc simp del: length_le)
  then have "unat c = unat x * 256 + unat y" using from_le_to_le(4) [of c] unat_be_pair [of x y] by metis
  then show ?thesis using b by simp
qed

lemma checksum_sum_eq: "unat acc + word_sum b < 2 ^ 32 \<Longrightarrow> \<exists>r. checksum_sum b acc = Some r \<and> unat r = unat acc + word_sum b"
proof (induction b acc rule: checksum_sum.induct)
  case (1 x y r acc)
  let ?w = "ucast (from_be [x, y] :: u16) :: u32"
  have w: "unat ?w = unat x * 256 + unat y"
    using unat_lt [of x] unat_lt [of y] by (simp add: unsigned_ucast_eq unat_be_pair take_bit_nat_eq_self)
  then have "cadd acc ?w = Some (acc + ?w)" and u: "unat (acc + ?w) = unat acc + (unat x * 256 + unat y)"
    using 1(2) by (simp_all add: cadd_def unat_word_ariths)
  then show ?case using 1 by (simp add: add.assoc)
next
  case (2 x acc)
  have "unat (push_bit 8 (ucast x) :: u32) = unat x * 256"
    using unat_lt [of x] by (simp add: push_bit_eq_mult unat_word_ariths unsigned_ucast_eq take_bit_nat_eq_self)
  then show ?case using 2 by (simp add: cadd_def unat_word_ariths)
qed simp

definition folded :: "nat \<Rightarrow> nat" where
  "folded n = (if n = 0 then 0 else if n mod 65535 = 0 then 65535 else n mod 65535)"

lemma folded_step: "folded (n mod 65536 + n div 65536) = folded n"
proof -
  have n: "n = 65535 * (n div 65536) + (n mod 65536 + n div 65536)" using div_mult_mod_eq [of n 65536] by linarith
  then have "n mod 65535 = (n mod 65536 + n div 65536) mod 65535" by (metis mod_mult_self4)
  moreover have "n = 0 \<longleftrightarrow> n mod 65536 + n div 65536 = 0" using n by linarith
  ultimately show ?thesis by (simp add: folded_def)
qed

lemma folded_small: "n < 65536 \<Longrightarrow> folded n = n"
  by (cases "n = 65535") (auto simp: folded_def)

lemma unat_fold_carry: "unat (fold_carry acc) = folded (unat acc)"
proof (induction acc rule: fold_carry.induct)
  case (1 acc)
  then show ?case
    by (subst fold_carry.simps) (auto simp: drop_16_eq_0_iff folded_small unat_fold_step folded_step)
qed

lemma folded_le: "folded n \<le> 65535"
  using mod_less_divisor [of 65535 n] by (simp add: folded_def)

lemma unat_NOT_16: "unat (NOT c) = 65535 - unat c"
  for c :: u16
proof -
  have "NOT c = - 1 - c" by (simp add: not_eq_complement)
  moreover have "unat (- 1 :: u16) = 65535" by (simp add: unsigned_minus_1_eq_mask mask_eq_exp_minus_1)
  ultimately show ?thesis using unat_sub [of c "- 1"] by simp
qed

lemma calculate_checksum_eq:
  assumes "word_sum b < 2 ^ 32"
  shows "\<exists>c. calculate_checksum b = Ok c \<and> unat c = 65535 - folded (word_sum b)"
proof -
  obtain r where r: "checksum_sum b 0 = Some r" "unat r = word_sum b" using checksum_sum_eq [of 0 b] assms by auto
  have "unat (ucast (fold_carry r) :: u16) = folded (word_sum b)"
    using folded_le [of "word_sum b"] r(2) by (simp add: unat_fold_carry unsigned_ucast_eq take_bit_nat_eq_self)
  then have "unat (NOT (ucast (fold_carry r)) :: u16) = 65535 - folded (word_sum b)" by (simp add: unat_NOT_16)
  then show ?thesis using r by (simp add: calculate_checksum_def)
qed

text \<open>RFC 1071: with the checksum of the data stored in a zero field at an even offset, the data sums to zero.\<close>

lemma checksum_verifies:
  assumes "even (length a)" and "word_sum (a @ [0, 0] @ b) + 65535 < 2 ^ 32" and "calculate_checksum (a @ [0, 0] @ b) = Ok c"
  shows "calculate_checksum (a @ be16 c @ b) = Ok 0"
proof -
  let ?n = "word_sum a + word_sum b"
  have n: "word_sum (a @ [0, 0] @ b) = ?n" using assms(1) by (simp add: word_sum_append)
  then have c: "unat c = 65535 - folded ?n" using calculate_checksum_eq [of "a @ [0, 0] @ b"] assms(2,3) by auto
  have s: "word_sum (a @ be16 c @ b) = ?n + unat c" using assms(1) by (simp add: word_sum_append word_sum_be16)
  have "folded (?n + unat c) = 65535"
  proof -
    have "(?n + (65535 - folded ?n)) mod 65535 = 0"
    proof (cases "?n mod 65535 = 0")
      case True
      then show ?thesis by (auto simp: folded_def)
    next
      case False
      then have "folded ?n = ?n mod 65535" by (auto simp: folded_def)
      moreover have "?n mod 65535 \<le> 65535" by (simp add: less_imp_le)
      ultimately show ?thesis by (metis add_diff_cancel_left' le_add_diff_inverse mod_add_left_eq mod_self)
    qed
    moreover have "?n + unat c \<noteq> 0" using c by (auto simp: folded_def)
    ultimately show ?thesis using c by (simp add: folded_def)
  qed
  moreover have "word_sum (a @ be16 c @ b) < 2 ^ 32" using s c n assms(2) by linarith
  ultimately show ?thesis using calculate_checksum_eq [of "a @ be16 c @ b"] s by (auto simp: unat_eq_zero)
qed

end
