(* ===== verification/Net_Packets.thy ===== *)
theory Net_Packets
  imports Net_Base
begin

text \<open>
  The packets the stack builds and the handlers that answer at once: ARP (\<^verbatim>\<open>netstack/arp.rs\<close>), ICMP (\<^verbatim>\<open>icmp.rs\<close>), the receiving side of UDP (\<^verbatim>\<open>udp.rs\<close>), IPv6 with ICMPv6 and
  neighbour discovery (\<^verbatim>\<open>ipv6.rs\<close>), and the segments of TCP (\<^verbatim>\<open>tcp.rs\<close>).
\<close>

section \<open>Constants\<close>

definition ETHERTYPE_IPV4 :: u16 where "ETHERTYPE_IPV4 = 0x0800"
definition ETHERTYPE_ARP :: u16 where "ETHERTYPE_ARP = 0x0806"
definition ETHERTYPE_IPV6 :: u16 where "ETHERTYPE_IPV6 = 0x86DD"
definition ARP_OP_REQUEST :: u16 where "ARP_OP_REQUEST = 1"
definition ARP_OP_REPLY :: u16 where "ARP_OP_REPLY = 2"
definition ARP_HTYPE_ETHERNET :: u16 where "ARP_HTYPE_ETHERNET = 1"
definition IP_PROTO_ICMP :: u8 where "IP_PROTO_ICMP = 1"
definition IP_PROTO_TCP :: u8 where "IP_PROTO_TCP = 6"
definition IP_PROTO_UDP :: u8 where "IP_PROTO_UDP = 17"
definition IP_PROTO_ICMPV6 :: u8 where "IP_PROTO_ICMPV6 = 58"
definition ICMP_ECHO_REPLY :: u8 where "ICMP_ECHO_REPLY = 0"
definition ICMP_ECHO_REQUEST :: u8 where "ICMP_ECHO_REQUEST = 8"
definition MY_IPV6 :: bytes where "MY_IPV6 = [0xfe, 0xc0, 0, 0, 0, 0, 0, 0, 0, 0, 0, 0, 0, 0, 0, 0x15]"

lemmas net_consts = ETHERTYPE_IPV4_def ETHERTYPE_ARP_def ETHERTYPE_IPV6_def ARP_OP_REQUEST_def ARP_OP_REPLY_def ARP_HTYPE_ETHERNET_def
  IP_PROTO_ICMP_def IP_PROTO_TCP_def IP_PROTO_UDP_def IP_PROTO_ICMPV6_def ICMP_ECHO_REPLY_def ICMP_ECHO_REQUEST_def

text \<open>A handler answers with the packet it sends to the machine itself, if it sends one; a failure to send is only logged.\<close>

fun logged :: "(string, unit) res \<Rightarrow> (string, bytes option) res" where
  "logged Panic = Panic"
| "logged _ = Ok None"

section \<open>ARP\<close>

definition arp_frame :: "bytes \<Rightarrow> u16 \<Rightarrow> bytes \<Rightarrow> bytes \<Rightarrow> NetState \<Rightarrow> bytes" where
  "arp_frame dst op target_mac target_ip s =
     ethernet_bytes \<lparr>dst_mac = dst, src_mac = my_mac s, ethertype = be16 ETHERTYPE_ARP\<rparr> @
     arp_bytes \<lparr>htype = be16 ARP_HTYPE_ETHERNET, ptype = be16 ETHERTYPE_IPV4, hlen = 6, plen = 4, oper = be16 op, sha = my_mac s, spa = get_my_ip s,
                tha = target_mac, tpa = target_ip\<rparr>"

definition send_arp_reply :: "ArpPacket \<Rightarrow> NetState \<Rightarrow> (string, unit) res \<times> NetState" where
  "send_arp_reply request s = send_frame (arp_frame (sha request) ARP_OP_REPLY (sha request) (spa request) s) s"

definition send_arp_request :: "bytes \<Rightarrow> NetState \<Rightarrow> (string, unit) res \<times> NetState" where
  "send_arp_request target_ip s = send_frame (arp_frame BROADCAST_MAC ARP_OP_REQUEST (replicate 6 0) target_ip s) s"

definition handle_arp :: "bytes \<Rightarrow> NetState \<Rightarrow> (string, bytes option) res \<times> NetState" where
  "handle_arp payload s =
     (if length payload < 28 then (Ok None, s)
      else
        let arp = arp_from_bytes payload; s = arp_update (spa arp) (sha arp) s in
        if oper_u16 arp = ARP_OP_REQUEST \<and> tpa arp = get_my_ip s
        then (case send_arp_reply arp s of (r, s) \<Rightarrow> (logged r, s))
        else (Ok None, s))"

section \<open>IPv4 headers and ICMP\<close>

definition ipv4_header :: "bytes \<Rightarrow> u8 \<Rightarrow> nat \<Rightarrow> bytes \<Rightarrow> bytes \<Rightarrow> Ipv4Header" where
  "ipv4_header frag proto len src dst =
     \<lparr>version_ihl = 0x45, tos = 0, total_length = be16 (of_nat len), identification = [0, 0], flags_fragment = frag, ttl = 64, protocol = proto,
      ip_checksum = [0, 0], src_ip = src, dst_ip = dst\<rparr>"

definition ipv4_checked :: "Ipv4Header \<Rightarrow> (string, bytes) res" where
  "ipv4_checked h = map_res id (\<lambda>c. ipv4_bytes (h\<lparr>ip_checksum := be16 c\<rparr>)) (calculate_checksum (ipv4_bytes h))"

definition known_mac :: "bytes \<Rightarrow> NetState \<Rightarrow> bytes" where
  "known_mac ip s = (case arp_lookup ip s of Some m \<Rightarrow> m | None \<Rightarrow> BROADCAST_MAC)"

definition icmp_echo_reply :: "Ipv4Header \<Rightarrow> bytes \<Rightarrow> NetState \<Rightarrow> (string, bytes) res" where
  "icmp_echo_reply request icmp_data s =
     (let eth = \<lparr>dst_mac = known_mac (src_ip request) s, src_mac = my_mac s, ethertype = be16 ETHERTYPE_IPV4\<rparr>;
          ip = ipv4_header [0x40, 0x00] IP_PROTO_ICMP (20 + length icmp_data) (get_my_ip s) (src_ip request);
          reply = (icmp_from_bytes icmp_data)\<lparr>icmp_type := ICMP_ECHO_REPLY, icmp_code := 0, icmp_checksum := [0, 0]\<rparr>;
          body = drop 8 icmp_data
      in res_bind (ipv4_checked ip) (\<lambda>ip.
         res_bind (calculate_checksum (icmp_bytes reply @ body)) (\<lambda>c.
           Ok (ethernet_bytes eth @ ip @ icmp_bytes (reply\<lparr>icmp_checksum := be16 c\<rparr>) @ body))))"

definition send_icmp_echo_reply :: "Ipv4Header \<Rightarrow> bytes \<Rightarrow> NetState \<Rightarrow> (string, unit) res \<times> NetState" where
  "send_icmp_echo_reply request icmp_data s = ok_then (icmp_echo_reply request icmp_data s) s (\<lambda>packet. send_frame packet s)"

definition handle_icmp :: "Ipv4Header \<Rightarrow> bytes \<Rightarrow> NetState \<Rightarrow> (string, bytes option) res \<times> NetState" where
  "handle_icmp ip payload s =
     (if length payload < 8 then (Ok None, s)
      else if icmp_type (icmp_from_bytes payload) = ICMP_ECHO_REQUEST
      then (case send_icmp_echo_reply ip payload s of (r, s) \<Rightarrow> (logged r, s))
      else (Ok None, s))"

section \<open>UDP\<close>

definition calculate_udp_checksum :: "bytes \<Rightarrow> bytes \<Rightarrow> UdpHeader \<Rightarrow> bytes \<Rightarrow> (string, u16) res" where
  "calculate_udp_checksum src dst h payload =
     (let udp_len = 8 + length payload in
      map_res id (\<lambda>c. if c = 0 then 0xFFFF else c)
        (calculate_checksum (src @ dst @ [0, IP_PROTO_UDP] @ be16 (of_nat udp_len) @ udp_bytes h @ payload)))"

definition handle_udp :: "Ipv4Header \<Rightarrow> bytes \<Rightarrow> NetState \<Rightarrow> NetState" where
  "handle_udp ip payload s =
     (if length payload < 8 then s
      else
        let h = udp_from_bytes payload; body = drop 8 payload; src_port = from_be (udp_src_port h); dst_port = from_be (udp_dst_port h) in
        case position (\<lambda>u. us_port u = dst_port) (udp_sockets s) of
          Some i \<Rightarrow>
            let u = udp_sockets s ! i in s\<lparr>udp_sockets := (udp_sockets s)[i := u\<lparr>recv_queue := recv_queue u @ [(src_ip ip, src_port, body)]\<rparr>]\<rparr>
        | None \<Rightarrow> if src_port = 53 then s\<lparr>udp_response := Some (dst_port, body)\<rparr> else s)"

definition udp_packet :: "bytes \<Rightarrow> bytes \<Rightarrow> u16 \<Rightarrow> u16 \<Rightarrow> bytes \<Rightarrow> NetState \<Rightarrow> (string, bytes) res" where
  "udp_packet mac_to dst dport sport payload s =
     (let udp_length = 8 + length payload;
          h = \<lparr>udp_src_port = be16 sport, udp_dst_port = be16 dport, udp_length = be16 (of_nat udp_length), udp_checksum = [0, 0]\<rparr>;
          eth = \<lparr>dst_mac = mac_to, src_mac = my_mac s, ethertype = be16 ETHERTYPE_IPV4\<rparr>
      in res_bind (calculate_udp_checksum (get_my_ip s) dst h payload) (\<lambda>c.
         res_bind (ipv4_checked (ipv4_header [0x40, 0x00] IP_PROTO_UDP (20 + udp_length) (get_my_ip s) dst)) (\<lambda>ip.
           Ok (ethernet_bytes eth @ ip @ udp_bytes (h\<lparr>udp_checksum := be16 c\<rparr>) @ payload))))"

section \<open>IPv6\<close>

record Ipv6Header =
  version_tc_fl :: bytes
  payload_length :: bytes
  next_header :: u8
  hop_limit :: u8
  src_ip6 :: bytes
  dst_ip6 :: bytes

definition ipv6_from_bytes :: "bytes \<Rightarrow> Ipv6Header" where
  "ipv6_from_bytes b =
     \<lparr>version_tc_fl = field b 0 4, payload_length = field b 4 2, next_header = b ! 6, hop_limit = b ! 7, src_ip6 = field b 8 16, dst_ip6 = field b 24 16\<rparr>"

definition ipv6_bytes :: "Ipv6Header \<Rightarrow> bytes" where
  "ipv6_bytes h = version_tc_fl h @ payload_length h @ [next_header h, hop_limit h] @ src_ip6 h @ dst_ip6 h"

definition is_solicited_node_multicast_for :: "bytes \<Rightarrow> bytes \<Rightarrow> bool" where
  "is_solicited_node_multicast_for multicast target \<longleftrightarrow>
     take 13 multicast = [0xff, 0x02, 0, 0, 0, 0, 0, 0, 0, 0, 0, 0x01, 0xff] \<and>
     multicast ! 13 = target ! 13 \<and> multicast ! 14 = target ! 14 \<and> multicast ! 15 = target ! 15"

definition calculate_icmpv6_checksum :: "bytes \<Rightarrow> bytes \<Rightarrow> bytes \<Rightarrow> (string, u16) res" where
  "calculate_icmpv6_checksum src dst data =
     calculate_checksum (src @ dst @ be32 (of_nat (length data)) @ [0, 0, 0, IP_PROTO_ICMPV6] @ data)"

definition send_ipv6_packet :: "bytes \<Rightarrow> u8 \<Rightarrow> bytes \<Rightarrow> NetState \<Rightarrow> (string, unit) res \<times> NetState" where
  "send_ipv6_packet dst nh payload s =
     send_frame
       (ethernet_bytes \<lparr>dst_mac = BROADCAST_MAC, src_mac = my_mac s, ethertype = be16 ETHERTYPE_IPV6\<rparr> @
        ipv6_bytes \<lparr>version_tc_fl = [0x60, 0, 0, 0], payload_length = be16 (of_nat (length payload)), next_header = nh, hop_limit = 64,
                    src_ip6 = MY_IPV6, dst_ip6 = dst\<rparr> @ payload) s"

text \<open>An ICMPv6 message is built with a zero checksum, which is then overwritten byte by byte.\<close>

definition send_icmpv6 :: "bytes \<Rightarrow> bytes \<Rightarrow> NetState \<Rightarrow> (string, unit) res \<times> NetState" where
  "send_icmpv6 dst msg s =
     ok_then (calculate_icmpv6_checksum MY_IPV6 dst msg) s (\<lambda>c.
       send_ipv6_packet dst IP_PROTO_ICMPV6 (msg[2 := ucast (drop_bit 8 c), 3 := ucast (c AND 0xFF)]) s)"

definition send_icmpv6_echo_reply :: "Ipv6Header \<Rightarrow> bytes \<Rightarrow> NetState \<Rightarrow> (string, unit) res \<times> NetState" where
  "send_icmpv6_echo_reply request data s =
     (if length data < 8 then (Ok (), s) else send_icmpv6 (src_ip6 request) ([129, 0, 0, 0] @ drop 4 data) s)"

definition send_ndp_neighbor_advertisement :: "bytes \<Rightarrow> bytes \<Rightarrow> NetState \<Rightarrow> (string, unit) res \<times> NetState" where
  "send_ndp_neighbor_advertisement target dst s =
     send_icmpv6 dst ([136, 0, 0, 0] @ [0x60, 0, 0, 0] @ target @ [2, 1] @ my_mac s) s"

definition handle_ndp_neighbor_solicitation :: "Ipv6Header \<Rightarrow> bytes \<Rightarrow> NetState \<Rightarrow> (string, unit) res \<times> NetState" where
  "handle_ndp_neighbor_solicitation ip payload s =
     (if length payload < 24 then (Ok (), s)
      else let target = field payload 8 16 in
        if target \<noteq> MY_IPV6 then (Ok (), s) else send_ndp_neighbor_advertisement target (src_ip6 ip) s)"

definition handle_icmpv6 :: "Ipv6Header \<Rightarrow> bytes \<Rightarrow> NetState \<Rightarrow> (string, unit) res \<times> NetState" where
  "handle_icmpv6 ip payload s =
     (if length payload < 4 then (Ok (), s)
      else if payload ! 0 = 128 then send_icmpv6_echo_reply ip payload s
      else if payload ! 0 = 129 then
        (if 8 \<le> length payload
         then (Ok (), s\<lparr>icmpv6_echo_reply := Some (from_be (field payload 4 2), from_be (field payload 6 2), src_ip6 ip)\<rparr>)
         else (Ok (), s))
      else if payload ! 0 = 135 then handle_ndp_neighbor_solicitation ip payload s
      else (Ok (), s))"

definition handle_ipv6 :: "bytes \<Rightarrow> NetState \<Rightarrow> (string, bytes option) res \<times> NetState" where
  "handle_ipv6 payload s =
     (if length payload < 40 then (Ok None, s)
      else let ip = ipv6_from_bytes payload in
        if drop_bit 4 (version_tc_fl ip ! 0) \<noteq> 6 then (Ok None, s)
        else if dst_ip6 ip \<noteq> MY_IPV6 \<and> \<not> is_solicited_node_multicast_for (dst_ip6 ip) MY_IPV6 \<and>
                dst_ip6 ip \<noteq> [0xff, 0x02, 0, 0, 0, 0, 0, 0, 0, 0, 0, 0, 0, 0, 0, 0x01] then (Ok None, s)
        else if next_header ip = IP_PROTO_ICMPV6 then (case handle_icmpv6 ip (drop 40 payload) s of (r, s) \<Rightarrow> (logged r, s))
        else (Ok None, s))"

definition send_icmpv6_echo_request :: "bytes \<Rightarrow> u16 \<Rightarrow> u16 \<Rightarrow> NetState \<Rightarrow> (string, unit) res \<times> NetState" where
  "send_icmpv6_echo_request dst i sq s =
     (let s = s\<lparr>icmpv6_echo_reply := None\<rparr> in
      case send_icmpv6 dst ([128, 0, 0, 0] @ be16 i @ be16 sq @ [0xDE, 0xAD, 0xBE, 0xEF, 0xCA, 0xFE, 0xBA, 0xBE]) s of
        (Panic, s) \<Rightarrow> (Panic, s) | (_, s) \<Rightarrow> (Ok (), s))"

section \<open>TCP segments\<close>

definition pseudo_header :: "bytes \<Rightarrow> bytes \<Rightarrow> u8 \<Rightarrow> nat \<Rightarrow> bytes" where
  "pseudo_header src dst proto len = src @ dst @ [0, proto] @ be16 (of_nat len)"

definition calculate_tcp_checksum :: "bytes \<Rightarrow> bytes \<Rightarrow> TcpHeader \<Rightarrow> bytes \<Rightarrow> (string, u16) res" where
  "calculate_tcp_checksum src dst h payload =
     (let tcp_len = 20 + length payload in calculate_checksum (pseudo_header src dst IP_PROTO_TCP tcp_len @ tcp_bytes h @ payload))"

definition tcp_packet :: "bytes \<Rightarrow> u16 \<Rightarrow> u16 \<Rightarrow> u32 \<Rightarrow> u32 \<Rightarrow> u8 \<Rightarrow> bytes \<Rightarrow> NetState \<Rightarrow> (string, bytes) res" where
  "tcp_packet dst dport sport sq ak fl payload s =
     (let eth = \<lparr>dst_mac = known_mac dst s, src_mac = my_mac s, ethertype = be16 ETHERTYPE_IPV4\<rparr>;
          h = \<lparr>tcp_src_port = be16 sport, tcp_dst_port = be16 dport, tcp_seq = be32 sq, tcp_ack = be32 ak, data_offset_reserved = 0x50, tcp_flags = fl,
               window = be16 65535, tcp_checksum = [0, 0], urgent_ptr = [0, 0]\<rparr>;
          tcp_length = 20 + length payload
      in res_bind (ipv4_checked (ipv4_header [0x40, 0x00] IP_PROTO_TCP (20 + tcp_length) (get_my_ip s) dst)) (\<lambda>ip.
         res_bind (calculate_tcp_checksum (get_my_ip s) dst h payload) (\<lambda>c.
           Ok (ethernet_bytes eth @ ip @ tcp_bytes (h\<lparr>tcp_checksum := be16 c\<rparr>) @ payload))))"

end
