(* ===== verification/Net_Tcp.thy ===== *)
theory Net_Tcp
  imports Net_Packets
begin

text \<open>
  \<^verbatim>\<open>handle_tcp\<close> and \<^verbatim>\<open>send_tcp_packet_internal\<close> of \<^verbatim>\<open>netstack/tcp.rs\<close>, \<^verbatim>\<open>handle_ipv4\<close> and \<^verbatim>\<open>handle_packet\<close>. A segment for the machine itself is handled at once, inside the call
  that sends it: handling one packet is a step that may leave another packet to handle.
\<close>

section \<open>The connection state machine\<close>

type_synonym reply = "bytes \<times> u16 \<times> u16 \<times> u32 \<times> u32 \<times> u8"

definition conn_reply :: "TcpConnection \<Rightarrow> u8 \<Rightarrow> reply" where
  "conn_reply c fl = (remote_ip c, remote_port c, local_port c, seq_num c, ack_num c, fl)"

definition TIME_WAIT_TICKS :: u64 where "TIME_WAIT_TICKS = 182"

text \<open>What a segment does to the connection it belongs to: the new connection, a reply to send and an entry for the accept queue.\<close>

definition conn_input :: "u64 \<Rightarrow> TcpHeader \<Rightarrow> bytes \<Rightarrow> TcpConnection \<Rightarrow> (string, TcpConnection \<times> reply option \<times> (u32 \<times> u16) option) res" where
  "conn_input now h body c =
     (let sq = from_be (tcp_seq h); ak = from_be (tcp_ack h);
          finish = (\<lambda>c. res_bind (or_panic (cadd sq 1)) (\<lambda>a. res_bind (or_panic (cadd now TIME_WAIT_TICKS)) (\<lambda>d.
            let c = c\<lparr>ack_num := a, tc_state := TimeWait, time_wait_deadline := Some d\<rparr> in Ok (c, Some (conn_reply c TCP_FLAG_ACK), None))))
      in case tc_state c of
        SynSent \<Rightarrow>
          if has_flag h TCP_FLAG_SYN \<and> has_flag h TCP_FLAG_ACK then
            res_bind (or_panic (cadd (seq_num c) 1)) (\<lambda>n.
              if ak = n then res_bind (or_panic (cadd sq 1)) (\<lambda>a.
                let c = c\<lparr>seq_num := ak, ack_num := a, tc_state := Established, unacked_packet := None\<rparr> in
                Ok (c, Some (conn_reply c TCP_FLAG_ACK), None))
              else Ok (c, None, None))
          else if has_flag h TCP_FLAG_RST then Ok (c\<lparr>tc_state := Closed\<rparr>, None, None)
          else Ok (c, None, None)
      | SynReceived \<Rightarrow>
          if has_flag h TCP_FLAG_ACK then
            res_bind (or_panic (cadd (seq_num c) 1)) (\<lambda>n.
              if ak = n
              then Ok (c\<lparr>seq_num := ak, tc_state := Established, unacked_packet := None\<rparr>, None, Some (tc_id c, local_port c))
              else Ok (c, None, None))
          else Ok (c, None, None)
      | Established \<Rightarrow>
          (let c = (if has_flag h TCP_FLAG_ACK then c\<lparr>unacked_packet := None\<rparr> else c) in
           if has_flag h TCP_FLAG_FIN then
             res_bind (or_panic (cadd sq 1)) (\<lambda>a.
               let c = c\<lparr>ack_num := a, tc_state := CloseWait\<rparr> in Ok (c, Some (conn_reply c TCP_FLAG_ACK), None))
           else if body \<noteq> [] then
             res_bind (or_panic (cadd sq (of_nat (length body)))) (\<lambda>a.
               let c = c\<lparr>recv_buffer := recv_buffer c @ body, ack_num := a\<rparr> in Ok (c, Some (conn_reply c TCP_FLAG_ACK), None))
           else Ok (c, None, None))
      | FinWait1 \<Rightarrow>
          if has_flag h TCP_FLAG_ACK then
            (let c = c\<lparr>unacked_packet := None\<rparr> in
             if has_flag h TCP_FLAG_FIN then finish c else Ok (c\<lparr>tc_state := FinWait2\<rparr>, None, None))
          else Ok (c, None, None)
      | FinWait2 \<Rightarrow> if has_flag h TCP_FLAG_FIN then finish c else Ok (c, None, None)
      | LastAck \<Rightarrow>
          if has_flag h TCP_FLAG_ACK then Ok (c\<lparr>tc_state := Closed, unacked_packet := None\<rparr>, None, None) else Ok (c, None, None)
      | _ \<Rightarrow> Ok (c, None, None))"

definition unacked :: "u32 \<Rightarrow> u32 \<Rightarrow> u8 \<Rightarrow> bytes \<Rightarrow> u64 \<Rightarrow> (string, UnackedPacket) res" where
  "unacked sq ak fl payload now =
     res_bind (or_panic (cadd now TCP_INITIAL_RTO_TICKS)) (\<lambda>d.
       Ok \<lparr>up_seq = sq, up_ack = ak, up_flags = fl, up_payload = payload, retransmit_deadline = d, retransmit_count = 0\<rparr>)"

text \<open>A SYN for a listening port creates a connection.\<close>

definition accept_syn :: "bytes \<Rightarrow> u16 \<Rightarrow> u16 \<Rightarrow> u32 \<Rightarrow> NetState \<Rightarrow> (string, reply option) res \<times> NetState" where
  "accept_syn sip sport dport sq s =
     (case alloc_conn_id s of (i, s) \<Rightarrow> case new_connection i dport sip sport s of (c, s) \<Rightarrow>
       let c = c\<lparr>tc_state := SynReceived\<rparr> in
       ok_then (or_panic (cadd sq 1)) s (\<lambda>a.
         let c = c\<lparr>ack_num := a\<rparr> in
         ok_then (unacked (seq_num c) (ack_num c) (TCP_FLAG_SYN OR TCP_FLAG_ACK) [] (tick s)) s (\<lambda>u.
           (Ok (Some (conn_reply c (TCP_FLAG_SYN OR TCP_FLAG_ACK))),
            s\<lparr>tcp_connections := tcp_connections s @ [c\<lparr>unacked_packet := Some u\<rparr>]\<rparr>))))"

definition tcp_input :: "bytes \<Rightarrow> TcpHeader \<Rightarrow> bytes \<Rightarrow> NetState \<Rightarrow> (string, reply option) res \<times> NetState" where
  "tcp_input sip h body s =
     (let sport = from_be (tcp_src_port h); dport = from_be (tcp_dst_port h) in
      case find_conn_index_by_tuple s sip sport dport of
        None \<Rightarrow>
          if dport \<in> set (tcp_listen_ports s) \<and> has_flag h TCP_FLAG_SYN then accept_syn sip sport dport (from_be (tcp_seq h)) s else (Ok None, s)
      | Some idx \<Rightarrow>
          ok_then (conn_input (tick s) h body (tcp_connections s ! idx)) s (\<lambda>(c, r, q).
            (Ok r, s\<lparr>tcp_connections := (tcp_connections s)[idx := c],
                     tcp_pending_accept := tcp_pending_accept s @ (case q of Some e \<Rightarrow> [e] | None \<Rightarrow> [])\<rparr>)))"

section \<open>Sending and handling packets\<close>

text \<open>The packet is handed back when it is for the machine itself.\<close>

definition emit_tcp :: "bytes \<Rightarrow> u16 \<Rightarrow> u16 \<Rightarrow> u32 \<Rightarrow> u32 \<Rightarrow> u8 \<Rightarrow> bytes \<Rightarrow> NetState \<Rightarrow> (string, bytes option) res \<times> NetState" where
  "emit_tcp dst dport sport sq ak fl payload s =
     ok_then (tcp_packet dst dport sport sq ak fl payload s) s (\<lambda>packet.
       if is_local_ip dst s then (Ok (Some packet), s)
       else case send_frame packet s of (r, s) \<Rightarrow> (map_res id (\<lambda>_. None) (map_err (\<lambda>_. ''send failed'') r), s))"

fun not_failed :: "(string, bytes option) res \<Rightarrow> (string, bytes option) res" where
  "not_failed (Err _) = Ok None"
| "not_failed r = r"

definition answer_segment :: "bytes \<Rightarrow> TcpHeader \<Rightarrow> bytes \<Rightarrow> NetState \<Rightarrow> (string, bytes option) res \<times> NetState" where
  "answer_segment sip h body s =
     (case tcp_input sip h body s of (r, s) \<Rightarrow>
        ok_then r s (\<lambda>p. case p of
            None \<Rightarrow> (Ok None, s)
          | Some (dst, dport, sport, sq, ak, fl) \<Rightarrow> (case emit_tcp dst dport sport sq ak fl [] s of (r, s) \<Rightarrow> (not_failed r, s))))"

definition handle_tcp :: "Ipv4Header \<Rightarrow> bytes \<Rightarrow> NetState \<Rightarrow> (string, bytes option) res \<times> NetState" where
  "handle_tcp ip payload s =
     (if length payload < 20 then (Ok None, s)
      else
        let h = tcp_from_bytes payload; header_len = data_offset h in
        if length payload < header_len then (Ok None, s) else answer_segment (src_ip ip) h (drop header_len payload) s)"

definition learn :: "bytes \<Rightarrow> bytes \<Rightarrow> NetState \<Rightarrow> NetState" where
  "learn ip m s = (if m \<noteq> BROADCAST_MAC then arp_update ip m s else s)"

definition handle_ipv4 :: "EthernetHeader \<Rightarrow> bytes \<Rightarrow> NetState \<Rightarrow> (string, bytes option) res \<times> NetState" where
  "handle_ipv4 eth payload s =
     (if length payload < 20 then (Ok None, s)
      else
        let ip = ipv4_from_bytes payload; header_len = header_length ip in
        if length payload < header_len then (Ok None, s)
        else if \<not> is_local_ip (dst_ip ip) s then (Ok None, s)
        else
          let s = learn (src_ip ip) (src_mac eth) s; body = drop header_len payload in
          if protocol ip = IP_PROTO_ICMP then handle_icmp ip body s
          else if protocol ip = IP_PROTO_TCP then handle_tcp ip body s
          else if protocol ip = IP_PROTO_UDP then (Ok None, handle_udp ip body s)
          else (Ok None, s))"

definition packet_step :: "bytes \<Rightarrow> NetState \<Rightarrow> (string, bytes option) res \<times> NetState" where
  "packet_step data s =
     (case ethernet_from_bytes data of
        None \<Rightarrow> (Ok None, s)
      | Some eth \<Rightarrow>
          let payload = drop 14 data; et = ethertype_u16 eth in
          if et = ETHERTYPE_ARP then handle_arp payload s
          else if et = ETHERTYPE_IPV4 then handle_ipv4 eth payload s
          else if et = ETHERTYPE_IPV6 then handle_ipv6 payload s
          else (Ok None, s))"

partial_function (option) handle_packet :: "bytes \<Rightarrow> NetState \<Rightarrow> ((string, unit) res \<times> NetState) option" where
  "handle_packet data s =
     (case packet_step data s of (r, s) \<Rightarrow>
       (case r of
          Panic \<Rightarrow> Some (Panic, s)
        | Err e \<Rightarrow> Some (Ok (), s)
        | Ok p \<Rightarrow> (case p of None \<Rightarrow> Some (Ok (), s) | Some data \<Rightarrow> handle_packet data s)))"

definition send_tcp_packet_internal :: "bytes \<Rightarrow> u16 \<Rightarrow> u16 \<Rightarrow> u32 \<Rightarrow> u32 \<Rightarrow> u8 \<Rightarrow> bytes \<Rightarrow> NetState \<Rightarrow> ((string, unit) res \<times> NetState) option" where
  "send_tcp_packet_internal dst dport sport sq ak fl payload s =
     (case emit_tcp dst dport sport sq ak fl payload s of
        (Ok (Some packet), s) \<Rightarrow> handle_packet packet s
      | (Ok None, s) \<Rightarrow> Some (Ok (), s)
      | (Err e, s) \<Rightarrow> Some (Err e, s)
      | (Panic, s) \<Rightarrow> Some (Panic, s))"

end
