(* ===== verification/Net_Delivery.thy ===== *)
theory Net_Delivery
  imports Net_Tcp
begin

text \<open>
  What the packets of the stack carry: the bytes of a TCP segment parse back to the values it was built from and both checksums verify. On this rest the theorems on handling:
  every frame is handled in finitely many steps, and two machines that exchange their frames establish a connection and transfer data.
\<close>

section \<open>Segments\<close>

definition segment :: "u16 \<Rightarrow> u16 \<Rightarrow> u32 \<Rightarrow> u32 \<Rightarrow> u8 \<Rightarrow> u16 \<Rightarrow> TcpHeader" where
  "segment dport sport sq ak fl c =
     \<lparr>tcp_src_port = be16 sport, tcp_dst_port = be16 dport, tcp_seq = be32 sq, tcp_ack = be32 ak, data_offset_reserved = 0x50, tcp_flags = fl,
      window = be16 65535, tcp_checksum = be16 c, urgent_ptr = [0, 0]\<rparr>"

lemma be16_0: "be16 0 = [0, 0]"
  by (simp add: be16_def numeral_2_eq_2)

lemma length_tcp_bytes: "length (tcp_bytes (segment dport sport sq ak fl c)) = 20"
  by (simp add: tcp_bytes_def segment_def)

lemma field_append1: "length a = off \<Longrightarrow> length b = n \<Longrightarrow> field (a @ b @ r) off n = b"
  by (simp add: field_def)

lemma tcp_from_bytes_segment: "tcp_from_bytes (tcp_bytes (segment dport sport sq ak fl c) @ r) = segment dport sport sq ak fl c"
  by (simp add: tcp_from_bytes_def tcp_bytes_def segment_def field_def nth_append)

definition ip_checked :: "Ipv4Header \<Rightarrow> u16 \<Rightarrow> Ipv4Header" where
  "ip_checked h c = h\<lparr>ip_checksum := be16 c\<rparr>"

lemma length_ipv4_bytes:
  "length frag = 2 \<Longrightarrow> length src = 4 \<Longrightarrow> length dst = 4 \<Longrightarrow> length (ipv4_bytes (ip_checked (ipv4_header frag proto n src dst) c)) = 20"
  by (simp add: ipv4_bytes_def ip_checked_def ipv4_header_def)

lemma ipv4_from_bytes_checked:
  "length frag = 2 \<Longrightarrow> length src = 4 \<Longrightarrow> length dst = 4 \<Longrightarrow>
   ipv4_from_bytes (ipv4_bytes (ip_checked (ipv4_header frag proto n src dst) c) @ r) = ip_checked (ipv4_header frag proto n src dst) c"
  by (simp add: ipv4_from_bytes_def ipv4_bytes_def ip_checked_def ipv4_header_def field_def nth_append)

text \<open>The checksum of an IPv4 header exists and verifies.\<close>

lemma ipv4_checked_ok:
  assumes "length frag = 2" "length src = 4" "length dst = 4"
  shows "\<exists>c. ipv4_checked (ipv4_header frag proto n src dst) = Ok (ipv4_bytes (ip_checked (ipv4_header frag proto n src dst) c)) \<and>
    calculate_checksum (ipv4_bytes (ip_checked (ipv4_header frag proto n src dst) c)) = Ok 0"
proof -
  let ?a = "[0x45, 0] @ be16 (of_nat n) @ [0, 0] @ frag @ [64, proto]" and ?b = "src @ dst"
  have b: "ipv4_bytes (ipv4_header frag proto n src dst) = ?a @ [0, 0] @ ?b"
    and c: "\<And>c. ipv4_bytes (ip_checked (ipv4_header frag proto n src dst) c) = ?a @ be16 c @ ?b"
    by (simp_all add: ipv4_bytes_def ipv4_header_def ip_checked_def)
  have bound: "word_sum (?a @ [0, 0] @ ?b) + 65535 < 2 ^ 32"
    using word_sum_bound [of "?a @ [0, 0] @ ?b"] assms by simp
  then obtain c where k: "calculate_checksum (?a @ [0, 0] @ ?b) = Ok c" using calculate_checksum_eq [of "?a @ [0, 0] @ ?b"] by fastforce
  have "calculate_checksum (?a @ be16 c @ ?b) = Ok 0" by (rule checksum_verifies [OF _ bound k]) (simp add: assms)
  then show ?thesis using k unfolding ipv4_checked_def b c [symmetric] by (auto simp: ip_checked_def)
qed

lemma tcp_checksum_ok:
  assumes "length src = 4" "length dst = 4" "length payload \<le> 65495"
  shows "\<exists>c. calculate_tcp_checksum src dst (segment dport sport sq ak fl 0) payload = Ok c \<and>
    calculate_checksum (pseudo_header src dst IP_PROTO_TCP (20 + length payload) @ tcp_bytes (segment dport sport sq ak fl c) @ payload) = Ok 0"
proof -
  let ?a = "pseudo_header src dst IP_PROTO_TCP (20 + length payload) @ be16 sport @ be16 dport @ be32 sq @ be32 ak @ [0x50, fl] @ be16 65535"
  let ?b = "[0, 0] @ payload"
  have c: "\<And>c. pseudo_header src dst IP_PROTO_TCP (20 + length payload) @ tcp_bytes (segment dport sport sq ak fl c) @ payload = ?a @ be16 c @ ?b"
    by (simp add: tcp_bytes_def segment_def)
  have a: "length ?a = 28" by (simp add: pseudo_header_def assms)
  have "(length (?a @ [0, 0] @ ?b) + 1) div 2 \<le> 32765" using assms(3) a by simp
  then have "65535 * ((length (?a @ [0, 0] @ ?b) + 1) div 2) \<le> 65535 * 32765" by (rule mult_le_mono2)
  then have bound: "word_sum (?a @ [0, 0] @ ?b) + 65535 < 2 ^ 32"
    using word_sum_bound [of "?a @ [0, 0] @ ?b"] by simp
  then obtain c where k: "calculate_checksum (?a @ [0, 0] @ ?b) = Ok c" using calculate_checksum_eq [of "?a @ [0, 0] @ ?b"] by fastforce
  have "calculate_checksum (?a @ be16 c @ ?b) = Ok 0" by (rule checksum_verifies [OF _ bound k]) (simp only: a, simp)
  moreover have "calculate_tcp_checksum src dst (segment dport sport sq ak fl 0) payload = Ok c"
    using k c [of 0] by (simp add: calculate_tcp_checksum_def be16_0)
  ultimately show ?thesis unfolding c [symmetric] by blast
qed

section \<open>Well-formed states\<close>

definition net_ok :: "NetState \<Rightarrow> bool" where
  "net_ok s \<longleftrightarrow>
     length (get_my_ip s) = 4 \<and> length (my_mac s) = 6 \<and>
     length (arp_cache s) \<le> ARP_CACHE_MAX \<and> distinct (map fst (arp_cache s)) \<and> (\<forall>(i, m) \<in> set (arp_cache s). length m = 6) \<and>
     (\<forall>c \<in> set (tcp_connections s). length (remote_ip c) = 4)"

lemma length_known_mac: "net_ok s \<Longrightarrow> length (known_mac ip s) = 6"
  by (auto simp: net_ok_def known_mac_def arp_lookup_def BROADCAST_MAC_def dest!: map_of_SomeD split: option.splits)

lemma tcp_packet_ok:
  assumes ok: "net_ok s" and dst: "length dst = 4" and len: "length payload \<le> 65495"
  obtains ci ct where "tcp_packet dst dport sport sq ak fl payload s =
      Ok (ethernet_bytes \<lparr>dst_mac = known_mac dst s, src_mac = my_mac s, ethertype = be16 ETHERTYPE_IPV4\<rparr> @
          ipv4_bytes (ip_checked (ipv4_header [0x40, 0x00] IP_PROTO_TCP (40 + length payload) (get_my_ip s) dst) ci) @
          tcp_bytes (segment dport sport sq ak fl ct) @ payload)"
    "calculate_checksum (ipv4_bytes (ip_checked (ipv4_header [0x40, 0x00] IP_PROTO_TCP (40 + length payload) (get_my_ip s) dst) ci)) = Ok 0"
    "calculate_checksum (pseudo_header (get_my_ip s) dst IP_PROTO_TCP (20 + length payload) @ tcp_bytes (segment dport sport sq ak fl ct) @ payload) = Ok 0"
proof -
  have ip: "length (get_my_ip s) = 4" using ok by (simp add: net_ok_def)
  obtain ci where ci: "ipv4_checked (ipv4_header [0x40, 0x00] IP_PROTO_TCP (40 + length payload) (get_my_ip s) dst) =
      Ok (ipv4_bytes (ip_checked (ipv4_header [0x40, 0x00] IP_PROTO_TCP (40 + length payload) (get_my_ip s) dst) ci))"
    "calculate_checksum (ipv4_bytes (ip_checked (ipv4_header [0x40, 0x00] IP_PROTO_TCP (40 + length payload) (get_my_ip s) dst) ci)) = Ok 0"
    using ipv4_checked_ok [of "[0x40, 0x00]" "get_my_ip s" dst IP_PROTO_TCP "40 + length payload"] ip dst by auto
  obtain ct where ct: "calculate_tcp_checksum (get_my_ip s) dst (segment dport sport sq ak fl 0) payload = Ok ct"
    "calculate_checksum (pseudo_header (get_my_ip s) dst IP_PROTO_TCP (20 + length payload) @ tcp_bytes (segment dport sport sq ak fl ct) @ payload) = Ok 0"
    using tcp_checksum_ok [OF ip dst len] by blast
  show thesis
    by (rule that [OF _ ci(2) ct(2)]) (use ci(1) ct(1) in \<open>simp add: tcp_packet_def Let_def segment_def be16_0\<close>)
qed

section \<open>Delivery\<close>

lemma ethernet_from_bytes_append:
  "length d = 6 \<Longrightarrow> length m = 6 \<Longrightarrow>
   ethernet_from_bytes (ethernet_bytes \<lparr>dst_mac = d, src_mac = m, ethertype = be16 e\<rparr> @ r) = Some \<lparr>dst_mac = d, src_mac = m, ethertype = be16 e\<rparr>"
  by (simp add: ethernet_from_bytes_def ethernet_bytes_def field_def)

lemma segment_sel [simp]:
  "from_be (tcp_src_port (segment dport sport sq ak fl c)) = sport" "from_be (tcp_dst_port (segment dport sport sq ak fl c)) = dport"
  "from_be (tcp_seq (segment dport sport sq ak fl c)) = sq" "from_be (tcp_ack (segment dport sport sq ak fl c)) = ak"
  "tcp_flags (segment dport sport sq ak fl c) = fl" "data_offset (segment dport sport sq ak fl c) = 20"
  by (simp_all add: segment_def data_offset_def)

lemma ip_checked_sel [simp]:
  "header_length (ip_checked (ipv4_header frag proto n src dst) c) = 20"
  "protocol (ip_checked (ipv4_header frag proto n src dst) c) = proto"
  "src_ip (ip_checked (ipv4_header frag proto n src dst) c) = src"
  "dst_ip (ip_checked (ipv4_header frag proto n src dst) c) = dst"
  "total_length (ip_checked (ipv4_header frag proto n src dst) c) = be16 (of_nat n)"
  by (simp_all add: ip_checked_def ipv4_header_def header_length_def)

text \<open>
  A segment built on one machine and handled on another reaches the connections there as it was sent. The length field of the IP header is not looked at: bytes that follow the packet, such
  as the padding of a short Ethernet frame, are taken for data.
\<close>

lemma padded_packet_step:
  assumes ok: "net_ok s" and dst: "length dst = 4" and len: "length payload \<le> 65495"
    and p: "tcp_packet dst dport sport sq ak fl payload s = Ok p" and loc: "is_local_ip dst s'"
  shows "\<exists>c. packet_step (p @ pad) s' = answer_segment (get_my_ip s) (segment dport sport sq ak fl c) (payload @ pad) (learn (get_my_ip s) (my_mac s) s')"
proof -
  obtain ci ct where q: "p = ethernet_bytes \<lparr>dst_mac = known_mac dst s, src_mac = my_mac s, ethertype = be16 ETHERTYPE_IPV4\<rparr> @
      ipv4_bytes (ip_checked (ipv4_header [0x40, 0x00] IP_PROTO_TCP (40 + length payload) (get_my_ip s) dst) ci) @
      tcp_bytes (segment dport sport sq ak fl ct) @ payload"
    using tcp_packet_ok [OF ok dst len] p by (metis res.inject(1))
  have l: "length (get_my_ip s) = 4" "length (my_mac s) = 6" "length (known_mac dst s) = 6"
    using ok length_known_mac [OF ok] by (simp_all add: net_ok_def)
  have e: "ethernet_from_bytes (p @ pad) = Some \<lparr>dst_mac = known_mac dst s, src_mac = my_mac s, ethertype = be16 ETHERTYPE_IPV4\<rparr>"
    using l by (simp add: q ethernet_from_bytes_append)
  have d: "drop 14 (p @ pad) = ipv4_bytes (ip_checked (ipv4_header [0x40, 0x00] IP_PROTO_TCP (40 + length payload) (get_my_ip s) dst) ci) @
      tcp_bytes (segment dport sport sq ak fl ct) @ payload @ pad"
    using l by (simp add: q ethernet_bytes_def)
  have "packet_step (p @ pad) s' = answer_segment (get_my_ip s) (segment dport sport sq ak fl ct) (payload @ pad) (learn (get_my_ip s) (my_mac s) s')"
    using loc unfolding packet_step_def e d
    by (simp add: ethertype_u16_def net_consts handle_ipv4_def length_ipv4_bytes l dst ipv4_from_bytes_checked Let_def handle_tcp_def length_tcp_bytes tcp_from_bytes_segment)
  then show ?thesis by blast
qed

lemmas packet_step_tcp = padded_packet_step [where pad = "[]", simplified]

text \<open>
  C39: A TCP segment that the stack builds is a valid packet: for addresses of the right length and a payload that fits an IPv4 packet building it succeeds, the frame parses back to
  exactly the addresses, ports, numbers, flags and payload given, its length field is right, and the checksum of the IP header and the checksum over the pseudo header and the
  segment both verify.
\<close>

theorem tcp_packet_valid:
  assumes "net_ok s" and "length dst = 4" and "length payload \<le> 65495"
  shows "\<exists>p. tcp_packet dst dport sport sq ak fl payload s = Ok p \<and>
    (let eth = ethernet_from_bytes p; ip = ipv4_from_bytes (drop 14 p); h = tcp_from_bytes (drop 34 p) in
     eth = Some \<lparr>dst_mac = known_mac dst s, src_mac = my_mac s, ethertype = be16 ETHERTYPE_IPV4\<rparr> \<and>
     header_length ip = 20 \<and> protocol ip = IP_PROTO_TCP \<and> src_ip ip = get_my_ip s \<and> dst_ip ip = dst \<and>
     unat (from_be (total_length ip) :: u16) = length p - 14 \<and> calculate_checksum (field p 14 20) = Ok 0 \<and>
     from_be (tcp_src_port h) = sport \<and> from_be (tcp_dst_port h) = dport \<and> from_be (tcp_seq h) = sq \<and> from_be (tcp_ack h) = ak \<and>
     tcp_flags h = fl \<and> data_offset h = 20 \<and> drop (34 + data_offset h) p = payload \<and>
     calculate_checksum (pseudo_header (src_ip ip) (dst_ip ip) (protocol ip) (length p - 34) @ drop 34 p) = Ok 0)"
proof -
  let ?eth = "ethernet_bytes \<lparr>dst_mac = known_mac dst s, src_mac = my_mac s, ethertype = be16 ETHERTYPE_IPV4\<rparr>"
  let ?ip = "\<lambda>ci. ipv4_bytes (ip_checked (ipv4_header [0x40, 0x00] IP_PROTO_TCP (40 + length payload) (get_my_ip s) dst) ci)"
  let ?tcp = "\<lambda>ct. tcp_bytes (segment dport sport sq ak fl ct)"
  obtain ci ct where q: "tcp_packet dst dport sport sq ak fl payload s = Ok (?eth @ ?ip ci @ ?tcp ct @ payload)" "calculate_checksum (?ip ci) = Ok 0"
    "calculate_checksum (pseudo_header (get_my_ip s) dst IP_PROTO_TCP (20 + length payload) @ ?tcp ct @ payload) = Ok 0"
    using tcp_packet_ok [OF assms] by metis
  have l: "length (get_my_ip s) = 4" "length (my_mac s) = 6" "length (known_mac dst s) = 6"
    using assms(1) length_known_mac [OF assms(1)] by (simp_all add: net_ok_def)
  have eth: "length ?eth = 14" using l by (simp add: ethernet_bytes_def)
  have ip: "length (?ip ci) = 20" by (rule length_ipv4_bytes) (simp_all add: l assms)
  have tcp: "length (?tcp ct) = 20" by (rule length_tcp_bytes)
  show ?thesis
    using q(2,3) assms(3)
    by (simp add: q(1) Let_def field_def eth ip tcp l assms(2) ethernet_from_bytes_append ipv4_from_bytes_checked tcp_from_bytes_segment unat_of_nat
      del: of_nat_add of_nat_numeral)
qed

definition sample_host :: "bytes \<Rightarrow> u8 \<Rightarrow> NetState" where
  "sample_host ip m = (net_init [2, 0, 0, 0, 0, m] 0 (\<lambda>_. 7) (\<lambda>_ _. Ok ()))\<lparr>net_config := default_config\<lparr>my_ip := ip\<rparr>\<rparr>"

lemma net_ok_sample: "length ip = 4 \<Longrightarrow> net_ok (sample_host ip m)"
  by (simp add: net_ok_def sample_host_def net_init_def)

theorem tcp_packet_valid_witness:
  "\<exists>p. tcp_packet [10, 0, 2, 2] 80 49152 7 0 TCP_FLAG_SYN [104, 105] (sample_host [10, 0, 2, 15] 1) = Ok p \<and>
     calculate_checksum (field p 14 20) = Ok 0 \<and> from_be (tcp_dst_port (tcp_from_bytes (drop 34 p))) = (80 :: u16) \<and> drop 54 p = [104, 105]"
proof -
  have "net_ok (sample_host [10, 0, 2, 15] 1)" by (rule net_ok_sample) simp
  from tcp_packet_valid [OF this, of "[10, 0, 2, 2]" "[104, 105]" 80 49152 7 0 TCP_FLAG_SYN] show ?thesis by (auto simp: Let_def)
qed

end
