(* ===== verification/Net_Handling.thy ===== *)
theory Net_Handling
  imports Net_Delivery
begin

text \<open>
  Handling a frame ends: a segment for the machine itself is handled inside the call that sends it, so the question is whether the answers of the stack to itself come to an end. And
  handling keeps the tables of the stack well-formed.
\<close>

section \<open>What the operations keep\<close>

definition same_tables :: "NetState \<Rightarrow> NetState \<Rightarrow> bool" where
  "same_tables s s' \<longleftrightarrow>
     net_config s' = net_config s \<and> my_mac s' = my_mac s \<and> arp_cache s' = arp_cache s \<and> tcp_connections s' = tcp_connections s"

lemma same_tables_refl [simp]: "same_tables s s"
  by (simp add: same_tables_def)

lemma same_tables_net_ok: "same_tables s s' \<Longrightarrow> net_ok s' \<longleftrightarrow> net_ok s"
  by (simp add: same_tables_def net_ok_def)

lemma send_frame_tables: "same_tables s (snd (send_frame b s))"
  by (simp add: send_frame_def same_tables_def split: res.split)

lemma same_tables_ok_then: "(\<And>a. r = Ok a \<Longrightarrow> same_tables s (snd (f a))) \<Longrightarrow> same_tables s (snd (ok_then r s f))"
  by (cases r) simp_all

lemma same_tables_log: "same_tables s (snd x) \<Longrightarrow> same_tables s (snd (case x of (r, s) \<Rightarrow> (f r, s)))"
  by (cases x) simp

lemma send_icmpv6_tables: "same_tables s (snd (send_icmpv6 dst msg s))"
  by (simp add: send_icmpv6_def send_ipv6_packet_def same_tables_ok_then send_frame_tables)

lemma handle_icmpv6_tables: "same_tables s (snd (handle_icmpv6 ip payload s))"
  by (simp add: handle_icmpv6_def send_icmpv6_echo_reply_def handle_ndp_neighbor_solicitation_def send_ndp_neighbor_advertisement_def
    send_icmpv6_tables Let_def same_tables_def [of _ "icmpv6_echo_reply_update _ _"])

lemma handle_ipv6_tables: "same_tables s (snd (handle_ipv6 payload s))"
  by (simp add: handle_ipv6_def Let_def same_tables_log handle_icmpv6_tables)

lemma handle_icmp_tables: "same_tables s (snd (handle_icmp ip payload s))"
  by (simp add: handle_icmp_def send_icmp_echo_reply_def same_tables_log same_tables_ok_then send_frame_tables)

lemma handle_udp_tables: "same_tables s (handle_udp ip payload s)"
  by (simp add: handle_udp_def Let_def same_tables_def split: option.split)

section \<open>The ARP cache\<close>

lemma arp_set_None_iff: "arp_set ip m es = None \<longleftrightarrow> ip \<notin> fst ` set es"
  by (induction ip m es rule: arp_set.induct) auto

lemma arp_set_Some:
  "arp_set ip m es = Some es' \<Longrightarrow>
   map fst es' = map fst es \<and> set es' \<subseteq> insert (ip, m) (set es) \<and> map_of es' = (map_of es)(ip \<mapsto> m)"
  by (induction ip m es arbitrary: es' rule: arp_set.induct) (fastforce split: if_splits)+

lemma arp_update_cases:
  obtains (known) es where "arp_set ip m (arp_cache s) = Some es" and "arp_update ip m s = s\<lparr>arp_cache := es\<rparr>"
  | (new) n where "ip \<notin> fst ` set (arp_cache s)" and "arp_update ip m s = s\<lparr>arp_cache := drop n (arp_cache s) @ [(ip, m)]\<rparr>"
      and "length (arp_cache s) \<le> ARP_CACHE_MAX \<longrightarrow> length (drop n (arp_cache s)) < ARP_CACHE_MAX"
proof (cases "arp_set ip m (arp_cache s)")
  case None
  let ?n = "if length (arp_cache s) \<ge> ARP_CACHE_MAX then 1 else (0 :: nat)"
  have "arp_update ip m s = s\<lparr>arp_cache := drop ?n (arp_cache s) @ [(ip, m)]\<rparr>" by (simp add: arp_update_def None drop_Suc)
  moreover have "ip \<notin> fst ` set (arp_cache s)" using None by (simp add: arp_set_None_iff)
  ultimately show ?thesis by (intro new [of ?n]) (auto simp: ARP_CACHE_MAX_def)
next
  case (Some es)
  then show ?thesis by (intro known [of es]) (simp_all add: arp_update_def)
qed

lemma net_ok_arp_update:
  assumes "net_ok s" and "length m = 6"
  shows "net_ok (arp_update ip m s)"
proof (cases rule: arp_update_cases [of ip m s])
  case (known es)
  moreover have "length es = length (arp_cache s)" using arp_set_Some [OF known(1)] by (metis length_map)
  ultimately show ?thesis using assms arp_set_Some [OF known(1)] by (auto simp: net_ok_def)
next
  case (new n)
  have "distinct (map fst (drop n (arp_cache s)))" "fst ` set (drop n (arp_cache s)) \<subseteq> fst ` set (arp_cache s)"
    using distinct_drop [of "map fst (arp_cache s)" n] assms(1) by (auto simp: net_ok_def drop_map dest: in_set_dropD)
  then show ?thesis using assms new by (auto simp: net_ok_def dest: in_set_dropD)
qed

lemma arp_lookup_update: "arp_lookup ip (arp_update ip m s) = Some m"
proof (cases rule: arp_update_cases [of ip m s])
  case (known es)
  then show ?thesis using arp_set_Some [OF known(1)] by (simp add: arp_lookup_def)
next
  case (new n)
  then have "map_of (drop n (arp_cache s)) ip = None" using image_mono [OF set_drop_subset, of fst n "arp_cache s"] by (auto simp: map_of_eq_None_iff)
  then show ?thesis using new(2) by (simp add: arp_lookup_def map_add_def)
qed

lemma net_ok_learn: "net_ok s \<Longrightarrow> length m = 6 \<Longrightarrow> net_ok (learn ip m s)"
  by (simp add: learn_def net_ok_arp_update)

lemma arp_update_other [simp]:
  "net_config (arp_update ip m s) = net_config s" "my_mac (arp_update ip m s) = my_mac s" "tcp_connections (arp_update ip m s) = tcp_connections s"
  "tcp_listen_ports (arp_update ip m s) = tcp_listen_ports s"
  by (simp_all add: arp_update_def Let_def split: option.split)

lemma learn_other [simp]:
  "net_config (learn ip m s) = net_config s" "my_mac (learn ip m s) = my_mac s" "tcp_connections (learn ip m s) = tcp_connections s"
  "tcp_listen_ports (learn ip m s) = tcp_listen_ports s"
  by (simp_all add: learn_def)

section \<open>Connections\<close>

definition tuple_of :: "TcpConnection \<Rightarrow> bytes \<times> u16 \<times> u16" where
  "tuple_of c = (remote_ip c, remote_port c, local_port c)"

definition tuples :: "NetState \<Rightarrow> (bytes \<times> u16 \<times> u16) set" where
  "tuples s = tuple_of ` set (tcp_connections s)"

lemma find_tuple_None: "find_conn_index_by_tuple s sip sport dport = None \<longleftrightarrow> (sip, sport, dport) \<notin> tuples s"
  by (auto simp: find_conn_index_by_tuple_def position_None_iff tuples_def tuple_of_def)

lemma find_tuple_Some:
  "find_conn_index_by_tuple s sip sport dport = Some i \<Longrightarrow> i < length (tcp_connections s) \<and> tuple_of (tcp_connections s ! i) = (sip, sport, dport)"
  by (auto simp: find_conn_index_by_tuple_def tuple_of_def dest: position_SomeD)

lemma conn_input_keeps: "conn_input now h body c = Ok (c', r, q) \<Longrightarrow> tuple_of c' = tuple_of c"
  by (auto simp: conn_input_def tuple_of_def Let_def res_bind_Ok_iff split: TcpState.splits if_splits)

lemma conn_input_reply: "conn_input now h body c = Ok (c', Some r, q) \<Longrightarrow> r = conn_reply c' TCP_FLAG_ACK"
  by (auto simp: conn_input_def Let_def res_bind_Ok_iff split: TcpState.splits if_splits)

text \<open>A segment without data, FIN and SYN gets no answer.\<close>

lemma conn_input_quiet:
  "conn_input now h [] c = Ok (c', r, q) \<Longrightarrow> \<not> has_flag h TCP_FLAG_FIN \<Longrightarrow> \<not> has_flag h TCP_FLAG_SYN \<Longrightarrow> r = None"
  by (auto simp: conn_input_def Let_def res_bind_Ok_iff split: TcpState.splits if_splits)

lemma accept_syn_state:
  assumes "accept_syn sip sport dport sq s = (r, s')" and "net_ok s" and "length sip = 4"
  shows "net_ok s' \<and> net_config s' = net_config s \<and> tuples s \<subseteq> tuples s' \<and>
    (\<forall>p. r = Ok (Some p) \<longrightarrow> (sip, sport, dport) \<in> tuples s' \<and> (\<exists>sq ak. p = (sip, sport, dport, sq, ak, TCP_FLAG_SYN OR TCP_FLAG_ACK)))"
  using assms
  by (cases "cadd sq 1"; cases "unacked (ucast (rdrand s (rdrand_used s))) (the (cadd sq 1)) (TCP_FLAG_SYN OR TCP_FLAG_ACK) [] (tick s)")
    (auto simp: accept_syn_def alloc_conn_id_def new_connection_def kernel_rdrand64_def Let_def net_ok_def tuples_def tuple_of_def conn_reply_def)

lemma tuples_update:
  "i < length (tcp_connections s) \<Longrightarrow> tuple_of c = tuple_of (tcp_connections s ! i) \<Longrightarrow>
   tuples (s\<lparr>tcp_connections := (tcp_connections s)[i := c], tcp_pending_accept := q\<rparr>) = tuples s"
  unfolding tuples_def by (simp add: image_set map_update del: set_map) (metis list_update_id map_update nth_map)

lemma net_ok_tuples: "net_ok s \<Longrightarrow> t \<in> tuples s \<Longrightarrow> length (fst t) = 4"
  by (auto simp: net_ok_def tuples_def tuple_of_def)

lemma net_ok_cong:
  "net_ok s \<Longrightarrow> net_config s' = net_config s \<Longrightarrow> my_mac s' = my_mac s \<Longrightarrow> arp_cache s' = arp_cache s \<Longrightarrow> tuples s' = tuples s \<Longrightarrow> net_ok s'"
  unfolding net_ok_def tuples_def by (auto simp: tuple_of_def dest!: equalityD1)

lemma tcp_input_state:
  assumes t: "tcp_input sip h body s = (r, s')" and ok: "net_ok s" and sip: "length sip = 4"
    and ports: "sport = from_be (tcp_src_port h)" "dport = from_be (tcp_dst_port h)"
  shows "net_ok s' \<and> net_config s' = net_config s \<and> tuples s \<subseteq> tuples s' \<and>
    (\<forall>p. r = Ok (Some p) \<longrightarrow> (sip, sport, dport) \<in> tuples s' \<and>
       (\<exists>sq ak fl. p = (sip, sport, dport, sq, ak, fl) \<and>
          (fl = TCP_FLAG_ACK \<or> fl = TCP_FLAG_SYN OR TCP_FLAG_ACK \<and> has_flag h TCP_FLAG_SYN \<and> (sip, sport, dport) \<notin> tuples s)))"
proof (cases "find_conn_index_by_tuple s sip sport dport")
  case None
  note new = None [unfolded find_tuple_None]
  show ?thesis
  proof (cases "dport \<in> set (tcp_listen_ports s) \<and> has_flag h TCP_FLAG_SYN")
    case True
    then have "accept_syn sip sport dport (from_be (tcp_seq h)) s = (r, s')" using t None by (simp add: tcp_input_def ports [symmetric])
    from accept_syn_state [OF this ok sip] show ?thesis using True new by blast
  next
    case False
    then have "r = Ok None" "s' = s" using t None by (auto simp: tcp_input_def ports [symmetric] simp del: not_False_eq_True)
    then show ?thesis using ok by simp
  qed
next
  case (Some i)
  note i = find_tuple_Some [OF Some]
  show ?thesis
  proof (cases "conn_input (tick s) h body (tcp_connections s ! i)")
    case (Ok x)
    obtain c p q where x: "x = (c, p, q)" by (cases x)
    note c = conn_input_keeps [OF Ok [unfolded x]]
    let ?s = "s\<lparr>tcp_connections := (tcp_connections s)[i := c], tcp_pending_accept := tcp_pending_accept s @ (case q of Some e \<Rightarrow> [e] | None \<Rightarrow> [])\<rparr>"
    have s': "s' = ?s" "r = Ok p" using t Ok x Some ports by (simp_all add: tcp_input_def)
    have tup: "tuples ?s = tuples s" using i c by (intro tuples_update) simp_all
    have "(sip, sport, dport) \<in> tuples s" using find_tuple_None [of s sip sport dport] Some by simp
    moreover have "net_ok ?s" by (rule net_ok_cong [OF ok _ _ _ tup]) simp_all
    ultimately show ?thesis
      using s' tup i c conn_input_reply [of "tick s" h body "tcp_connections s ! i" c _ q] Ok x
      by (auto simp: conn_reply_def tuple_of_def)
  qed (use t Some ports ok in \<open>auto simp: tcp_input_def\<close>)
qed

text \<open>Answering a segment: the packet that is left to handle, if there is one, is a segment of this machine to itself.\<close>

definition left_packet :: "u16 \<Rightarrow> u16 \<Rightarrow> u8 \<Rightarrow> bytes \<Rightarrow> NetState \<Rightarrow> bool" where
  "left_packet sport dport fl p s \<longleftrightarrow>
     (\<exists>dst sq ak. length dst = 4 \<and> is_local_ip dst s \<and> tcp_packet dst dport sport sq ak fl [] s = Ok p)"

lemma emit_tcp_left:
  assumes "emit_tcp dst dport sport sq ak fl [] s = (r, s')" and "length dst = 4"
  shows "same_tables s s' \<and> (\<forall>p. not_failed r = Ok (Some p) \<longrightarrow> left_packet sport dport fl p s')"
proof (cases "tcp_packet dst dport sport sq ak fl [] s")
  case (Ok p)
  show ?thesis
  proof (cases "is_local_ip dst s")
    case False
    obtain r1 s1 where f: "send_frame p s = (r1, s1)" by (cases "send_frame p s")
    then have "same_tables s s1" using send_frame_tables [of s p] by simp
    then show ?thesis using assms Ok False f by (cases r1) (auto simp: emit_tcp_def)
  next
    case True
    then have "r = Ok (Some p)" "s' = s" using assms Ok by (simp_all add: emit_tcp_def)
    then show ?thesis using assms(2) Ok True by (simp add: left_packet_def) blast
  qed
qed (use assms in \<open>auto simp: emit_tcp_def\<close>)

lemma same_tables_simps: "same_tables s s' \<Longrightarrow> net_config s' = net_config s \<and> tuples s' = tuples s"
  by (simp add: same_tables_def tuples_def)

lemma answer_segment_state:
  assumes a: "answer_segment sip h body s = (r, s')" and ok: "net_ok s" and sip: "length sip = 4"
    and ports: "sport = from_be (tcp_src_port h)" "dport = from_be (tcp_dst_port h)"
  shows "net_ok s' \<and> net_config s' = net_config s \<and> tuples s \<subseteq> tuples s' \<and>
    (\<forall>p. r = Ok (Some p) \<longrightarrow> (sip, sport, dport) \<in> tuples s' \<and>
       (left_packet dport sport TCP_FLAG_ACK p s' \<or>
        left_packet dport sport (TCP_FLAG_SYN OR TCP_FLAG_ACK) p s' \<and> has_flag h TCP_FLAG_SYN \<and> (sip, sport, dport) \<notin> tuples s))"
proof -
  obtain r1 s1 where t: "tcp_input sip h body s = (r1, s1)" by (cases "tcp_input sip h body s")
  note st = tcp_input_state [OF t ok sip ports]
  show ?thesis
  proof (cases "\<exists>x. r1 = Ok (Some x)")
    case True
    then obtain sq ak fl where x: "r1 = Ok (Some (sip, sport, dport, sq, ak, fl))" using st by blast
    obtain r2 s2 where e: "emit_tcp sip sport dport sq ak fl [] s1 = (r2, s2)" by (cases "emit_tcp sip sport dport sq ak fl [] s1")
    note em = emit_tcp_left [OF e sip]
    have "r = not_failed r2" "s' = s2" using a t x e by (simp_all add: answer_segment_def)
    then show ?thesis using st x em same_tables_simps [of s1 s2] same_tables_net_ok [of s1 s2] by auto
  next
    case False
    then have "s' = s1" "\<nexists>p. r = Ok (Some p)" using a t by (auto simp: answer_segment_def ok_then_def split: res.splits option.splits)
    then show ?thesis using st by simp
  qed
qed

text \<open>A segment without data, SYN and FIN leaves nothing to handle.\<close>

lemma answer_segment_quiet:
  assumes "answer_segment sip h [] s = (r, s')" and "\<not> has_flag h TCP_FLAG_FIN" and "\<not> has_flag h TCP_FLAG_SYN"
  shows "r \<noteq> Ok (Some p)"
proof -
  obtain r1 s1 where t: "tcp_input sip h [] s = (r1, s1)" by (cases "tcp_input sip h [] s")
  have n: "r1 \<noteq> Ok (Some x)" for x
  proof (cases "find_conn_index_by_tuple s sip (from_be (tcp_src_port h)) (from_be (tcp_dst_port h))")
    case None
    then show ?thesis using t assms(3) by (auto simp: tcp_input_def)
  next
    case (Some i)
    show ?thesis
    proof (cases "conn_input (tick s) h [] (tcp_connections s ! i)")
      case (Ok y)
      obtain c q k where y: "y = (c, q, k)" by (cases y)
      have "q = None" using conn_input_quiet [OF Ok [unfolded y] assms(2,3)] .
      then show ?thesis using t Some Ok y by (auto simp: tcp_input_def)
    qed (use t Some in \<open>auto simp: tcp_input_def\<close>)
  qed
  show ?thesis
  proof (cases r1)
    case (Ok y)
    then have "y = None" using n by (cases y) auto
    then show ?thesis using assms(1) t Ok by (auto simp: answer_segment_def)
  qed (use assms(1) t in \<open>auto simp: answer_segment_def\<close>)
qed

section \<open>Handling a packet returns\<close>

definition returns :: "bytes \<Rightarrow> NetState \<Rightarrow> bool" where
  "returns p s \<longleftrightarrow> (\<exists>r s'. handle_packet p s = Some (r, s') \<and> net_ok s')"

lemma returnsI:
  assumes "packet_step p s = (r, s')" and "net_ok s'" and "\<And>q. r = Ok (Some q) \<Longrightarrow> returns q s'"
  shows "returns p s"
  using assms unfolding returns_def by (subst handle_packet.simps) (auto split: res.split option.split)

lemma left_packet_step:
  assumes "left_packet sport dport fl p s" and "net_ok s"
  obtains h where "packet_step p s = answer_segment (get_my_ip s) h [] (learn (get_my_ip s) (my_mac s) s)"
    "from_be (tcp_src_port h) = sport" "from_be (tcp_dst_port h) = dport" "tcp_flags h = fl"
proof -
  obtain dst sq ak where "length dst = 4" "is_local_ip dst s" "tcp_packet dst dport sport sq ak fl [] s = Ok p"
    using assms(1) by (auto simp: left_packet_def)
  from packet_step_tcp [OF assms(2) this(1) _ this(3) this(2)] show thesis using that by fastforce
qed

lemma net_ok_own: "net_ok s \<Longrightarrow> net_ok (learn (get_my_ip s) (my_mac s) s) \<and> length (get_my_ip s) = 4"
  by (auto simp: net_ok_learn net_ok_def [of s])

lemma tuples_learn [simp]: "tuples (learn ip m s) = tuples s"
  by (simp add: tuples_def)

lemma ack_returns:
  assumes "left_packet sport dport TCP_FLAG_ACK p s" and "net_ok s"
  shows "returns p s"
proof -
  obtain h where h: "packet_step p s = answer_segment (get_my_ip s) h [] (learn (get_my_ip s) (my_mac s) s)" "tcp_flags h = TCP_FLAG_ACK"
    using left_packet_step [OF assms] by blast
  obtain r s' where a: "answer_segment (get_my_ip s) h [] (learn (get_my_ip s) (my_mac s) s) = (r, s')" by (meson surj_pair)
  have "net_ok s'"
    using answer_segment_state [OF a conjunct1 [OF net_ok_own [OF assms(2)]] conjunct2 [OF net_ok_own [OF assms(2)]] refl refl] by (rule conjunct1)
  have quiet: "r \<noteq> Ok (Some q)" for q
    by (rule answer_segment_quiet [OF a]) (simp_all add: has_flag_def h(2) tcp_flag_defs)
  show ?thesis by (rule returnsI [OF _ \<open>net_ok s'\<close>]) (use h(1) a quiet in auto)
qed

text \<open>Each answer with SYN creates a connection from this machine to itself; the third finds its connection already there.\<close>

lemma syn_returns_step:
  assumes l: "left_packet sport dport (TCP_FLAG_SYN OR TCP_FLAG_ACK) p s" and ok: "net_ok s"
    and next_packet: "\<And>q s'. net_ok s' \<Longrightarrow> net_config s' = net_config s \<Longrightarrow> tuples s \<subseteq> tuples s' \<Longrightarrow> (get_my_ip s, sport, dport) \<in> tuples s' \<Longrightarrow>
      (get_my_ip s, sport, dport) \<notin> tuples s \<Longrightarrow> left_packet dport sport (TCP_FLAG_SYN OR TCP_FLAG_ACK) q s' \<Longrightarrow> returns q s'"
  shows "returns p s"
proof -
  obtain h where h: "packet_step p s = answer_segment (get_my_ip s) h [] (learn (get_my_ip s) (my_mac s) s)"
    "from_be (tcp_src_port h) = sport" "from_be (tcp_dst_port h) = dport"
    using left_packet_step [OF l ok] by blast
  obtain r s' where a: "answer_segment (get_my_ip s) h [] (learn (get_my_ip s) (my_mac s) s) = (r, s')" by (meson surj_pair)
  note st = answer_segment_state [OF a conjunct1 [OF net_ok_own [OF ok]] conjunct2 [OF net_ok_own [OF ok]] h(2) [symmetric] h(3) [symmetric]]
  show ?thesis
  proof (rule returnsI)
    show "packet_step p s = (r, s')" using h(1) a by simp
    show "net_ok s'" using st by blast
    fix q
    assume "r = Ok (Some q)"
    with st consider "left_packet dport sport TCP_FLAG_ACK q s'"
      | "left_packet dport sport (TCP_FLAG_SYN OR TCP_FLAG_ACK) q s'" "(get_my_ip s, sport, dport) \<notin> tuples s" "(get_my_ip s, sport, dport) \<in> tuples s'"
      by auto
    then show "returns q s'"
    proof cases
      case 1
      then show ?thesis by (rule ack_returns) (rule conjunct1 [OF st])
    next
      case 2
      show ?thesis
        by (rule next_packet [OF _ _ _ 2(3,2,1)]) (use st in simp_all)
    qed
  qed
qed

lemma syn_returns:
  assumes "left_packet sport dport (TCP_FLAG_SYN OR TCP_FLAG_ACK) p s" and "net_ok s"
  shows "returns p s"
proof (rule syn_returns_step [OF assms])
  fix q s1
  assume 1: "net_ok s1" "net_config s1 = net_config s" "(get_my_ip s, sport, dport) \<in> tuples s1"
    "left_packet dport sport (TCP_FLAG_SYN OR TCP_FLAG_ACK) q s1"
  show "returns q s1"
  proof (rule syn_returns_step [OF 1(4,1)])
    fix q' s2
    assume 2: "net_ok s2" "net_config s2 = net_config s1" "tuples s1 \<subseteq> tuples s2" "left_packet sport dport (TCP_FLAG_SYN OR TCP_FLAG_ACK) q' s2"
    show "returns q' s2"
      by (rule syn_returns_step [OF 2(4,1)]) (use 1(2,3) 2(2,3) in auto)
  qed
qed

text \<open>Any frame, from the network or from this machine, leaves at most one such segment.\<close>

definition quiet_left :: "(string, bytes option) res \<Rightarrow> NetState \<Rightarrow> bool" where
  "quiet_left r s \<longleftrightarrow>
     (\<forall>q. r = Ok (Some q) \<longrightarrow> (\<exists>sport dport. left_packet sport dport TCP_FLAG_ACK q s \<or> left_packet sport dport (TCP_FLAG_SYN OR TCP_FLAG_ACK) q s))"

lemma quiet_left_None [simp]: "quiet_left (Ok None) s" "quiet_left (logged r') s"
  by (simp_all add: quiet_left_def) (cases r'; simp)

lemma handle_tcp_state:
  assumes "handle_tcp ip payload s = (r, s')" and "net_ok s" and "length (src_ip ip) = 4"
  shows "net_ok s' \<and> quiet_left r s'"
proof (cases "length payload < 20 \<or> length payload < data_offset (tcp_from_bytes payload)")
  case True
  then have "r = Ok None" "s' = s" using assms(1) by (auto simp: handle_tcp_def Let_def split: if_splits)
  then show ?thesis using assms(2) by simp
next
  case False
  then have "answer_segment (src_ip ip) (tcp_from_bytes payload) (drop (data_offset (tcp_from_bytes payload)) payload) s = (r, s')"
    using assms(1) by (simp add: handle_tcp_def Let_def)
  from answer_segment_state [OF this assms(2,3) refl refl] show ?thesis unfolding quiet_left_def by blast
qed

lemma length_field: "off + n \<le> length b \<Longrightarrow> length (field b off n) = n"
  by (simp add: field_def)

lemma handle_ipv4_state:
  assumes h: "handle_ipv4 eth payload s = (r, s')" and ok: "net_ok s" and mac: "length (src_mac eth) = 6"
  shows "net_ok s' \<and> quiet_left r s'"
proof (cases "length payload < 20 \<or> length payload < header_length (ipv4_from_bytes payload) \<or> \<not> is_local_ip (dst_ip (ipv4_from_bytes payload)) s")
  case True
  then have "r = Ok None" "s' = s" using h by (auto simp: handle_ipv4_def Let_def split: if_splits)
  then show ?thesis using ok by simp
next
  case False
  define ip body s1 where "ip = ipv4_from_bytes payload" and "body = drop (header_length ip) payload" and "s1 = learn (src_ip ip) (src_mac eth) s"
  have s1: "net_ok s1" unfolding s1_def by (rule net_ok_learn [OF ok mac])
  have src: "length (src_ip ip) = 4" using False by (simp add: ip_def ipv4_from_bytes_def length_field)
  have "handle_ipv4 eth payload s = (if protocol ip = IP_PROTO_ICMP then handle_icmp ip body s1 else if protocol ip = IP_PROTO_TCP then handle_tcp ip body s1
      else if protocol ip = IP_PROTO_UDP then (Ok None, handle_udp ip body s1) else (Ok None, s1))"
    using False by (simp add: handle_ipv4_def Let_def ip_def body_def s1_def)
  note e = trans [OF h [symmetric] this]
  have icmp: "quiet_left (fst (handle_icmp ip body s1)) x" for x by (simp add: handle_icmp_def split: prod.split)
  consider "protocol ip = IP_PROTO_ICMP" | "protocol ip = IP_PROTO_TCP" "protocol ip \<noteq> IP_PROTO_ICMP"
    | "protocol ip \<noteq> IP_PROTO_TCP" "protocol ip \<noteq> IP_PROTO_ICMP" by blast
  then show ?thesis
  proof cases
    case 1
    then have "(r, s') = handle_icmp ip body s1" using e by simp
    then show ?thesis using icmp [of s'] same_tables_net_ok [OF handle_icmp_tables [of s1 ip body]] s1 by (metis fst_conv snd_conv)
  next
    case 2
    then show ?thesis using e handle_tcp_state [of ip body s1 r s'] s1 src by simp
  next
    case 3
    then show ?thesis using e same_tables_net_ok [OF handle_udp_tables [of s1 ip body]] s1 by (auto split: if_splits)
  qed
qed

lemma handle_arp_state:
  assumes "handle_arp payload s = (r, s')" and "net_ok s"
  shows "net_ok s' \<and> quiet_left r s'"
proof (cases "length payload < 28")
  case False
  define arp s1 where "arp = arp_from_bytes payload" and "s1 = arp_update (spa arp) (sha arp) s"
  have "length (sha arp) = 6" using False by (simp add: arp_def arp_from_bytes_def length_field)
  then have s1: "net_ok s1" unfolding s1_def by (rule net_ok_arp_update [OF assms(2)])
  obtain r2 s2 where f: "send_arp_reply arp s1 = (r2, s2)" by (cases "send_arp_reply arp s1")
  have "net_ok s2" using f same_tables_net_ok [OF send_frame_tables] s1 unfolding send_arp_reply_def by (metis snd_conv)
  moreover have "(r, s') = (if oper_u16 arp = ARP_OP_REQUEST \<and> tpa arp = get_my_ip s1 then (logged r2, s2) else (Ok None, s1))"
    using assms(1) False f by (auto simp: handle_arp_def Let_def arp_def s1_def split: if_splits)
  ultimately show ?thesis using s1 by (auto split: if_splits)
qed (use assms in \<open>auto simp: handle_arp_def\<close>)

lemma packet_step_state:
  assumes p: "packet_step data s = (r, s')" and ok: "net_ok s"
  shows "net_ok s' \<and> quiet_left r s'"
proof (cases "ethernet_from_bytes data")
  case (Some eth)
  then have mac: "length (src_mac eth) = 6" by (auto simp: ethernet_from_bytes_def length_field split: if_splits)
  have ipv6: "quiet_left (fst (handle_ipv6 b s)) x" for b x by (auto simp: handle_ipv6_def Let_def split: prod.split)
  have ipv6_ok: "net_ok (snd (handle_ipv6 b s))" for b using same_tables_net_ok [OF handle_ipv6_tables [of s b]] ok by simp
  show ?thesis
    using p Some ok handle_arp_state [of "drop 14 data" s r s'] handle_ipv4_state [of eth "drop 14 data" s r s', OF _ ok mac]
      ipv6 [of "drop 14 data" s'] ipv6_ok [of "drop 14 data"]
    by (auto simp: packet_step_def Let_def split: if_splits)
qed (use assms in \<open>auto simp: packet_step_def\<close>)

lemma packet_returns:
  assumes "net_ok s"
  shows "\<exists>r s'. handle_packet data s = Some (r, s') \<and> net_ok s'"
proof -
  obtain r s' where p: "packet_step data s = (r, s')" by (cases "packet_step data s")
  note st = packet_step_state [OF p assms]
  have "returns data s"
  proof (rule returnsI [OF p])
    show "net_ok s'" using st by simp
    fix q
    assume "r = Ok (Some q)"
    then show "returns q s'" using st ack_returns syn_returns unfolding quiet_left_def by blast
  qed
  then show ?thesis by (simp add: returns_def)
qed

lemma emit_tcp_tables: "same_tables s (snd (emit_tcp dst dport sport sq ak fl payload s))"
proof (cases "tcp_packet dst dport sport sq ak fl payload s")
  case (Ok p)
  show ?thesis
    using send_frame_tables [of s p] by (cases "send_frame p s") (simp add: emit_tcp_def Ok)
qed (simp_all add: emit_tcp_def)

lemma send_tcp_returns:
  assumes "net_ok s"
  shows "\<exists>r s'. send_tcp_packet_internal dst dport sport sq ak fl payload s = Some (r, s') \<and> net_ok s'"
proof -
  obtain r s' where e: "emit_tcp dst dport sport sq ak fl payload s = (r, s')" by (cases "emit_tcp dst dport sport sq ak fl payload s")
  have ok: "net_ok s'" using same_tables_net_ok [OF emit_tcp_tables [of s dst dport sport sq ak fl payload]] e assms by simp
  show ?thesis
    using e ok packet_returns [OF ok] by (auto simp: send_tcp_packet_internal_def split: res.split option.split)
qed

end
