(* ===== verification/Net_Sockets.thy ===== *)
theory Net_Sockets
  imports Net_Handling
begin

text \<open>
  The calls of the network stack: waiting for the poller (\<^verbatim>\<open>netstack/mod.rs\<close>), address resolution (\<^verbatim>\<open>arp.rs\<close>), TCP connections (\<^verbatim>\<open>tcp.rs\<close>), UDP sockets (\<^verbatim>\<open>udp.rs\<close>), ICMPv6 echo
  (\<^verbatim>\<open>ipv6.rs\<close>), and one round of the poller. A caller that waits sleeps while other tasks run: \<open>env k i\<close> is what they do to the network state, the timer included, in the \<open>i\<close>-th round of
  the \<open>k\<close>-th wait of the call. The result \<open>None\<close> is a wait that never ends.
\<close>

section \<open>Waiting\<close>

type_synonym 'a net_result = "((string, 'a) res \<times> NetState) option"
type_synonym environment = "nat \<Rightarrow> nat \<Rightarrow> NetState \<Rightarrow> NetState"

definition and_then :: "'a net_result \<Rightarrow> ('a \<Rightarrow> NetState \<Rightarrow> 'b net_result) \<Rightarrow> 'b net_result" where
  "and_then x f =
     Option.bind x (\<lambda>(r, s). case r of Ok a \<Rightarrow> f a s | Err e \<Rightarrow> Some (Err e, s) | Panic \<Rightarrow> Some (Panic, s))"

lemma and_then_Some [simp]:
  "and_then (Some (Ok a, s)) f = f a s" "and_then (Some (Err e, s)) f = Some (Err e, s)" "and_then (Some (Panic, s)) f = Some (Panic, s)"
  by (simp_all add: and_then_def)

definition register_net_waiter :: "u64 \<Rightarrow> NetState \<Rightarrow> NetState" where
  "register_net_waiter task s = (if task \<in> set (net_waiters s) then s else s\<lparr>net_waiters := net_waiters s @ [task]\<rparr>)"

definition unregister_net_waiter :: "u64 \<Rightarrow> NetState \<Rightarrow> NetState" where
  "unregister_net_waiter task s = s\<lparr>net_waiters := filter (\<lambda>i. i \<noteq> task) (net_waiters s)\<rparr>"

partial_function (option) net_wait_loop ::
  "(nat \<Rightarrow> NetState \<Rightarrow> NetState) \<Rightarrow> nat \<Rightarrow> u64 \<Rightarrow> u64 \<Rightarrow> u64 \<Rightarrow> (NetState \<Rightarrow> 'a option \<times> NetState) \<Rightarrow> NetState \<Rightarrow> 'a option net_result" where
  "net_wait_loop env i task start timeout check s =
     (if cadd (tick s) 1 = None then Some (Panic, s)
      else
        case check (env i s) of (r, s) \<Rightarrow>
          (case r of
             Some x \<Rightarrow> Some (Ok (Some x), unregister_net_waiter task s)
           | None \<Rightarrow>
               (case cmul (saturating_sub (tick s) start) 55 of
                  None \<Rightarrow> Some (Panic, s)
                | Some elapsed \<Rightarrow>
                    if timeout \<le> elapsed then Some (Ok None, unregister_net_waiter task s)
                    else net_wait_loop env (Suc i) task start timeout check s)))"

definition wait_net_condition ::
  "(nat \<Rightarrow> NetState \<Rightarrow> NetState) \<Rightarrow> u64 \<Rightarrow> u64 \<Rightarrow> (NetState \<Rightarrow> 'a option \<times> NetState) \<Rightarrow> NetState \<Rightarrow> 'a option net_result" where
  "wait_net_condition env task timeout check s =
     (case check s of (r, s) \<Rightarrow>
       (case r of
          Some x \<Rightarrow> Some (Ok (Some x), s)
        | None \<Rightarrow>
            if timeout = 0 then Some (Ok None, s)
            else let s = register_net_waiter task s in net_wait_loop env 0 task (tick s) timeout check s))"

text \<open>The wait of a call whose condition is itself a result; running out of time is an error.\<close>

definition wait_result ::
  "(nat \<Rightarrow> NetState \<Rightarrow> NetState) \<Rightarrow> u64 \<Rightarrow> u64 \<Rightarrow> string \<Rightarrow> (NetState \<Rightarrow> (string, 'a) res option \<times> NetState) \<Rightarrow> NetState \<Rightarrow> 'a net_result" where
  "wait_result env task timeout e check s =
     and_then (wait_net_condition env task timeout check s) (\<lambda>r s. case r of Some x \<Rightarrow> Some (x, s) | None \<Rightarrow> Some (Err e, s))"

section \<open>Address resolution\<close>

definition same_subnet :: "bytes \<Rightarrow> NetState \<Rightarrow> bool" where
  "same_subnet ip s \<longleftrightarrow> (\<forall>i\<in>{0, 1, 2, 3 :: nat}. ip ! i AND subnet_mask (net_config s) ! i = get_my_ip s ! i AND subnet_mask (net_config s) ! i)"

fun resolve_loop :: "environment \<Rightarrow> u64 \<Rightarrow> nat \<Rightarrow> nat \<Rightarrow> bytes \<Rightarrow> NetState \<Rightarrow> bytes net_result" where
  "resolve_loop env task k 0 ip s = Some (Err ''ARP resolve timeout'', s)"
| "resolve_loop env task k (Suc n) ip s =
     (case send_arp_request ip s of
        (Panic, s) \<Rightarrow> Some (Panic, s)
      | (_, s) \<Rightarrow>
          and_then (wait_net_condition (env k) task 1000 (\<lambda>s. (arp_lookup ip s, s)) s) (\<lambda>r s.
            case r of Some m \<Rightarrow> Some (Ok m, s) | None \<Rightarrow> resolve_loop env task (Suc k) n ip s))"

definition resolve_mac :: "environment \<Rightarrow> u64 \<Rightarrow> bytes \<Rightarrow> NetState \<Rightarrow> bytes net_result" where
  "resolve_mac env task dst s =
     (if dst = [255, 255, 255, 255] then Some (Ok BROADCAST_MAC, s)
      else
        let ip = (if same_subnet dst s then dst else gateway_ip (net_config s)) in
        case arp_lookup ip s of Some m \<Rightarrow> Some (Ok m, s) | None \<Rightarrow> resolve_loop env task 0 3 ip s)"

section \<open>TCP calls\<close>

text \<open>Remembering what was sent last, for retransmission.\<close>

definition note_unacked :: "u32 \<Rightarrow> u32 \<Rightarrow> u32 \<Rightarrow> u8 \<Rightarrow> bytes \<Rightarrow> NetState \<Rightarrow> (string, unit) res \<times> NetState" where
  "note_unacked i sq ak fl payload s =
     (case find_conn_index_by_id s i of
        None \<Rightarrow> (Ok (), s)
      | Some idx \<Rightarrow>
          ok_then (unacked sq ak fl payload (tick s)) s (\<lambda>u.
            (Ok (), s\<lparr>tcp_connections := (tcp_connections s)[idx := (tcp_connections s ! idx)\<lparr>unacked_packet := Some u\<rparr>]\<rparr>)))"

definition connect_check :: "u32 \<Rightarrow> NetState \<Rightarrow> (string, u32) res option \<times> NetState" where
  "connect_check i s =
     (case find_conn_index_by_id s i of
        None \<Rightarrow> (None, s)
      | Some idx \<Rightarrow>
          let c = tcp_connections s ! idx in
          (if tc_state c = Established then Some (Ok i) else if tc_state c = Closed then Some (Err ''connection refused'') else None, s))"

definition tcp_connect :: "environment \<Rightarrow> u64 \<Rightarrow> bytes \<Rightarrow> u16 \<Rightarrow> NetState \<Rightarrow> u32 net_result" where
  "tcp_connect env task dst dport s =
     and_then (resolve_mac env task dst s) (\<lambda>_ s.
       case alloc_conn_id s of (i, s) \<Rightarrow> case alloc_local_port s of (sport, s) \<Rightarrow> case new_connection i sport dst dport s of (c, s) \<Rightarrow>
       let s = s\<lparr>tcp_connections := tcp_connections s @ [c\<lparr>tc_state := SynSent\<rparr>]\<rparr> in
       and_then (send_tcp_packet_internal dst dport sport (seq_num c) 0 TCP_FLAG_SYN [] s) (\<lambda>_ s.
       and_then (Some (note_unacked i (seq_num c) 0 TCP_FLAG_SYN [] s)) (\<lambda>_ s.
       case wait_result (env 3) task 5000 ''connection failed'' (connect_check i) s of
         Some (Err e, s) \<Rightarrow> Some (Err e, remove_conn_by_id i s)
       | r \<Rightarrow> r)))"

definition tcp_listen :: "u16 \<Rightarrow> NetState \<Rightarrow> (string, unit) res \<times> NetState" where
  "tcp_listen port s =
     (Ok (), if port \<in> set (tcp_listen_ports s) then s else s\<lparr>tcp_listen_ports := tcp_listen_ports s @ [port]\<rparr>)"

definition accept_check :: "u16 \<Rightarrow> NetState \<Rightarrow> (string, u32) res option \<times> NetState" where
  "accept_check port s =
     (case position (\<lambda>(_, p). p = port) (tcp_pending_accept s) of
        Some pos \<Rightarrow> (Some (Ok (fst (tcp_pending_accept s ! pos))), s\<lparr>tcp_pending_accept := remove_nth pos (tcp_pending_accept s)\<rparr>)
      | None \<Rightarrow> (None, s))"

definition tcp_accept :: "environment \<Rightarrow> u64 \<Rightarrow> u64 \<Rightarrow> u16 \<Rightarrow> NetState \<Rightarrow> u32 net_result" where
  "tcp_accept env task timeout port s =
     wait_result (env 0) task (if timeout = 0 then 100 else timeout) ''timeout'' (accept_check port) s"

definition tcp_send :: "u32 \<Rightarrow> bytes \<Rightarrow> NetState \<Rightarrow> unit net_result" where
  "tcp_send i data s =
     (case find_conn_index_by_id s i of
        None \<Rightarrow> Some (Err ''no connection'', s)
      | Some idx \<Rightarrow>
          let c = tcp_connections s ! idx in
          if tc_state c \<noteq> Established then Some (Err ''connection not established'', s)
          else case cadd (seq_num c) (of_nat (length data)) of
            None \<Rightarrow> Some (Panic, s)
          | Some n \<Rightarrow>
              let s = s\<lparr>tcp_connections := (tcp_connections s)[idx := c\<lparr>seq_num := n\<rparr>]\<rparr> in
              and_then (send_tcp_packet_internal (remote_ip c) (remote_port c) (local_port c) (seq_num c) (ack_num c) (TCP_FLAG_ACK OR TCP_FLAG_PSH) data s)
                (\<lambda>_ s. Some (note_unacked i (seq_num c) (ack_num c) (TCP_FLAG_ACK OR TCP_FLAG_PSH) data s)))"

definition recv_check :: "u32 \<Rightarrow> NetState \<Rightarrow> (string, bytes) res option \<times> NetState" where
  "recv_check i s =
     (case find_conn_index_by_id s i of
        None \<Rightarrow> (Some (Err ''no connection''), s)
      | Some idx \<Rightarrow>
          let c = tcp_connections s ! idx in
          if recv_buffer c \<noteq> [] then (Some (Ok (recv_buffer c)), s\<lparr>tcp_connections := (tcp_connections s)[idx := c\<lparr>recv_buffer := []\<rparr>]\<rparr>)
          else if tc_state c = CloseWait \<or> tc_state c = Closed then (Some (Err ''connection closed''), s)
          else (None, s))"

definition tcp_recv :: "environment \<Rightarrow> u64 \<Rightarrow> u32 \<Rightarrow> u64 \<Rightarrow> NetState \<Rightarrow> bytes net_result" where
  "tcp_recv env task i timeout s = wait_result (env 0) task (if timeout = 0 then 5000 else timeout) ''timeout'' (recv_check i) s"

definition close_check :: "u32 \<Rightarrow> NetState \<Rightarrow> bool option \<times> NetState" where
  "close_check i s =
     (case find_conn_index_by_id s i of
        None \<Rightarrow> (Some True, s)
      | Some idx \<Rightarrow> (if tc_state (tcp_connections s ! idx) \<in> {TimeWait, Closed} then Some True else None, s))"

definition drop_closed :: "u32 \<Rightarrow> NetState \<Rightarrow> NetState" where
  "drop_closed i s =
     (case find_conn_index_by_id s i of
        Some idx \<Rightarrow> if tc_state (tcp_connections s ! idx) = Closed then s\<lparr>tcp_connections := remove_nth idx (tcp_connections s)\<rparr> else s
      | None \<Rightarrow> s)"

definition tcp_close :: "environment \<Rightarrow> u64 \<Rightarrow> u32 \<Rightarrow> NetState \<Rightarrow> unit net_result" where
  "tcp_close env task i s =
     (case find_conn_index_by_id s i of
        None \<Rightarrow> Some (Err ''no connection'', s)
      | Some idx \<Rightarrow>
          let c = tcp_connections s ! idx in
          if tc_state c \<noteq> Established \<and> tc_state c \<noteq> CloseWait then Some (Err ''invalid state for close'', s)
          else case cadd (seq_num c) 1 of
            None \<Rightarrow> Some (Panic, s)
          | Some n \<Rightarrow>
              let s = s\<lparr>tcp_connections := (tcp_connections s)[idx := c\<lparr>tc_state := if tc_state c = Established then FinWait1 else LastAck, seq_num := n\<rparr>]\<rparr> in
              and_then (send_tcp_packet_internal (remote_ip c) (remote_port c) (local_port c) (seq_num c) (ack_num c) (TCP_FLAG_FIN OR TCP_FLAG_ACK) [] s) (\<lambda>_ s.
              and_then (Some (note_unacked i (seq_num c) (ack_num c) (TCP_FLAG_FIN OR TCP_FLAG_ACK) [] s)) (\<lambda>_ s.
              and_then (wait_net_condition (env 0) task 5000 (close_check i) s) (\<lambda>_ s. Some (Ok (), drop_closed i s)))))"

section \<open>UDP sockets\<close>

definition send_udp_packet :: "environment \<Rightarrow> u64 \<Rightarrow> bytes \<Rightarrow> u16 \<Rightarrow> u16 \<Rightarrow> bytes \<Rightarrow> NetState \<Rightarrow> unit net_result" where
  "send_udp_packet env task dst dport sport payload s =
     and_then (resolve_mac env task dst s) (\<lambda>m s.
       Some (ok_then (udp_packet m dst dport sport payload s) s (\<lambda>p.
         case send_frame p s of (r, s) \<Rightarrow> (map_err (\<lambda>_. ''send failed'') r, s))))"

definition udp_bind :: "u16 \<Rightarrow> NetState \<Rightarrow> (string, u32) res \<times> NetState" where
  "udp_bind port s =
     (let bound = (\<lambda>p s. case alloc_conn_id s of (i, s) \<Rightarrow>
            (Ok i, s\<lparr>udp_sockets := udp_sockets s @ [\<lparr>us_id = i, us_port = p, recv_queue = []\<rparr>]\<rparr>))
      in if port = 0 then bound (udp_next_port s) (s\<lparr>udp_next_port := next_ephemeral (udp_next_port s)\<rparr>)
         else if \<exists>u\<in>set (udp_sockets s). us_port u = port then (Err ''port already in use'', s)
         else bound port s)"

definition udp_local_port :: "u32 \<Rightarrow> NetState \<Rightarrow> (string, u16) res" where
  "udp_local_port i s =
     (case position (\<lambda>u. us_id u = i) (udp_sockets s) of None \<Rightarrow> Err ''no such UDP socket'' | Some k \<Rightarrow> Ok (us_port (udp_sockets s ! k)))"

definition udp_send_to :: "environment \<Rightarrow> u64 \<Rightarrow> u32 \<Rightarrow> bytes \<Rightarrow> u16 \<Rightarrow> bytes \<Rightarrow> NetState \<Rightarrow> unit net_result" where
  "udp_send_to env task i dst dport data s =
     and_then (Some (udp_local_port i s, s)) (\<lambda>sport s. send_udp_packet env task dst dport sport data s)"

definition udp_check :: "u32 \<Rightarrow> NetState \<Rightarrow> (string, bytes \<times> u16 \<times> bytes) res option \<times> NetState" where
  "udp_check i s =
     (case position (\<lambda>u. us_id u = i) (udp_sockets s) of
        None \<Rightarrow> (Some (Err ''no such UDP socket''), s)
      | Some k \<Rightarrow>
          let u = udp_sockets s ! k in
          (case recv_queue u of
             [] \<Rightarrow> (None, s)
           | item # rest \<Rightarrow> (Some (Ok item), s\<lparr>udp_sockets := (udp_sockets s)[k := u\<lparr>recv_queue := rest\<rparr>]\<rparr>)))"

definition udp_recv_from :: "environment \<Rightarrow> u64 \<Rightarrow> u32 \<Rightarrow> u64 \<Rightarrow> NetState \<Rightarrow> (bytes \<times> u16 \<times> bytes) net_result" where
  "udp_recv_from env task i timeout s = wait_result (env 0) task (if timeout = 0 then 5000 else timeout) ''timeout'' (udp_check i) s"

definition udp_close :: "u32 \<Rightarrow> NetState \<Rightarrow> (string, unit) res \<times> NetState" where
  "udp_close i s =
     (case position (\<lambda>u. us_id u = i) (udp_sockets s) of
        None \<Rightarrow> (Err ''no such UDP socket'', s)
      | Some k \<Rightarrow> (Ok (), s\<lparr>udp_sockets := remove_nth k (udp_sockets s)\<rparr>))"

definition wait_icmpv6_echo_reply :: "environment \<Rightarrow> u64 \<Rightarrow> u64 \<Rightarrow> NetState \<Rightarrow> (u16 \<times> u16 \<times> bytes) net_result" where
  "wait_icmpv6_echo_reply env task timeout s =
     wait_result (env 0) task timeout ''timeout'' (\<lambda>s. (map_option Ok (icmpv6_echo_reply s), s\<lparr>icmpv6_echo_reply := None\<rparr>)) s"

section \<open>One round of the poller\<close>

definition time_wait_over :: "u64 \<Rightarrow> TcpConnection \<Rightarrow> bool" where
  "time_wait_over now c \<longleftrightarrow> tc_state c = TimeWait \<and> (case time_wait_deadline c of Some d \<Rightarrow> d \<le> now | None \<Rightarrow> False)"

definition expire_time_wait :: "NetState \<Rightarrow> NetState" where
  "expire_time_wait s = s\<lparr>tcp_connections := filter (\<lambda>c. \<not> time_wait_over (tick s) c) (tcp_connections s)\<rparr>"

text \<open>The scan gives the connections with their new deadlines, those to send again and those to give up.\<close>

fun retransmit_scan :: "u64 \<Rightarrow> TcpConnection list \<Rightarrow> (string, TcpConnection list \<times> (TcpConnection \<times> UnackedPacket) list \<times> u32 list) res" where
  "retransmit_scan now [] = Ok ([], [], [])"
| "retransmit_scan now (c # cs) =
     (case unacked_packet c of
        None \<Rightarrow> map_res id (\<lambda>(cs, l, k). (c # cs, l, k)) (retransmit_scan now cs)
      | Some p \<Rightarrow>
          if now < retransmit_deadline p then map_res id (\<lambda>(cs, l, k). (c # cs, l, k)) (retransmit_scan now cs)
          else if TCP_MAX_RETRANSMIT \<le> retransmit_count p then map_res id (\<lambda>(cs, l, k). (c # cs, l, tc_id c # k)) (retransmit_scan now cs)
          else
            let n = retransmit_count p + 1 in
            res_bind (or_panic (cadd now (push_bit (unat n) TCP_INITIAL_RTO_TICKS))) (\<lambda>d.
              let p = p\<lparr>retransmit_count := n, retransmit_deadline := d\<rparr>; c = c\<lparr>unacked_packet := Some p\<rparr> in
              map_res id (\<lambda>(cs, l, k). (c # cs, (c, p) # l, k)) (retransmit_scan now cs)))"

definition give_up :: "u32 \<Rightarrow> NetState \<Rightarrow> NetState" where
  "give_up i s =
     (case find_conn_index_by_id s i of
        Some idx \<Rightarrow> s\<lparr>tcp_connections := (tcp_connections s)[idx := (tcp_connections s ! idx)\<lparr>tc_state := Closed, unacked_packet := None\<rparr>]\<rparr>
      | None \<Rightarrow> s)"

fun resend :: "(TcpConnection \<times> UnackedPacket) list \<Rightarrow> NetState \<Rightarrow> unit net_result" where
  "resend [] s = Some (Ok (), s)"
| "resend ((c, p) # l) s =
     Option.bind (send_tcp_packet_internal (remote_ip c) (remote_port c) (local_port c) (up_seq p) (up_ack p) (up_flags p) (up_payload p) s) (\<lambda>(r, s).
       if r = Panic then Some (Panic, s) else resend l s)"

fun handle_frames :: "bytes list \<Rightarrow> NetState \<Rightarrow> unit net_result" where
  "handle_frames [] s = Some (Ok (), s)"
| "handle_frames (f # fs) s = and_then (handle_packet f s) (\<lambda>_ s. handle_frames fs s)"

definition poller_round :: "bytes list \<Rightarrow> NetState \<Rightarrow> unit net_result" where
  "poller_round frames s =
     and_then (handle_frames frames s) (\<lambda>_ s.
       let s = expire_time_wait s in
       case retransmit_scan (tick s) (tcp_connections s) of
         Ok (cs, l, k) \<Rightarrow> resend l (fold give_up k (s\<lparr>tcp_connections := cs\<rparr>))
       | _ \<Rightarrow> Some (Panic, s))"

section \<open>The poller and its clients make progress\<close>

lemma handle_frames_returns: "net_ok s \<Longrightarrow> \<exists>r s'. handle_frames fs s = Some (r, s') \<and> net_ok s'"
proof (induction fs arbitrary: s)
  case (Cons f fs)
  obtain r s' where h: "handle_packet f s = Some (r, s')" "net_ok s'" using packet_returns [OF Cons(2)] by blast
  then show ?case using Cons(1) [of s'] by (cases r) auto
qed simp

lemma resend_returns: "net_ok s \<Longrightarrow> \<exists>r s'. resend l s = Some (r, s') \<and> net_ok s'"
proof (induction l arbitrary: s)
  case (Cons x l)
  obtain c p where x: "x = (c, p)" by (cases x)
  obtain r s' where h: "send_tcp_packet_internal (remote_ip c) (remote_port c) (local_port c) (up_seq p) (up_ack p) (up_flags p) (up_payload p) s = Some (r, s')"
    "net_ok s'" using send_tcp_returns [OF Cons(2)] by blast
  then show ?case using Cons(1) [of s'] x by auto
qed simp

lemma retransmit_scan_ips: "retransmit_scan now cs = Ok (cs', l, k) \<Longrightarrow> map remote_ip cs' = map remote_ip cs"
proof (induction cs arbitrary: cs' l k)
  case (Cons c cs)
  then show ?case
    by (cases "retransmit_scan now cs") (auto simp: Let_def res_bind_Ok_iff split: option.splits if_splits)
qed simp

lemma net_ok_connections:
  "net_ok s \<Longrightarrow> \<forall>c\<in>set cs. length (remote_ip c) = 4 \<Longrightarrow> net_ok (s\<lparr>tcp_connections := cs\<rparr>)"
  by (simp add: net_ok_def)

lemma net_ok_give_up: "net_ok s \<Longrightarrow> net_ok (give_up i s)"
  by (auto simp: give_up_def find_conn_index_by_id_def net_ok_def dest!: position_SomeD set_update_subset_insert [THEN subsetD] split: option.splits)

lemma net_ok_fold_give_up: "net_ok s \<Longrightarrow> net_ok (fold give_up k s)"
  by (induction k arbitrary: s) (simp_all add: net_ok_give_up)

text \<open>
  C40: A round of the poller ends. Whatever frames were received and whatever is due for retransmission, handling the frames, removing expired connections, giving up and sending again
  returns; in particular the segments that the machine sends to itself, which are handled within the call that sends them and answered within that one, come to an end. The tables stay
  well-formed: the ARP cache has at most 64 entries, one for an address, each with a hardware address of six bytes, and every connection has an IPv4 address of four.
\<close>

theorem poller_round_returns:
  assumes "net_ok s"
  shows "\<exists>r s'. poller_round frames s = Some (r, s') \<and> net_ok s'"
proof -
  obtain r s1 where h: "handle_frames frames s = Some (r, s1)" "net_ok s1" using handle_frames_returns [OF assms] by blast
  show ?thesis
  proof (cases r)
    case (Ok u)
    let ?s = "expire_time_wait s1"
    have s: "net_ok ?s" using h(2) by (auto simp: expire_time_wait_def net_ok_def)
    show ?thesis
    proof (cases "retransmit_scan (tick ?s) (tcp_connections ?s)")
      case (Ok x)
      obtain cs l k where x: "x = (cs, l, k)" by (cases x)
      have "remote_ip ` set cs = remote_ip ` set (tcp_connections ?s)" using retransmit_scan_ips [OF Ok [unfolded x]] by (metis list.set_map)
      then have "net_ok (fold give_up k (?s\<lparr>tcp_connections := cs\<rparr>))"
        using s by (intro net_ok_fold_give_up net_ok_connections) (auto simp: net_ok_def dest!: equalityD1)
      from resend_returns [OF this] show ?thesis using h(1) \<open>r = Ok u\<close> Ok x by (simp add: poller_round_def)
    qed (use h(1) \<open>r = Ok u\<close> s in \<open>simp_all add: poller_round_def\<close>)
  qed (use h in \<open>simp_all add: poller_round_def\<close>)
qed

theorem poller_round_returns_witness:
  "\<exists>r s'. poller_round [arp_frame BROADCAST_MAC ARP_OP_REQUEST (replicate 6 0) [10, 0, 2, 2] (sample_host [10, 0, 2, 15] 1)] (sample_host [10, 0, 2, 2] 2) = Some (r, s') \<and> net_ok s'"
  by (rule poller_round_returns, rule net_ok_sample) simp

text \<open>A wait ends when the timer advances while the caller sleeps.\<close>

lemma net_wait_loop_returns:
  assumes env: "\<And>i s. tick s < tick (env i s)" and check: "\<And>s. tick (snd (check s)) = tick s"
  shows "\<exists>r s'. net_wait_loop env i task start timeout check s = Some (r, s')"
proof (induction "2 ^ 64 - unat (tick s)" arbitrary: i s rule: less_induct)
  case less
  obtain r s1 where c: "check (env i s) = (r, s1)" by (cases "check (env i s)")
  have t: "tick s < tick s1" using env [of s i] check [of "env i s"] c by simp
  then have "2 ^ 64 - unat (tick s1) < 2 ^ 64 - unat (tick s)" using unat_lt [of "tick s1"] by (simp add: word_less_nat_alt)
  then obtain r' s' where "net_wait_loop env (Suc i) task start timeout check s1 = Some (r', s')" using less by blast
  then show ?case by (subst net_wait_loop.simps) (simp add: c split: option.split)
qed

text \<open>What a caller's condition promises to the wait: it leaves the timer alone. Then the wait returns, whatever the other tasks do to the rest of the state.\<close>

locale net_condition =
  fixes check :: "NetState \<Rightarrow> 'a option \<times> NetState"
  assumes keeps_tick: "tick (snd (check s)) = tick s"
begin

lemma wait_returns:
  assumes "\<And>i s. tick s < tick (env i s)"
  shows "\<exists>r s'. wait_net_condition env task timeout check s = Some (r, s')"
  using net_wait_loop_returns [of env check, OF assms keeps_tick] by (auto simp: wait_net_condition_def Let_def split: prod.split option.split)

end

text \<open>A condition whose outcome is a result: the call that waits for it returns.\<close>

locale net_result_condition = net_condition check for check :: "NetState \<Rightarrow> (string, 'a) res option \<times> NetState"
begin

lemma result_returns:
  assumes "\<And>i s. tick s < tick (env i s)"
  shows "\<exists>r s'. wait_result env task timeout e check s = Some (r, s')"
proof -
  obtain r s' where "wait_net_condition env task timeout check s = Some (r, s')" using wait_returns [of env task timeout s, OF assms] by blast
  then show ?thesis by (cases r) (auto simp: wait_result_def split: option.split)
qed

end

interpretation accepting: net_result_condition "accept_check port" for port
  by unfold_locales (simp add: accept_check_def split: option.split)

interpretation receiving: net_result_condition "recv_check i" for i
  by unfold_locales (simp add: recv_check_def Let_def split: option.split)

interpretation connecting_to: net_result_condition "connect_check i" for i
  by unfold_locales (simp add: connect_check_def Let_def split: option.split)

interpretation udp_receiving: net_result_condition "udp_check i" for i
  by unfold_locales (simp add: udp_check_def Let_def split: option.split list.split)

interpretation closing: net_condition "close_check i" for i
  by unfold_locales (simp add: close_check_def split: option.split)

interpretation resolving: net_condition "\<lambda>s. (arp_lookup ip s, s)" for ip
  by unfold_locales simp

lemma tcp_accept_returns: "(\<And>k i s. tick s < tick (env k i s)) \<Longrightarrow> \<exists>r s'. tcp_accept env task timeout port s = Some (r, s')"
  by (simp add: tcp_accept_def accepting.result_returns)

lemma tcp_recv_returns: "(\<And>k i s. tick s < tick (env k i s)) \<Longrightarrow> \<exists>r s'. tcp_recv env task i timeout s = Some (r, s')"
  by (simp add: tcp_recv_def receiving.result_returns)

lemma udp_recv_from_returns: "(\<And>k i s. tick s < tick (env k i s)) \<Longrightarrow> \<exists>r s'. udp_recv_from env task i timeout s = Some (r, s')"
  by (simp add: udp_recv_from_def udp_receiving.result_returns)

lemma resolve_loop_returns: "(\<And>k i s. tick s < tick (env k i s)) \<Longrightarrow> \<exists>r s'. resolve_loop env task k n ip s = Some (r, s')"
proof (induction n arbitrary: k s)
  case (Suc n)
  obtain r s1 where a: "send_arp_request ip s = (r, s1)" by (cases "send_arp_request ip s")
  obtain r2 s2 where w: "wait_net_condition (env k) task 1000 (\<lambda>s. (arp_lookup ip s, s)) s1 = Some (r2, s2)" using resolving.wait_returns Suc(2) by blast
  show ?case using a w Suc(1) [OF Suc(2)] by (cases r; cases r2) (auto split: option.split)
qed simp

lemma resolve_mac_returns: "(\<And>k i s. tick s < tick (env k i s)) \<Longrightarrow> \<exists>r s'. resolve_mac env task dst s = Some (r, s')"
  using resolve_loop_returns [of env] by (auto simp: resolve_mac_def Let_def split: option.split)

end
