(* ===== verification/Net_Transfer.thy ===== *)
theory Net_Transfer
  imports Net_Sockets
begin

text \<open>
  Two machines run the stack and hand each other the frames they send. A connection is established by the three-way handshake, and what the client sends is what the server receives.
\<close>

section \<open>Delivering a segment\<close>

definition wired :: "NetState \<Rightarrow> bool" where
  "wired s \<longleftrightarrow> net_ok s \<and> nic_answer s = (\<lambda>_ _. Ok ())"

lemma emit_remote:
  assumes "wired s" and "length dst = 4" and "length payload \<le> 65495" and "\<not> is_local_ip dst s"
  obtains p where "tcp_packet dst dport sport sq ak fl payload s = Ok p"
    and "emit_tcp dst dport sport sq ak fl payload s = (Ok None, s\<lparr>frames_out := frames_out s @ [p]\<rparr>)"
proof -
  obtain p where "tcp_packet dst dport sport sq ak fl payload s = Ok p" using tcp_packet_ok assms(1-3) unfolding wired_def by metis
  then show thesis using assms(1,4) by (intro that [of p]) (simp_all add: emit_tcp_def send_frame_def wired_def)
qed

text \<open>A segment that gets no answer, and one that gets an answer to another machine.\<close>

lemma deliver_quiet:
  assumes "net_ok s" "length dst = 4" "length payload \<le> 65495" "tcp_packet dst dport sport sq ak fl payload s = Ok p" "is_local_ip dst s'"
    and "\<And>c. tcp_input (get_my_ip s) (segment dport sport sq ak fl c) payload (learn (get_my_ip s) (my_mac s) s') = (Ok None, s'')"
  shows "handle_packet p s' = Some (Ok (), s'')"
  using packet_step_tcp [OF assms(1-5)] assms(6) by (subst handle_packet.simps) (auto simp: answer_segment_def)

lemma deliver_answered:
  assumes "net_ok s" "length dst = 4" "length payload \<le> 65495" "tcp_packet dst dport sport sq ak fl payload s = Ok p" "is_local_ip dst s'"
    and t: "\<And>c. tcp_input (get_my_ip s) (segment dport sport sq ak fl c) payload (learn (get_my_ip s) (my_mac s) s') = (Ok (Some (d, dp, sp, sq', ak', fl')), s'')"
    and w: "wired s''" "length d = 4" "\<not> is_local_ip d s''"
  obtains q where "tcp_packet d dp sp sq' ak' fl' [] s'' = Ok q" and "handle_packet p s' = Some (Ok (), s''\<lparr>frames_out := frames_out s'' @ [q]\<rparr>)"
proof -
  obtain q where q: "tcp_packet d dp sp sq' ak' fl' [] s'' = Ok q" "emit_tcp d dp sp sq' ak' fl' [] s'' = (Ok None, s''\<lparr>frames_out := frames_out s'' @ [q]\<rparr>)"
    using emit_remote [OF w(1,2) _ w(3)] by (metis list.size(3) zero_le)
  have "handle_packet p s' = Some (Ok (), s''\<lparr>frames_out := frames_out s'' @ [q]\<rparr>)"
    using packet_step_tcp [OF assms(1-5)] t q(2) by (subst handle_packet.simps) (auto simp: answer_segment_def)
  then show thesis using that q(1) by blast
qed

section \<open>What each side does with a segment\<close>

lemma flag_tests [simp]:
  "has_flag (segment dport sport sq ak TCP_FLAG_SYN c) TCP_FLAG_SYN"
  "has_flag (segment dport sport sq ak (TCP_FLAG_SYN OR TCP_FLAG_ACK) c) TCP_FLAG_SYN"
  "has_flag (segment dport sport sq ak (TCP_FLAG_SYN OR TCP_FLAG_ACK) c) TCP_FLAG_ACK"
  "has_flag (segment dport sport sq ak TCP_FLAG_ACK c) TCP_FLAG_ACK"
  "has_flag (segment dport sport sq ak (TCP_FLAG_ACK OR TCP_FLAG_PSH) c) TCP_FLAG_ACK"
  "\<not> has_flag (segment dport sport sq ak (TCP_FLAG_ACK OR TCP_FLAG_PSH) c) TCP_FLAG_FIN"
  by (simp_all add: has_flag_def tcp_flag_defs)

definition server_conn :: "bytes \<Rightarrow> u16 \<Rightarrow> u16 \<Rightarrow> u32 \<Rightarrow> NetState \<Rightarrow> TcpConnection" where
  "server_conn sip sport dport sq s =
     \<lparr>tc_id = fst (alloc_conn_id s), tc_state = SynReceived, local_port = dport, remote_ip = sip, remote_port = sport,
      seq_num = ucast (rdrand s (rdrand_used s)), ack_num = sq + 1, recv_buffer = [], time_wait_deadline = None,
      unacked_packet = Some \<lparr>up_seq = ucast (rdrand s (rdrand_used s)), up_ack = sq + 1, up_flags = TCP_FLAG_SYN OR TCP_FLAG_ACK, up_payload = [],
        retransmit_deadline = tick s + TCP_INITIAL_RTO_TICKS, retransmit_count = 0\<rparr>\<rparr>"

lemma cadd_ok: "unat x + unat y < 2 ^ LENGTH('a) \<Longrightarrow> cadd x y = Some (x + y)"
  for x y :: "'a::len word"
  by (simp add: cadd_def)

lemma server_takes_syn:
  assumes "(sip, sport, dport) \<notin> tuples s" and "dport \<in> set (tcp_listen_ports s)" and "cadd sq 1 = Some (sq + 1)"
    and "cadd (tick s) TCP_INITIAL_RTO_TICKS = Some (tick s + TCP_INITIAL_RTO_TICKS)"
  shows "tcp_input sip (segment dport sport sq ak TCP_FLAG_SYN c) [] s =
    (Ok (Some (sip, sport, dport, ucast (rdrand s (rdrand_used s)), sq + 1, TCP_FLAG_SYN OR TCP_FLAG_ACK)),
     s\<lparr>tcp_next_id := tcp_next_id (snd (alloc_conn_id s)), rdrand_used := rdrand_used s + 1,
       tcp_connections := tcp_connections s @ [server_conn sip sport dport sq s]\<rparr>)"
  using assms find_tuple_None [of s sip sport dport]
  by (simp add: tcp_input_def accept_syn_def alloc_conn_id_def new_connection_def kernel_rdrand64_def Let_def unacked_def conn_reply_def server_conn_def res_bind_def)

lemma client_takes_syn_ack:
  assumes "find_conn_index_by_tuple s sip sport dport = Some i" and c: "tcp_connections s ! i = c" "tc_state c = SynSent" "tuple_of c = (sip, sport, dport)"
    and "cadd (seq_num c) 1 = Some ak" and "cadd sq 1 = Some (sq + 1)"
  shows "tcp_input sip (segment dport sport sq ak (TCP_FLAG_SYN OR TCP_FLAG_ACK) cs) [] s =
    (Ok (Some (sip, sport, dport, ak, sq + 1, TCP_FLAG_ACK)),
     s\<lparr>tcp_connections := (tcp_connections s)[i := c\<lparr>seq_num := ak, ack_num := sq + 1, tc_state := Established, unacked_packet := None\<rparr>]\<rparr>)"
  using assms by (simp add: tcp_input_def conn_input_def Let_def res_bind_def conn_reply_def tuple_of_def)

lemma server_takes_ack:
  assumes "find_conn_index_by_tuple s sip sport dport = Some i" and c: "tcp_connections s ! i = c" "tc_state c = SynReceived"
    and "cadd (seq_num c) 1 = Some ak"
  shows "tcp_input sip (segment dport sport sq ak TCP_FLAG_ACK cs) [] s =
    (Ok None, s\<lparr>tcp_connections := (tcp_connections s)[i := c\<lparr>seq_num := ak, tc_state := Established, unacked_packet := None\<rparr>],
                tcp_pending_accept := tcp_pending_accept s @ [(tc_id c, local_port c)]\<rparr>)"
  using assms by (simp add: tcp_input_def conn_input_def Let_def res_bind_def)

lemma server_takes_data:
  assumes "find_conn_index_by_tuple s sip sport dport = Some i" and c: "tcp_connections s ! i = c" "tc_state c = Established" "tuple_of c = (sip, sport, dport)"
    and "cadd sq (of_nat (length data)) = Some n" and "data \<noteq> []"
  shows "tcp_input sip (segment dport sport sq ak (TCP_FLAG_ACK OR TCP_FLAG_PSH) cs) data s =
    (Ok (Some (sip, sport, dport, seq_num c, n, TCP_FLAG_ACK)),
     s\<lparr>tcp_connections := (tcp_connections s)[i := c\<lparr>unacked_packet := None, recv_buffer := recv_buffer c @ data, ack_num := n\<rparr>]\<rparr>)"
  using assms by (simp add: tcp_input_def conn_input_def Let_def res_bind_def conn_reply_def tuple_of_def)

section \<open>The two machines\<close>

lemma position_snoc: "position P xs = None \<Longrightarrow> position P (xs @ [x]) = (if P x then Some (length xs) else None)"
  by (induction xs) (auto split: if_splits)

lemma position_cong_update:
  "position P xs = Some i \<Longrightarrow> P y = P (xs ! i) \<Longrightarrow> position P (xs[i := y]) = Some i"
  by (induction xs arbitrary: i) (auto split: nat.splits if_splits)

lemma learn_rest [simp]:
  "tick (learn ip m s) = tick s" "rdrand (learn ip m s) = rdrand s" "rdrand_used (learn ip m s) = rdrand_used s" "tcp_next_id (learn ip m s) = tcp_next_id s"
  "tcp_pending_accept (learn ip m s) = tcp_pending_accept s" "nic_answer (learn ip m s) = nic_answer s" "frames_out (learn ip m s) = frames_out s"
  by (simp_all add: learn_def arp_update_def Let_def split: option.split)

lemma local_cong: "net_config s' = net_config s \<Longrightarrow> is_local_ip ip s' = is_local_ip ip s"
  by (simp add: is_local_ip_def)

lemma wired_learn: "wired s \<Longrightarrow> length m = 6 \<Longrightarrow> wired (learn ip m s)"
  by (simp add: wired_def net_ok_learn)

lemma wiredD: "wired s \<Longrightarrow> net_ok s" "wired s \<Longrightarrow> length (get_my_ip s) = 4" "wired s \<Longrightarrow> length (my_mac s) = 6"
  by (simp_all add: wired_def net_ok_def)

lemma wired_cong:
  "wired s \<Longrightarrow> net_config s' = net_config s \<Longrightarrow> my_mac s' = my_mac s \<Longrightarrow> arp_cache s' = arp_cache s \<Longrightarrow> nic_answer s' = nic_answer s \<Longrightarrow>
   \<forall>c\<in>set (tcp_connections s'). length (remote_ip c) = 4 \<Longrightarrow> wired s'"
  by (simp add: wired_def net_ok_def)

lemma wired_ips: "wired s \<Longrightarrow> c \<in> set (tcp_connections s) \<Longrightarrow> length (remote_ip c) = 4"
  by (simp add: wired_def net_ok_def)

text \<open>A connection of a machine by its tuple and its number.\<close>

definition has_conn :: "NetState \<Rightarrow> nat \<Rightarrow> TcpConnection \<Rightarrow> bool" where
  "has_conn s i c \<longleftrightarrow>
     i < length (tcp_connections s) \<and> tcp_connections s ! i = c \<and> find_conn_index_by_id s (tc_id c) = Some i \<and>
     find_conn_index_by_tuple s (remote_ip c) (remote_port c) (local_port c) = Some i"

lemma has_conn_update:
  assumes "has_conn s i c" and "tc_id d = tc_id c" and "tuple_of d = tuple_of c" and "tcp_connections s' = (tcp_connections s)[i := d]"
  shows "has_conn s' i d"
  using assms
  by (auto simp: has_conn_def find_conn_index_by_id_def find_conn_index_by_tuple_def tuple_of_def intro!: position_cong_update)

lemma has_conn_cong: "tcp_connections s' = tcp_connections s \<Longrightarrow> has_conn s' i c = has_conn s i c"
  by (simp add: has_conn_def find_conn_index_by_id_def find_conn_index_by_tuple_def)

lemma has_conn_keeps [simp]:
  "has_conn (learn ip m s) i c = has_conn s i c" "has_conn (s\<lparr>frames_out := fs\<rparr>) i c = has_conn s i c" "has_conn (s\<lparr>tcp_pending_accept := q\<rparr>) i c = has_conn s i c"
  by (rule has_conn_cong, simp)+

lemma has_conn_snoc:
  assumes "tc_id c \<notin> tc_id ` set (tcp_connections s)" and "tuple_of c \<notin> tuples s" and "tcp_connections s' = tcp_connections s @ [c]"
  shows "has_conn s' (length (tcp_connections s)) c"
proof -
  have "position (\<lambda>x. tc_id x = tc_id c) (tcp_connections s) = None"
    "position (\<lambda>x. remote_ip x = remote_ip c \<and> remote_port x = remote_port c \<and> local_port x = local_port c) (tcp_connections s) = None"
    using assms(1,2) by (auto simp: position_None_iff tuples_def tuple_of_def image_iff)
  then show ?thesis using assms(3) by (simp add: has_conn_def find_conn_index_by_id_def find_conn_index_by_tuple_def position_snoc)
qed

lemma wired_update:
  assumes "wired s" and "has_conn s i c" and "tuple_of d = tuple_of c"
    and "net_config s' = net_config s" "my_mac s' = my_mac s" "arp_cache s' = arp_cache s" "nic_answer s' = nic_answer s" "tcp_connections s' = (tcp_connections s)[i := d]"
  shows "wired s'"
proof (rule wired_cong [OF assms(1,4,5,6,7)])
  have "length (remote_ip d) = 4" using assms(1-3) wired_ips [OF assms(1), of c] by (auto simp: has_conn_def tuple_of_def)
  then show "\<forall>x\<in>set (tcp_connections s'). length (remote_ip x) = 4"
    using wired_ips [OF assms(1)] assms(8) by (auto dest!: set_update_subset_insert [THEN subsetD])
qed

text \<open>A client that has sent its SYN, and a server that listens.\<close>

definition connecting :: "NetState \<Rightarrow> nat \<Rightarrow> TcpConnection \<Rightarrow> NetState \<Rightarrow> bool" where
  "connecting a i c b \<longleftrightarrow>
     wired a \<and> wired b \<and> \<not> is_local_ip (get_my_ip b) a \<and> \<not> is_local_ip (get_my_ip a) b \<and>
     has_conn a i c \<and> tc_state c = SynSent \<and> remote_ip c = get_my_ip b \<and>
     remote_port c \<in> set (tcp_listen_ports b) \<and> (get_my_ip a, local_port c, remote_port c) \<notin> tuples b \<and>
     fst (alloc_conn_id b) \<notin> tc_id ` set (tcp_connections b) \<and> remote_port c \<notin> snd ` set (tcp_pending_accept b)"

definition established :: "NetState \<Rightarrow> nat \<Rightarrow> TcpConnection \<Rightarrow> NetState \<Rightarrow> bool" where
  "established s i c peer \<longleftrightarrow>
     wired s \<and> has_conn s i c \<and> tc_state c = Established \<and> remote_ip c = get_my_ip peer \<and> \<not> is_local_ip (get_my_ip peer) s"

lemma is_local_own [simp]: "is_local_ip (get_my_ip s) s"
  by (simp add: is_local_ip_def)

lemma no_payload: "length ([] :: bytes) \<le> 65495"
  by simp

lemma syn_stage:
  assumes con: "connecting a i c b" and isn: "isn = ucast (rdrand b (rdrand_used b))"
    and n: "unat (seq_num c) + 1 < 2 ^ 32" and t: "unat (tick b) + 18 < 2 ^ 64"
  obtains f1 b' f2 j d where
    "tcp_packet (get_my_ip b) (remote_port c) (local_port c) (seq_num c) 0 TCP_FLAG_SYN [] a = Ok f1"
    "handle_packet f1 b = Some (Ok (), b'\<lparr>frames_out := frames_out b @ [f2]\<rparr>)"
    "tcp_packet (get_my_ip a) (local_port c) (remote_port c) isn (seq_num c + 1) (TCP_FLAG_SYN OR TCP_FLAG_ACK) [] b' = Ok f2"
    "wired b'" "net_config b' = net_config b" "tcp_pending_accept b' = tcp_pending_accept b"
    "has_conn b' j d" "tc_state d = SynReceived" "seq_num d = isn" "recv_buffer d = []" "tuple_of d = (get_my_ip a, local_port c, remote_port c)"
    "tc_id d = fst (alloc_conn_id b)"
proof -
  note con = con [unfolded connecting_def]
  let ?a = "get_my_ip a" and ?b = "get_my_ip b" and ?sp = "local_port c" and ?dp = "remote_port c"
  have ok: "wired a" "wired b" "\<not> is_local_ip ?b a" "\<not> is_local_ip ?a b" using con by auto
  obtain f1 where f1: "tcp_packet ?b ?dp ?sp (seq_num c) 0 TCP_FLAG_SYN [] a = Ok f1"
    using emit_remote [OF ok(1) wiredD(2) [OF ok(2)] no_payload ok(3)] .
  define bl where "bl = learn ?a (my_mac a) b"
  define d where "d = server_conn ?a ?sp ?dp (seq_num c) bl"
  define b' where "b' = bl\<lparr>tcp_next_id := tcp_next_id (snd (alloc_conn_id bl)), rdrand_used := rdrand_used bl + 1, tcp_connections := tcp_connections bl @ [d]\<rparr>"
  have bl: "wired bl" unfolding bl_def by (rule wired_learn [OF ok(2) wiredD(3) [OF ok(1)]])
  have d: "tc_id d = fst (alloc_conn_id b)" "tuple_of d = (?a, ?sp, ?dp)" "tc_state d = SynReceived" "seq_num d = isn" "recv_buffer d = []"
    by (simp_all add: d_def server_conn_def tuple_of_def bl_def isn alloc_conn_id_def Let_def)
  have adds: "cadd (seq_num c) 1 = Some (seq_num c + 1)" "cadd (tick bl) TCP_INITIAL_RTO_TICKS = Some (tick bl + TCP_INITIAL_RTO_TICKS)"
    using n t by (simp_all add: cadd_def TCP_INITIAL_RTO_TICKS_def bl_def)
  have new: "(?a, ?sp, ?dp) \<notin> tuples bl" "?dp \<in> set (tcp_listen_ports bl)" using con by (simp_all add: bl_def)
  have s: "tcp_input ?a (segment ?dp ?sp (seq_num c) 0 TCP_FLAG_SYN x) [] bl = (Ok (Some (?a, ?sp, ?dp, isn, seq_num c + 1, TCP_FLAG_SYN OR TCP_FLAG_ACK)), b')" for x
    unfolding server_takes_syn [OF new adds] b'_def d_def by (simp add: bl_def isn)
  have b': "wired b'" by (rule wired_cong [OF bl]) (use wired_ips [OF bl] d(2) wiredD(2) [OF ok(1)] in \<open>auto simp: b'_def tuple_of_def\<close>)
  have loc: "\<not> is_local_ip ?a b'" using ok(4) by (simp add: b'_def bl_def is_local_ip_def)
  obtain f2 where f2: "tcp_packet ?a ?sp ?dp isn (seq_num c + 1) (TCP_FLAG_SYN OR TCP_FLAG_ACK) [] b' = Ok f2"
      "handle_packet f1 b = Some (Ok (), b'\<lparr>frames_out := frames_out b' @ [f2]\<rparr>)"
    using deliver_answered [OF wiredD(1) [OF ok(1)] wiredD(2) [OF ok(2)] no_payload f1 is_local_own s [unfolded bl_def] b' wiredD(2) [OF ok(1)] loc] .
  have conn: "has_conn b' (length (tcp_connections bl)) d"
    by (rule has_conn_snoc) (use con d in \<open>simp_all add: b'_def bl_def\<close>)
  show thesis by (rule that [OF f1 _ f2(1) b' _ _ conn d(3,4,5,2,1)]) (use f2(2) in \<open>simp_all add: b'_def bl_def\<close>)
qed

lemma syn_ack_stage:
  assumes w: "wired a" "wired p" and c: "has_conn a i c" "tc_state c = SynSent" "remote_ip c = get_my_ip p" and far: "\<not> is_local_ip (get_my_ip p) a"
    and n: "unat (seq_num c) + 1 < 2 ^ 32" "unat sq + 1 < 2 ^ 32"
    and f: "tcp_packet (get_my_ip a) (local_port c) (remote_port c) sq (seq_num c + 1) (TCP_FLAG_SYN OR TCP_FLAG_ACK) [] p = Ok f"
  obtains a' g where "handle_packet f a = Some (Ok (), a'\<lparr>frames_out := frames_out a @ [g]\<rparr>)"
    "tcp_packet (get_my_ip p) (remote_port c) (local_port c) (seq_num c + 1) (sq + 1) TCP_FLAG_ACK [] a' = Ok g"
    "wired a'" "net_config a' = net_config a" "tick a' = tick a"
    "has_conn a' i (c\<lparr>seq_num := seq_num c + 1, ack_num := sq + 1, tc_state := Established, unacked_packet := None\<rparr>)"
proof -
  let ?p = "get_my_ip p" and ?sp = "remote_port c" and ?dp = "local_port c"
  define al d where "al = learn ?p (my_mac p) a" and "d = c\<lparr>seq_num := seq_num c + 1, ack_num := sq + 1, tc_state := Established, unacked_packet := None\<rparr>"
  define a' where "a' = al\<lparr>tcp_connections := (tcp_connections al)[i := d]\<rparr>"
  have al: "wired al" "has_conn al i c" using c(1) by (simp_all add: al_def wired_learn [OF w(1) wiredD(3) [OF w(2)]])
  have d: "tuple_of d = tuple_of c" "tc_id d = tc_id c" by (simp_all add: d_def tuple_of_def)
  have adds: "cadd (seq_num c) 1 = Some (seq_num c + 1)" "cadd sq 1 = Some (sq + 1)" using n by (simp_all add: cadd_def)
  have at: "find_conn_index_by_tuple al ?p ?sp ?dp = Some i" "tcp_connections al ! i = c" "tuple_of c = (?p, ?sp, ?dp)"
    using al(2) c(3) by (simp_all add: has_conn_def tuple_of_def)
  have s: "tcp_input ?p (segment ?dp ?sp sq (seq_num c + 1) (TCP_FLAG_SYN OR TCP_FLAG_ACK) x) [] al = (Ok (Some (?p, ?sp, ?dp, seq_num c + 1, sq + 1, TCP_FLAG_ACK)), a')" for x
    unfolding client_takes_syn_ack [OF at(1,2) c(2) at(3) adds] by (simp add: a'_def d_def)
  have a': "wired a'" by (rule wired_update [OF al d(1)]) (simp_all add: a'_def)
  have conn: "has_conn a' i d" by (rule has_conn_update [OF al(2) d(2,1)]) (simp add: a'_def)
  have loc: "\<not> is_local_ip ?p a'" using far by (simp add: a'_def al_def is_local_ip_def)
  obtain g where g: "tcp_packet ?p ?sp ?dp (seq_num c + 1) (sq + 1) TCP_FLAG_ACK [] a' = Ok g"
      "handle_packet f a = Some (Ok (), a'\<lparr>frames_out := frames_out a' @ [g]\<rparr>)"
    using deliver_answered [OF wiredD(1) [OF w(2)] wiredD(2) [OF w(1)] no_payload f is_local_own s [unfolded al_def] a' wiredD(2) [OF w(2)] loc] .
  show thesis by (rule that [OF _ g(1) a' _ _ conn [unfolded d_def]]) (use g(2) in \<open>simp_all add: a'_def al_def\<close>)
qed

lemma ack_stage:
  assumes w: "wired b" "wired p" and d: "has_conn b j d" "tc_state d = SynReceived" "remote_ip d = get_my_ip p" and n: "unat (seq_num d) + 1 < 2 ^ 32"
    and f: "tcp_packet (get_my_ip b) (local_port d) (remote_port d) sq (seq_num d + 1) TCP_FLAG_ACK [] p = Ok f"
  obtains b' where "handle_packet f b = Some (Ok (), b')" "wired b'" "net_config b' = net_config b"
    "tcp_pending_accept b' = tcp_pending_accept b @ [(tc_id d, local_port d)]"
    "has_conn b' j (d\<lparr>seq_num := seq_num d + 1, tc_state := Established, unacked_packet := None\<rparr>)"
proof -
  let ?p = "get_my_ip p"
  define bl e where "bl = learn ?p (my_mac p) b" and "e = d\<lparr>seq_num := seq_num d + 1, tc_state := Established, unacked_packet := None\<rparr>"
  define b' where "b' = bl\<lparr>tcp_connections := (tcp_connections bl)[j := e], tcp_pending_accept := tcp_pending_accept bl @ [(tc_id d, local_port d)]\<rparr>"
  have bl: "wired bl" "has_conn bl j d" using d(1) by (simp_all add: bl_def wired_learn [OF w(1) wiredD(3) [OF w(2)]])
  have e: "tuple_of e = tuple_of d" "tc_id e = tc_id d" by (simp_all add: e_def tuple_of_def)
  have adds: "cadd (seq_num d) 1 = Some (seq_num d + 1)" using n by (simp add: cadd_def)
  have at: "find_conn_index_by_tuple bl ?p (remote_port d) (local_port d) = Some j" "tcp_connections bl ! j = d"
    using bl(2) d(3) by (simp_all add: has_conn_def)
  have s: "tcp_input ?p (segment (local_port d) (remote_port d) sq (seq_num d + 1) TCP_FLAG_ACK x) [] bl = (Ok None, b')" for x
    unfolding server_takes_ack [OF at d(2) adds] by (simp add: b'_def e_def)
  have h: "handle_packet f b = Some (Ok (), b')"
    by (rule deliver_quiet [OF wiredD(1) [OF w(2)] wiredD(2) [OF w(1)] no_payload f is_local_own s [unfolded bl_def]])
  have b': "wired b'" by (rule wired_update [OF bl e(1)]) (simp_all add: b'_def)
  have conn: "has_conn b' j e" by (rule has_conn_update [OF bl(2) e(2,1)]) (simp add: b'_def)
  show thesis by (rule that [OF h b' _ _ conn [unfolded e_def]]) (simp_all add: b'_def bl_def)
qed

lemma data_stage:
  assumes est: "established b j d p" "wired p" and n: "unat sq + length data < 2 ^ 32" and data: "data \<noteq> []" "length data \<le> 65495"
    and f: "tcp_packet (get_my_ip b) (local_port d) (remote_port d) sq ak (TCP_FLAG_ACK OR TCP_FLAG_PSH) data p = Ok f"
  obtains b' e where "handle_packet f b = Some (Ok (), b')" "has_conn b' j e" "recv_buffer e = recv_buffer d @ data" "tc_id e = tc_id d"
    "ack_num e = sq + of_nat (length data)" "tcp_pending_accept b' = tcp_pending_accept b"
proof -
  let ?p = "get_my_ip p" and ?n = "sq + of_nat (length data)"
  have w: "wired b" and d: "has_conn b j d" "tc_state d = Established" "remote_ip d = ?p" and far: "\<not> is_local_ip ?p b"
    using est(1) by (simp_all add: established_def)
  define bl e where "bl = learn ?p (my_mac p) b" and "e = d\<lparr>unacked_packet := None, recv_buffer := recv_buffer d @ data, ack_num := ?n\<rparr>"
  define b' where "b' = bl\<lparr>tcp_connections := (tcp_connections bl)[j := e]\<rparr>"
  have bl: "wired bl" "has_conn bl j d" using d(1) by (simp_all add: bl_def wired_learn [OF w wiredD(3) [OF est(2)]])
  have e: "tuple_of e = tuple_of d" "tc_id e = tc_id d" by (simp_all add: e_def tuple_of_def)
  have adds: "cadd sq (of_nat (length data)) = Some ?n" using n data(2) by (simp add: cadd_def unat_of_nat)
  have at: "find_conn_index_by_tuple bl ?p (remote_port d) (local_port d) = Some j" "tcp_connections bl ! j = d" "tuple_of d = (?p, remote_port d, local_port d)"
    using bl(2) d(3) by (simp_all add: has_conn_def tuple_of_def)
  have s: "tcp_input ?p (segment (local_port d) (remote_port d) sq ak (TCP_FLAG_ACK OR TCP_FLAG_PSH) x) data bl =
      (Ok (Some (?p, remote_port d, local_port d, seq_num d, ?n, TCP_FLAG_ACK)), b')" for x
    unfolding server_takes_data [OF at(1,2) d(2) at(3) adds data(1)] by (simp add: b'_def e_def)
  have b': "wired b'" by (rule wired_update [OF bl e(1)]) (simp_all add: b'_def)
  have conn: "has_conn b' j e" by (rule has_conn_update [OF bl(2) e(2,1)]) (simp add: b'_def)
  have loc: "\<not> is_local_ip ?p b'" using far by (simp add: b'_def bl_def is_local_ip_def)
  obtain g where g: "handle_packet f b = Some (Ok (), b'\<lparr>frames_out := frames_out b' @ [g]\<rparr>)"
    using deliver_answered [OF wiredD(1) [OF est(2)] wiredD(2) [OF w] data(2) f is_local_own s [unfolded bl_def] b' wiredD(2) [OF est(2)] loc] .
  show thesis
    by (rule that [OF g, of e]) (use conn in \<open>simp_all add: e_def b'_def bl_def\<close>)
qed

lemma send_stage:
  assumes est: "established a i c p" and p: "wired p" and n: "unat (seq_num c) + length data < 2 ^ 32" and data: "length data \<le> 65495" and t: "unat (tick a) + 18 < 2 ^ 64"
  obtains a' a2 f where "tcp_send (tc_id c) data a = Some (Ok (), a2)" "frames_out a2 = frames_out a @ [f]" "wired a'" "net_config a' = net_config a"
    "tcp_packet (get_my_ip p) (remote_port c) (local_port c) (seq_num c) (ack_num c) (TCP_FLAG_ACK OR TCP_FLAG_PSH) data a' = Ok f"
proof -
  have w: "wired a" and c: "has_conn a i c" "tc_state c = Established" "remote_ip c = get_my_ip p" and far: "\<not> is_local_ip (get_my_ip p) a"
    using est by (simp_all add: established_def)
  define d where "d = c\<lparr>seq_num := seq_num c + of_nat (length data)\<rparr>"
  define a' where "a' = a\<lparr>tcp_connections := (tcp_connections a)[i := d]\<rparr>"
  have d: "tuple_of d = tuple_of c" "tc_id d = tc_id c" by (simp_all add: d_def tuple_of_def)
  have a': "wired a'" by (rule wired_update [OF w c(1) d(1)]) (simp_all add: a'_def)
  have conn: "has_conn a' i d" by (rule has_conn_update [OF c(1) d(2,1)]) (simp add: a'_def)
  have loc: "\<not> is_local_ip (get_my_ip p) a'" using far by (simp add: a'_def is_local_ip_def)
  obtain f where f: "tcp_packet (get_my_ip p) (remote_port c) (local_port c) (seq_num c) (ack_num c) (TCP_FLAG_ACK OR TCP_FLAG_PSH) data a' = Ok f"
      "emit_tcp (get_my_ip p) (remote_port c) (local_port c) (seq_num c) (ack_num c) (TCP_FLAG_ACK OR TCP_FLAG_PSH) data a' = (Ok None, a'\<lparr>frames_out := frames_out a' @ [f]\<rparr>)"
    using emit_remote [OF a' wiredD(2) [OF p] data loc] .
  have adds: "cadd (seq_num c) (of_nat (length data)) = Some (seq_num c + of_nat (length data))"
      "cadd (tick a) TCP_INITIAL_RTO_TICKS = Some (tick a + TCP_INITIAL_RTO_TICKS)"
    using n data t by (simp_all add: cadd_def unat_of_nat TCP_INITIAL_RTO_TICKS_def)
  have at: "find_conn_index_by_id a (tc_id c) = Some i" "tcp_connections a ! i = c" using c(1) by (simp_all add: has_conn_def)
  let ?s = "a'\<lparr>frames_out := frames_out a' @ [f]\<rparr>"
  have "find_conn_index_by_id ?s (tc_id c) = Some i" "tick ?s = tick a"
    using conn d(2) by (simp_all add: has_conn_def find_conn_index_by_id_def a'_def)
  then obtain a2 where sent: "note_unacked (tc_id c) (seq_num c) (ack_num c) (TCP_FLAG_ACK OR TCP_FLAG_PSH) data ?s = (Ok (), a2)" "frames_out a2 = frames_out a @ [f]"
    using adds(2) by (simp add: note_unacked_def unacked_def res_bind_def a'_def)
  have "tcp_send (tc_id c) data a = Some (Ok (), a2)"
    using f(2) sent(1) by (simp add: tcp_send_def at c(2,3) adds(1) send_tcp_packet_internal_def a'_def [symmetric] d_def [symmetric])
  then show thesis using that sent(2) a' f(1) by (simp add: a'_def)
qed

lemma receive_stage:
  assumes d: "has_conn b j d" "recv_buffer d = data" and data: "data \<noteq> []" and q: "tcp_pending_accept b = q @ [(tc_id d, port)]" "port \<notin> snd ` set q"
  shows "\<exists>b4 b5. tcp_accept env task t port b = Some (Ok (tc_id d), b4) \<and> tcp_recv env task (tc_id d) t' b4 = Some (Ok data, b5)"
proof -
  have "position (\<lambda>(_, p). p = port) q = None" using q(2) by (force simp: position_None_iff)
  then have pos: "position (\<lambda>(_, p). p = port) (tcp_pending_accept b) = Some (length q)" unfolding q(1) by (simp add: position_snoc)
  have el: "fst (tcp_pending_accept b ! length q) = tc_id d" by (simp add: q(1))
  let ?b = "b\<lparr>tcp_pending_accept := remove_nth (length q) (tcp_pending_accept b)\<rparr>"
  have "tcp_accept env task t port b = Some (Ok (tc_id d), ?b)"
    by (simp add: tcp_accept_def wait_result_def wait_net_condition_def accept_check_def pos el)
  moreover have "find_conn_index_by_id ?b (tc_id d) = Some j" "tcp_connections ?b ! j = d"
    using d(1) by (simp_all add: has_conn_def find_conn_index_by_id_def)
  then have "\<exists>b5. tcp_recv env task (tc_id d) t' ?b = Some (Ok data, b5)"
    using d(2) data by (simp add: tcp_recv_def wait_result_def wait_net_condition_def recv_check_def)
  ultimately show ?thesis by blast
qed

lemma handshake:
  assumes con: "connecting a i c b"
    and n: "unat (seq_num c) + 1 < 2 ^ 32" "unat (ucast (rdrand b (rdrand_used b)) :: u32) + 1 < 2 ^ 32" and t: "unat (tick b) + 18 < 2 ^ 64"
  obtains f1 b1 f2 a1 f3 b2 c1 j d where
    "tcp_packet (remote_ip c) (remote_port c) (local_port c) (seq_num c) 0 TCP_FLAG_SYN [] a = Ok f1"
    "handle_packet f1 b = Some (Ok (), b1)" "frames_out b1 = frames_out b @ [f2]"
    "handle_packet f2 a = Some (Ok (), a1)" "frames_out a1 = frames_out a @ [f3]" "handle_packet f3 b1 = Some (Ok (), b2)"
    "established a1 i c1 b" "established b2 j d a" "get_my_ip a1 = get_my_ip a" "get_my_ip b2 = get_my_ip b" "tick a1 = tick a"
    "tc_id c1 = tc_id c" "tuple_of c1 = tuple_of c" "seq_num c1 = seq_num c + 1" "tuple_of d = (get_my_ip a, local_port c, remote_port c)" "recv_buffer d = []"
    "tcp_pending_accept b2 = tcp_pending_accept b @ [(tc_id d, remote_port c)]"
proof -
  let ?isn = "ucast (rdrand b (rdrand_used b)) :: u32"
  have w: "wired a" "wired b" "has_conn a i c" "tc_state c = SynSent" "remote_ip c = get_my_ip b" "\<not> is_local_ip (get_my_ip b) a" "\<not> is_local_ip (get_my_ip a) b"
    using con by (simp_all add: connecting_def)
  obtain f1 b' f2 j d where s1: "tcp_packet (get_my_ip b) (remote_port c) (local_port c) (seq_num c) 0 TCP_FLAG_SYN [] a = Ok f1"
    "handle_packet f1 b = Some (Ok (), b'\<lparr>frames_out := frames_out b @ [f2]\<rparr>)"
    "tcp_packet (get_my_ip a) (local_port c) (remote_port c) ?isn (seq_num c + 1) (TCP_FLAG_SYN OR TCP_FLAG_ACK) [] b' = Ok f2"
    "wired b'" "net_config b' = net_config b" "tcp_pending_accept b' = tcp_pending_accept b"
    and d: "has_conn b' j d" "tc_state d = SynReceived" "seq_num d = ?isn" "recv_buffer d = []" "tuple_of d = (get_my_ip a, local_port c, remote_port c)"
    using syn_stage [OF con refl n(1) t] .
  have ipb: "get_my_ip b' = get_my_ip b" using s1(5) by simp
  obtain a' f3 where s2: "handle_packet f2 a = Some (Ok (), a'\<lparr>frames_out := frames_out a @ [f3]\<rparr>)"
    "tcp_packet (get_my_ip b') (remote_port c) (local_port c) (seq_num c + 1) (?isn + 1) TCP_FLAG_ACK [] a' = Ok f3"
    "wired a'" "net_config a' = net_config a" "tick a' = tick a"
    "has_conn a' i (c\<lparr>seq_num := seq_num c + 1, ack_num := ?isn + 1, tc_state := Established, unacked_packet := None\<rparr>)"
    using syn_ack_stage [OF w(1) s1(4) w(3,4) trans [OF w(5) ipb [symmetric]] w(6) [folded ipb] n s1(3)] .
  let ?b1 = "b'\<lparr>frames_out := frames_out b @ [f2]\<rparr>" and ?a1 = "a'\<lparr>frames_out := frames_out a @ [f3]\<rparr>"
  have b1: "wired ?b1" "has_conn ?b1 j d" using s1(4) d(1) by (simp_all add: wired_def net_ok_def)
  have tup: "remote_ip d = get_my_ip a'" "remote_port d = local_port c" "local_port d = remote_port c" using d(5) s2(4) by (simp_all add: tuple_of_def)
  have f3: "tcp_packet (get_my_ip ?b1) (local_port d) (remote_port d) (seq_num c + 1) (seq_num d + 1) TCP_FLAG_ACK [] a' = Ok f3"
    using s2(2) tup d(3) by simp
  obtain b2 where s3: "handle_packet f3 ?b1 = Some (Ok (), b2)" "wired b2" "net_config b2 = net_config ?b1"
    "tcp_pending_accept b2 = tcp_pending_accept ?b1 @ [(tc_id d, local_port d)]"
    "has_conn b2 j (d\<lparr>seq_num := seq_num d + 1, tc_state := Established, unacked_packet := None\<rparr>)"
    using ack_stage [OF b1(1) s2(3) b1(2) d(2) tup(1) _ f3] n(2) d(3) by auto
  have "wired ?a1" using s2(3) by (simp add: wired_def net_ok_def)
  then have ea: "established ?a1 i (c\<lparr>seq_num := seq_num c + 1, ack_num := ?isn + 1, tc_state := Established, unacked_packet := None\<rparr>) b"
    using s2(4,6) w(5,6) by (simp add: established_def is_local_ip_def)
  have eb: "established b2 j (d\<lparr>seq_num := seq_num d + 1, tc_state := Established, unacked_packet := None\<rparr>) a"
    using s3(2,3,5) tup(1) s1(5) s2(4) w(7) by (simp add: established_def is_local_ip_def)
  show thesis
    by (rule that [OF _ s1(2) _ s2(1) _ s3(1) ea eb]) (use s1 s2(4,5) s3(3,4) d tup w(5) in \<open>simp_all add: tuple_of_def\<close>)
qed


definition sample_conn :: TcpConnection where
  "sample_conn = \<lparr>tc_id = 1, tc_state = SynSent, local_port = 49152, remote_ip = [10, 0, 2, 2], remote_port = 80, seq_num = 7, ack_num = 0, recv_buffer = [],
     time_wait_deadline = None, unacked_packet = None\<rparr>"

definition sample_client :: NetState where
  "sample_client = (sample_host [10, 0, 2, 15] 1)\<lparr>tcp_connections := [sample_conn], tcp_next_id := 2\<rparr>"

definition sample_server :: NetState where
  "sample_server = (sample_host [10, 0, 2, 2] 2)\<lparr>tcp_listen_ports := [80]\<rparr>"

lemma sample_connecting: "connecting sample_client 0 sample_conn sample_server"
  by (simp add: connecting_def wired_def net_ok_def has_conn_def find_conn_index_by_id_def find_conn_index_by_tuple_def is_local_ip_def LOOPBACK_IP_def tuples_def
    alloc_conn_id_def sample_client_def sample_server_def sample_conn_def sample_host_def net_init_def default_config_def)


section \<open>A segment that stops the machine\<close>

text \<open>Sequence numbers are added with overflow checks: a SYN with the last number for a listening port is a panic.\<close>

lemma last_number_panics:
  assumes "(sip, sport, dport) \<notin> tuples s" and "dport \<in> set (tcp_listen_ports s)"
  shows "fst (tcp_input sip (segment dport sport (- 1) ak TCP_FLAG_SYN c) [] s) = Panic"
proof -
  have "cadd (- 1) (1 :: u32) = None" by (simp add: cadd_def unsigned_minus_1_eq_mask mask_eq_exp_minus_1)
  then show ?thesis
    using assms find_tuple_None [of s sip sport dport]
    by (simp add: tcp_input_def accept_syn_def split: prod.split)
qed

text \<open>A bare acknowledgement, padded to the least length of a frame, adds its padding to the data received.\<close>

lemma padding_received:
  assumes "has_conn s i c" and "tc_state c = Established" and "cadd sq (of_nat (length pad)) = Some n" and "pad \<noteq> []"
  shows "recv_buffer (tcp_connections (snd (tcp_input (remote_ip c) (segment (local_port c) (remote_port c) sq ak TCP_FLAG_ACK x) pad s)) ! i) = recv_buffer c @ pad"
  using assms by (simp add: has_conn_def tcp_input_def conn_input_def Let_def has_flag_def tcp_flag_defs)

end
