(* ===== verification/Net_Names.thy ===== *)
theory Net_Names
  imports Net_Transfer
begin

text \<open>
  The clients that configure the machine and look up names: \<^verbatim>\<open>netstack/dns.rs\<close> and \<^verbatim>\<open>netstack/dhcp.rs\<close>. An index into a received message that is out of range would be a panic; the lemmas show
  that there is none, and that the loops over names and options end.
\<close>

section \<open>DNS\<close>

definition DNS_PORT :: u16 where "DNS_PORT = 53"
definition DNS_TYPE_A :: u16 where "DNS_TYPE_A = 1"
definition DNS_CLASS_IN :: u16 where "DNS_CLASS_IN = 1"

fun dns_labels :: "string list \<Rightarrow> (string, bytes) res" where
  "dns_labels [] = Ok []"
| "dns_labels (l # ls) =
     (if length l > 63 then Err ''DNS label too long''
      else if l = [] then dns_labels ls
      else map_res id (\<lambda>r. of_nat (length l) # bytes_of_string l @ r) (dns_labels ls))"

definition build_dns_query :: "u16 \<Rightarrow> string \<Rightarrow> (string, bytes) res" where
  "build_dns_query query_id domain =
     map_res id
       (\<lambda>q. be16 query_id @ [0x01, 0x00] @ [0x00, 0x01] @ [0x00, 0x00] @ [0x00, 0x00] @ [0x00, 0x00] @ q @ [0x00] @ be16 DNS_TYPE_A @ be16 DNS_CLASS_IN)
       (dns_labels (split_on (CHR ''.'') domain))"

definition byte_at :: "bytes \<Rightarrow> nat \<Rightarrow> (string, u8) res" where
  "byte_at data i = (if i < length data then Ok (data ! i) else Panic)"

definition be16_at :: "bytes \<Rightarrow> nat \<Rightarrow> (string, u16) res" where
  "be16_at data i = res_bind (byte_at data i) (\<lambda>x. res_bind (byte_at data (i + 1)) (\<lambda>y. Ok (from_be [x, y])))"

function skip_dns_name :: "bytes \<Rightarrow> nat \<Rightarrow> (string, nat) res" where
  "skip_dns_name data offset =
     (if offset \<ge> length data then Err ''DNS name out of bounds''
      else
        let len = data ! offset in
        if len = 0 then Ok (offset + 1)
        else if len AND 0xC0 = 0xC0 then Ok (offset + 2)
        else skip_dns_name data (offset + (1 + unat len)))"
  by pat_completeness auto
termination
  by (relation "measure (\<lambda>(data, offset). length data - offset)") auto

declare skip_dns_name.simps [simp del]

fun skip_questions :: "bytes \<Rightarrow> nat \<Rightarrow> nat \<Rightarrow> (string, nat) res" where
  "skip_questions data 0 offset = Ok offset"
| "skip_questions data (Suc n) offset = res_bind (skip_dns_name data offset) (\<lambda>offset. skip_questions data n (offset + 4))"

fun parse_answers :: "bytes \<Rightarrow> nat \<Rightarrow> nat \<Rightarrow> (string, bytes) res" where
  "parse_answers data 0 offset = Err ''No A record found''"
| "parse_answers data (Suc n) offset =
     res_bind (skip_dns_name data offset) (\<lambda>offset.
       if offset + 10 > length data then Err ''DNS answer truncated''
       else
         res_bind (be16_at data offset) (\<lambda>rtype.
         res_bind (be16_at data (offset + 2)) (\<lambda>rclass.
         res_bind (be16_at data (offset + 8)) (\<lambda>rdlength.
           let offset = offset + 10 in
           if offset + unat rdlength > length data then Err ''DNS RDATA truncated''
           else if rtype = DNS_TYPE_A \<and> rclass = DNS_CLASS_IN \<and> rdlength = 4 then
             res_bind (byte_at data offset) (\<lambda>a. res_bind (byte_at data (offset + 1)) (\<lambda>b.
             res_bind (byte_at data (offset + 2)) (\<lambda>c. res_bind (byte_at data (offset + 3)) (\<lambda>d. Ok [a, b, c, d]))))
           else parse_answers data n (offset + unat rdlength)))))"

definition parse_dns_response :: "bytes \<Rightarrow> (string, bytes) res" where
  "parse_dns_response data =
     (if length data < 12 then Err ''DNS response too short''
      else
        res_bind (be16_at data 2) (\<lambda>flags.
        if flags AND 0x000F \<noteq> 0 then Err ''DNS query failed''
        else
          res_bind (be16_at data 4) (\<lambda>qdcount.
          res_bind (be16_at data 6) (\<lambda>ancount.
          if ancount = 0 then Err ''No DNS answer''
          else res_bind (skip_questions data (unat qdcount) 12) (parse_answers data (unat ancount))))))"

definition dns_check :: "u16 \<Rightarrow> u16 \<Rightarrow> NetState \<Rightarrow> (string, bytes) res option \<times> NetState" where
  "dns_check src_port query_id s =
     ((case udp_response s of
         Some (port, data) \<Rightarrow>
           if port = src_port \<and> 12 \<le> length data \<and> from_be (field data 0 2) = query_id then Some (parse_dns_response data) else None
       | None \<Rightarrow> None), s)"

fun dns_attempts :: "environment \<Rightarrow> u64 \<Rightarrow> nat \<Rightarrow> nat \<Rightarrow> u16 \<Rightarrow> u16 \<Rightarrow> bytes \<Rightarrow> NetState \<Rightarrow> bytes net_result" where
  "dns_attempts env task k 0 src_port query_id query s = Some (Err ''DNS query timeout'', s)"
| "dns_attempts env task k (Suc n) src_port query_id query s =
     (let s = s\<lparr>udp_response := None\<rparr> in
      and_then (send_udp_packet (\<lambda>w. env (k + w)) task (dns_server_ip (net_config s)) DNS_PORT src_port query s) (\<lambda>_ s.
      and_then (wait_net_condition (env (k + 3)) task 5000 (dns_check src_port query_id) s) (\<lambda>r s.
        case r of Some x \<Rightarrow> Some (x, s) | None \<Rightarrow> dns_attempts env task (k + 4) n src_port query_id query s)))"

definition dns_lookup :: "environment \<Rightarrow> u64 \<Rightarrow> string \<Rightarrow> NetState \<Rightarrow> bytes net_result" where
  "dns_lookup env task domain s =
     (case kernel_rdrand64 s of (q, s) \<Rightarrow> case kernel_rdrand64 s of (p, s) \<Rightarrow>
       let query_id = ucast q; src_port = 49152 + ucast p mod (65535 - 49152) in
       and_then (Some (build_dns_query query_id domain, s)) (\<lambda>query s. dns_attempts env task 0 2 src_port query_id query s))"

section \<open>DHCP\<close>

definition DHCP_SERVER_PORT :: u16 where "DHCP_SERVER_PORT = 67"
definition DHCP_CLIENT_PORT :: u16 where "DHCP_CLIENT_PORT = 68"
definition DHCP_MAGIC_COOKIE :: bytes where "DHCP_MAGIC_COOKIE = [99, 130, 83, 99]"
definition DHCP_MSG_OFFER :: u8 where "DHCP_MSG_OFFER = 2"
definition DHCP_MSG_ACK :: u8 where "DHCP_MSG_ACK = 5"

record DhcpResponse =
  msg_type :: u8
  your_ip :: bytes
  server_ip :: bytes
  dhcp_mask :: bytes
  dhcp_gateway :: bytes
  dhcp_dns :: bytes

definition dhcp_udp_packet :: "bytes \<Rightarrow> bytes \<Rightarrow> u16 \<Rightarrow> u16 \<Rightarrow> bytes \<Rightarrow> NetState \<Rightarrow> (string, bytes) res" where
  "dhcp_udp_packet src dst sport dport payload s =
     (let udp_length = 8 + length payload;
          h = \<lparr>udp_src_port = be16 sport, udp_dst_port = be16 dport, udp_length = be16 (of_nat udp_length), udp_checksum = [0, 0]\<rparr>;
          eth = \<lparr>dst_mac = BROADCAST_MAC, src_mac = my_mac s, ethertype = be16 ETHERTYPE_IPV4\<rparr>
      in res_bind (ipv4_checked (ipv4_header [0, 0] IP_PROTO_UDP (20 + udp_length) src dst)) (\<lambda>ip.
           Ok (ethernet_bytes eth @ ip @ udp_bytes h @ payload)))"

definition send_dhcp_udp_packet :: "bytes \<Rightarrow> bytes \<Rightarrow> u16 \<Rightarrow> u16 \<Rightarrow> bytes \<Rightarrow> NetState \<Rightarrow> (string, unit) res \<times> NetState" where
  "send_dhcp_udp_packet src dst sport dport payload s =
     ok_then (dhcp_udp_packet src dst sport dport payload s) s (\<lambda>p.
       case send_frame p s of (r, s) \<Rightarrow> (map_err (\<lambda>_. ''send failed'') r, s))"

text \<open>The fixed fields and the cookie are the same in both messages.\<close>

definition dhcp_fixed :: "bytes \<Rightarrow> u32 \<Rightarrow> bytes" where
  "dhcp_fixed m xid =
     [1, 1, 6, 0] @ be32 xid @ be16 0 @ be16 0x8000 @ replicate 4 0 @ replicate 4 0 @ replicate 4 0 @ replicate 4 0 @ m @ replicate 10 0 @
     replicate 64 0 @ replicate 128 0 @ DHCP_MAGIC_COOKIE"

definition build_dhcp_discover :: "bytes \<Rightarrow> u32 \<Rightarrow> bytes" where
  "build_dhcp_discover m xid = dhcp_fixed m xid @ [53, 1, 1] @ [55, 3, 1, 3, 6] @ [255]"

definition build_dhcp_request :: "bytes \<Rightarrow> u32 \<Rightarrow> bytes \<Rightarrow> bytes \<Rightarrow> bytes" where
  "build_dhcp_request m xid offered server =
     dhcp_fixed m xid @ [53, 1, 3] @ [50, 4] @ offered @ [54, 4] @ server @ [55, 3, 1, 3, 6] @ [255]"

definition dhcp_option :: "u8 \<Rightarrow> bytes \<Rightarrow> DhcpResponse \<Rightarrow> DhcpResponse" where
  "dhcp_option t d r =
     (if t = 53 \<and> 1 \<le> length d then r\<lparr>msg_type := d ! 0\<rparr>
      else if t = 1 \<and> 4 \<le> length d then r\<lparr>dhcp_mask := take 4 d\<rparr>
      else if t = 3 \<and> 4 \<le> length d then r\<lparr>dhcp_gateway := take 4 d\<rparr>
      else if t = 6 \<and> 4 \<le> length d then r\<lparr>dhcp_dns := take 4 d\<rparr>
      else if t = 54 \<and> 4 \<le> length d then r\<lparr>server_ip := take 4 d\<rparr>
      else r)"

fun dhcp_options :: "bytes \<Rightarrow> DhcpResponse \<Rightarrow> DhcpResponse" where
  "dhcp_options [] r = r"
| "dhcp_options [t] r = r"
| "dhcp_options (t # l # b) r =
     (if t = 255 then r
      else if t = 0 then dhcp_options (l # b) r
      else if length b < unat l then r
      else dhcp_options (drop (unat l) b) (dhcp_option t (take (unat l) b) r))"

definition parse_dhcp_response :: "bytes \<Rightarrow> DhcpResponse option" where
  "parse_dhcp_response data =
     (if length data < 240 then None
      else if data ! 0 \<noteq> 2 then None
      else if field data 236 4 \<noteq> DHCP_MAGIC_COOKIE then None
      else
        let r = dhcp_options (drop 240 data)
          \<lparr>msg_type = 0, your_ip = field data 16 4, server_ip = replicate 4 0, dhcp_mask = [255, 255, 255, 0], dhcp_gateway = replicate 4 0, dhcp_dns = replicate 4 0\<rparr>
        in if msg_type r = 0 then None else Some r)"

fun dhcp_pop :: "u32 \<Rightarrow> u8 \<Rightarrow> (bytes \<times> u16 \<times> bytes) list \<Rightarrow> DhcpResponse option \<times> (bytes \<times> u16 \<times> bytes) list" where
  "dhcp_pop xid expected [] = (None, [])"
| "dhcp_pop xid expected ((ip, port, data) # q) =
     (case parse_dhcp_response data of
        Some r \<Rightarrow>
          if 8 \<le> length data \<and> from_be (field data 4 4) = xid \<and> msg_type r = expected then (Some r, q) else dhcp_pop xid expected q
      | None \<Rightarrow> dhcp_pop xid expected q)"

definition dhcp_check :: "u32 \<Rightarrow> u32 \<Rightarrow> u8 \<Rightarrow> NetState \<Rightarrow> (string, DhcpResponse) res option \<times> NetState" where
  "dhcp_check sock xid expected s =
     (case position (\<lambda>u. us_id u = sock) (udp_sockets s) of
        None \<Rightarrow> (None, s)
      | Some k \<Rightarrow>
          case dhcp_pop xid expected (recv_queue (udp_sockets s ! k)) of (r, q) \<Rightarrow>
            (map_option Ok r, s\<lparr>udp_sockets := (udp_sockets s)[k := (udp_sockets s ! k)\<lparr>recv_queue := q\<rparr>]\<rparr>))"

definition wait_dhcp_response :: "(nat \<Rightarrow> NetState \<Rightarrow> NetState) \<Rightarrow> u64 \<Rightarrow> u32 \<Rightarrow> u32 \<Rightarrow> u8 \<Rightarrow> u64 \<Rightarrow> NetState \<Rightarrow> DhcpResponse net_result" where
  "wait_dhcp_response env task sock xid expected timeout s = wait_result env task timeout ''DHCP timeout'' (dhcp_check sock xid expected) s"

definition dhcp_discover :: "environment \<Rightarrow> u64 \<Rightarrow> NetState \<Rightarrow> unit net_result" where
  "dhcp_discover env task s =
     (let m = my_mac s in
      if m = replicate 6 0 then Some (Err ''no MAC address'', s)
      else
        let xid = from_be (field m 2 4) in
        and_then (Some (udp_bind DHCP_CLIENT_PORT s)) (\<lambda>sock s.
        and_then (Some (send_dhcp_udp_packet [0, 0, 0, 0] [255, 255, 255, 255] DHCP_CLIENT_PORT DHCP_SERVER_PORT (build_dhcp_discover m xid) s)) (\<lambda>_ s.
        and_then (wait_dhcp_response (env 0) task sock xid DHCP_MSG_OFFER 5000 s) (\<lambda>offer s.
        and_then (Some (send_dhcp_udp_packet [0, 0, 0, 0] [255, 255, 255, 255] DHCP_CLIENT_PORT DHCP_SERVER_PORT
          (build_dhcp_request m xid (your_ip offer) (server_ip offer)) s)) (\<lambda>_ s.
        and_then (wait_dhcp_response (env 1) task sock xid DHCP_MSG_ACK 5000 s) (\<lambda>ack s.
          let s = set_config (your_ip ack) (dhcp_gateway ack) (dhcp_dns ack) (dhcp_mask ack) s in
          Some (Ok (), snd (udp_close sock s))))))))"

section \<open>Received messages are read within their bounds\<close>

lemma byte_at_ok: "i < length data \<Longrightarrow> byte_at data i = Ok (data ! i)"
  by (simp add: byte_at_def)

lemma be16_at_ok: "i + 1 < length data \<Longrightarrow> be16_at data i = Ok (from_be [data ! i, data ! (i + 1)])"
  by (simp add: be16_at_def byte_at_ok)

lemma skip_dns_name_no_panic: "skip_dns_name data offset \<noteq> Panic"
proof (induction data offset rule: skip_dns_name.induct)
  case (1 data offset)
  then show ?case by (subst skip_dns_name.simps) (auto simp: Let_def)
qed

lemma res_bind_Panic_iff: "res_bind r f = Panic \<longleftrightarrow> r = Panic \<or> (\<exists>a. r = Ok a \<and> f a = Panic)"
  by (cases r) simp_all

lemma res_bind_no_panic: "r \<noteq> Panic \<Longrightarrow> (\<And>a. r = Ok a \<Longrightarrow> f a \<noteq> Panic) \<Longrightarrow> res_bind r f \<noteq> Panic"
  by (cases r) simp_all

lemma skip_questions_no_panic: "skip_questions data n offset \<noteq> Panic"
  by (induction n arbitrary: offset) (auto simp: res_bind_Panic_iff skip_dns_name_no_panic)

lemma parse_answers_no_panic: "parse_answers data n offset \<noteq> Panic"
proof (induction n arbitrary: offset)
  case (Suc n)
  show ?case
    unfolding parse_answers.simps
  proof (rule res_bind_no_panic [OF skip_dns_name_no_panic])
    fix o1
    show "(if o1 + 10 > length data then Err ''DNS answer truncated''
       else res_bind (be16_at data o1) (\<lambda>rtype. res_bind (be16_at data (o1 + 2)) (\<lambda>rclass. res_bind (be16_at data (o1 + 8)) (\<lambda>rdlength.
           let offset = o1 + 10 in
           if offset + unat rdlength > length data then Err ''DNS RDATA truncated''
           else if rtype = DNS_TYPE_A \<and> rclass = DNS_CLASS_IN \<and> rdlength = 4 then
             res_bind (byte_at data offset) (\<lambda>a. res_bind (byte_at data (offset + 1)) (\<lambda>b.
             res_bind (byte_at data (offset + 2)) (\<lambda>c. res_bind (byte_at data (offset + 3)) (\<lambda>d. Ok [a, b, c, d]))))
           else parse_answers data n (offset + unat rdlength))))) \<noteq> Panic"
      using Suc by (auto simp: be16_at_ok byte_at_ok Let_def)
  qed
qed simp

lemma parse_dns_response_no_panic: "parse_dns_response data \<noteq> Panic"
  by (auto simp: parse_dns_response_def be16_at_ok skip_questions_no_panic parse_answers_no_panic res_bind_Panic_iff)

section \<open>The answer to a query is found\<close>

lemma dns_label_byte:
  assumes "0 < n" and "n \<le> 63"
  shows "(of_nat n :: u8) \<noteq> 0" and "(of_nat n :: u8) AND 0xC0 \<noteq> 0xC0" and "unat (of_nat n :: u8) = n"
proof -
  show u: "unat (of_nat n :: u8) = n" using assms by (simp add: unat_of_nat)
  then show "(of_nat n :: u8) \<noteq> 0" using assms(1) by auto
  have "of_nat n AND 0xC0 \<le> (of_nat n :: u8)" by (rule word_and_le2)
  then show "(of_nat n :: u8) AND 0xC0 \<noteq> 0xC0" using u assms(2) by (auto simp: word_le_nat_alt)
qed

lemma skip_dns_labels:
  assumes "dns_labels ls = Ok q"
  shows "skip_dns_name (a @ q @ 0 # r) (length a) = Ok (length a + length q + 1)"
  using assms
proof (induction ls arbitrary: a q)
  case Nil
  then show ?case by (subst skip_dns_name.simps) (simp add: Let_def)
next
  case (Cons l ls)
  show ?case
  proof (cases "l = []")
    case False
    then obtain q' where q: "dns_labels ls = Ok q'" "q = of_nat (length l) # bytes_of_string l @ q'" "length l \<le> 63"
      using Cons(2) by (cases "dns_labels ls") (auto split: if_splits)
    note w = dns_label_byte [of "length l"]
    have "skip_dns_name (a @ q @ 0 # r) (length a) = skip_dns_name ((a @ of_nat (length l) # bytes_of_string l) @ q' @ 0 # r) (length (a @ of_nat (length l) # bytes_of_string l))"
      using False q w by (subst skip_dns_name.simps) (simp add: Let_def bytes_of_string_def add.assoc)
    also have "\<dots> = Ok (length (a @ of_nat (length l) # bytes_of_string l) + length q' + 1)" by (rule Cons(1) [OF q(1)])
    finally show ?thesis using q(2) by (simp add: bytes_of_string_def)
  qed (use Cons in simp)
qed

text \<open>A response that repeats the question and gives one address record for it, its name a pointer to the question, yields that address.\<close>

definition dns_reply :: "bytes \<Rightarrow> bytes \<Rightarrow> bytes \<Rightarrow> bytes \<Rightarrow> bytes" where
  "dns_reply idf question ttl_field ip =
     (idf @ [0x81, 0x80, 0, 1, 0, 1, 0, 0, 0, 0]) @ question @ 0 # [0, 1, 0, 1] @ [0xC0, 12, 0, 1, 0, 1] @ ttl_field @ [0, 4] @ ip"

lemma dns_answer_found:
  assumes q: "dns_labels (split_on (CHR ''.'') domain) = Ok q" and len: "length idf = 2" "length ttl_field = 4" "length ip = 4"
  shows "parse_dns_response (dns_reply idf q ttl_field ip) = Ok ip"
proof -
  let ?d = "dns_reply idf q ttl_field ip" and ?a = "idf @ [0x81, 0x80, 0, 1, 0, 1, 0, 0, 0, 0]" and ?n = "length q"
  obtain x y z w where ip: "ip = [x, y, z, w]" using len(3) by (auto simp: numeral_eq_Suc length_Suc_conv)
  define b where "b = ?a @ q @ [0, 0, 1, 0, 1]"
  have b: "length b = 17 + ?n" "?d = b @ [0xC0, 12, 0, 1, 0, 1] @ ttl_field @ [0, 4, x, y, z, w]" using len(1) by (simp_all add: b_def dns_reply_def ip)
  have skip: "skip_dns_name ?d 12 = Ok (13 + ?n)"
    using skip_dns_labels [OF q, of ?a "[0, 1, 0, 1] @ [0xC0, 12, 0, 1, 0, 1] @ ttl_field @ [0, 4] @ ip"] len(1) by (simp add: dns_reply_def)
  have at: "?d ! (17 + ?n) = 0xC0" "?d ! (19 + ?n) = 0" "?d ! (20 + ?n) = 1" "?d ! (21 + ?n) = 0" "?d ! (22 + ?n) = 1" "?d ! (27 + ?n) = 0" "?d ! (28 + ?n) = 4"
      "?d ! (29 + ?n) = x" "?d ! (30 + ?n) = y" "?d ! (31 + ?n) = z" "?d ! (32 + ?n) = w" "length ?d = 33 + ?n"
    using b(1) len(2) by (simp_all add: b(2) nth_append)
  have name: "skip_dns_name ?d (17 + ?n) = Ok (19 + ?n)" using at by (subst skip_dns_name.simps) (simp add: Let_def)
  have be: "from_be [0, 1] = (1 :: u16)" "from_be [0, 4] = (4 :: u16)" "from_be [0x81, 0x80] = (0x8180 :: u16)" by (simp_all add: from_be_def)
  have hd: "be16_at ?d 2 = Ok 0x8180" "be16_at ?d 4 = Ok 1" "be16_at ?d 6 = Ok 1"
    using len(1) at(12) by (simp_all add: be16_at_ok be) (simp_all add: dns_reply_def nth_append be)
  have rest: "be16_at ?d (19 + ?n) = Ok 1" "be16_at ?d (21 + ?n) = Ok 1" "be16_at ?d (27 + ?n) = Ok 4"
    using at by (simp_all add: be16_at_ok be add.commute)
  have u: "unat (4 :: u16) = 4" "unat (1 :: u16) = Suc 0" by simp_all
  have qs: "skip_questions ?d (Suc 0) 12 = Ok (17 + ?n)" using skip by simp
  have ans: "parse_answers ?d (Suc 0) (17 + ?n) = Ok ip"
    using name rest at by (simp add: u DNS_TYPE_A_def DNS_CLASS_IN_def byte_at_ok Let_def ip add.commute) (simp add: take_bit_nat_eq_self)
  show ?thesis
    using at(12) hd qs ans by (simp add: parse_dns_response_def u del: skip_questions.simps parse_answers.simps)
qed

section \<open>A failed configuration keeps its port\<close>

text \<open>The socket on port 68 stays bound when a step after the binding fails, so that the next try fails at once.\<close>

lemma send_dhcp_fails:
  assumes "nic_answer s = (\<lambda>_ _. Err e)" and "length src = 4" and "length dst = 4"
  shows "send_dhcp_udp_packet src dst sport dport payload s = (Err ''send failed'', s)"
proof -
  obtain p where "dhcp_udp_packet src dst sport dport payload s = Ok p"
    using ipv4_checked_ok [of "[0, 0]" src dst IP_PROTO_UDP "20 + (8 + length payload)"] assms(2,3) by (auto simp: dhcp_udp_packet_def)
  then show ?thesis using assms(1) by (simp add: send_dhcp_udp_packet_def send_frame_def)
qed

lemma dhcp_retry_refused:
  assumes nic: "nic_answer s = (\<lambda>_ _. Err e)" and mac: "my_mac s \<noteq> replicate 6 0" and free: "\<forall>u\<in>set (udp_sockets s). us_port u \<noteq> DHCP_CLIENT_PORT"
  shows "\<exists>s'. dhcp_discover env task s = Some (Err ''send failed'', s') \<and> dhcp_discover env' task s' = Some (Err ''port already in use'', s')"
proof -
  obtain i s' where b: "udp_bind DHCP_CLIENT_PORT s = (Ok i, s')" "nic_answer s' = nic_answer s" "my_mac s' = my_mac s"
      "\<exists>u\<in>set (udp_sockets s'). us_port u = DHCP_CLIENT_PORT"
    using free by (auto simp: udp_bind_def alloc_conn_id_def Let_def DHCP_CLIENT_PORT_def)
  then have "udp_bind DHCP_CLIENT_PORT s' = (Err ''port already in use'', s')" by (simp add: udp_bind_def DHCP_CLIENT_PORT_def)
  then show ?thesis using b nic mac send_dhcp_fails [of s' e] by (simp add: dhcp_discover_def Let_def)
qed

end
