(* ===== verification/Syscall_Net.thy ===== *)
theory Syscall_Net
  imports Net_Names Syscall_Fs
begin

text \<open>
  \<^verbatim>\<open>kernel/src/syscall/network.rs\<close>: the system calls of the network stack. The state is the network state and the memory of the calling process; a call that waits takes the environment
  of \<^verbatim>\<open>wait_net_condition\<close>, which changes the network state only.
\<close>

section \<open>Calls\<close>

record net_machine =
  net :: NetState
  pmem :: "u64 \<Rightarrow> u8"

type_synonym net_syscall = "((SyscallError, u64) res \<times> net_machine) option"

text \<open>A call of the stack within a system call: its error becomes one of the system call.\<close>

definition call_net :: "'a net_result \<Rightarrow> (string \<Rightarrow> net_machine \<Rightarrow> net_syscall) \<Rightarrow> net_machine \<Rightarrow> ('a \<Rightarrow> net_machine \<Rightarrow> net_syscall) \<Rightarrow> net_syscall" where
  "call_net x failed s f =
     Option.bind x (\<lambda>(r, n). case r of Ok a \<Rightarrow> f a (s\<lparr>net := n\<rparr>) | Err e \<Rightarrow> failed e (s\<lparr>net := n\<rparr>) | Panic \<Rightarrow> Some (Panic, s\<lparr>net := n\<rparr>))"

definition other :: "string \<Rightarrow> net_machine \<Rightarrow> net_syscall" where
  "other e s = Some (Err Other, s)"

definition with_slice :: "u64 \<Rightarrow> u64 \<Rightarrow> net_machine \<Rightarrow> (user_slice \<Rightarrow> net_syscall) \<Rightarrow> net_syscall" where
  "with_slice p n s f = (case user_slice_from_args p n of Ok b \<Rightarrow> f b | Err e \<Rightarrow> Some (Err e, s) | Panic \<Rightarrow> Some (Panic, s))"

definition put_bytes :: "user_slice \<Rightarrow> bytes \<Rightarrow> net_machine \<Rightarrow> net_machine" where
  "put_bytes b d s = s\<lparr>pmem := store_bytes (us_addr b) d (pmem s)\<rparr>"

definition sys_net_dns_lookup :: "environment \<Rightarrow> u64 \<Rightarrow> u64 \<Rightarrow> u64 \<Rightarrow> u64 \<Rightarrow> net_machine \<Rightarrow> net_syscall" where
  "sys_net_dns_lookup env task arg1 arg2 arg3 s =
     with_slice arg1 arg2 s (\<lambda>d.
       case from_utf8 (as_slice (pmem s) d) of
         None \<Rightarrow> Some (Err InvalidArgument, s)
       | Some domain \<Rightarrow>
           call_net (dns_lookup env task domain (net s)) other s (\<lambda>ip s.
             with_slice arg3 4 s (\<lambda>b. Some (Ok 0, put_bytes b (take 4 ip) s))))"

definition sys_net_tcp_connect :: "environment \<Rightarrow> u64 \<Rightarrow> u64 \<Rightarrow> u64 \<Rightarrow> net_machine \<Rightarrow> net_syscall" where
  "sys_net_tcp_connect env task arg1 arg2 s =
     with_slice arg1 4 s (\<lambda>b.
       call_net (tcp_connect env task (take 4 (as_slice (pmem s) b)) (ucast arg2) (net s)) other s (\<lambda>i s. Some (Ok (ucast i), s)))"

definition sys_net_tcp_send :: "u64 \<Rightarrow> u64 \<Rightarrow> u64 \<Rightarrow> net_machine \<Rightarrow> net_syscall" where
  "sys_net_tcp_send arg1 arg2 arg3 s =
     with_slice arg2 arg3 s (\<lambda>b. call_net (tcp_send (ucast arg1) (as_slice (pmem s) b) (net s)) other s (\<lambda>_ s. Some (Ok 0, s)))"

definition sys_net_tcp_recv :: "environment \<Rightarrow> u64 \<Rightarrow> u64 \<Rightarrow> u64 \<Rightarrow> u64 \<Rightarrow> u64 \<Rightarrow> net_machine \<Rightarrow> net_syscall" where
  "sys_net_tcp_recv env task arg1 arg2 arg3 arg4 s =
     with_slice arg2 arg3 s (\<lambda>b.
       call_net (tcp_recv env task (ucast arg1) arg4 (net s))
         (\<lambda>e s. if e = ''timeout'' \<or> e = ''connection closed'' then Some (Ok 0, s) else Some (Err Other, s)) s
         (\<lambda>data s. let copy_len = min (length data) (unat arg3) in Some (Ok (of_nat copy_len), put_bytes b (take copy_len data) s)))"

definition sys_net_tcp_close :: "environment \<Rightarrow> u64 \<Rightarrow> u64 \<Rightarrow> net_machine \<Rightarrow> net_syscall" where
  "sys_net_tcp_close env task arg1 s = call_net (tcp_close env task (ucast arg1) (net s)) other s (\<lambda>_ s. Some (Ok 0, s))"

definition sys_net_tcp_listen :: "u64 \<Rightarrow> net_machine \<Rightarrow> net_syscall" where
  "sys_net_tcp_listen arg1 s = call_net (Some (tcp_listen (ucast arg1) (net s))) other s (\<lambda>_ s. Some (Ok 0, s))"

definition sys_net_tcp_accept :: "environment \<Rightarrow> u64 \<Rightarrow> u64 \<Rightarrow> u64 \<Rightarrow> net_machine \<Rightarrow> net_syscall" where
  "sys_net_tcp_accept env task arg1 arg2 s = call_net (tcp_accept env task arg1 (ucast arg2) (net s)) other s (\<lambda>i s. Some (Ok (ucast i), s))"

definition sys_net_udp_bind :: "u64 \<Rightarrow> net_machine \<Rightarrow> net_syscall" where
  "sys_net_udp_bind arg1 s =
     call_net (Some (udp_bind (ucast arg1) (net s))) other s (\<lambda>i s.
     call_net (Some (udp_local_port i (net s), net s)) other s (\<lambda>p s. Some (Ok (ucast i OR push_bit 32 (ucast p)), s)))"

text \<open>The argument blocks are structures of 32 and 40 bytes.\<close>

definition sys_net_udp_send_to :: "environment \<Rightarrow> u64 \<Rightarrow> u64 \<Rightarrow> net_machine \<Rightarrow> net_syscall" where
  "sys_net_udp_send_to env task arg1 s =
     with_slice arg1 32 s (\<lambda>b.
       let a = as_slice (pmem s) b in
       with_slice (from_le (field a 16 8)) (from_le (field a 24 8)) s (\<lambda>d.
         call_net (udp_send_to env task (from_le (field a 0 4)) (field a 4 4) (from_le (field a 8 2)) (as_slice (pmem s) d) (net s)) other s
           (\<lambda>_ s. Some (Ok 0, s))))"

definition sys_net_udp_recv_from :: "environment \<Rightarrow> u64 \<Rightarrow> u64 \<Rightarrow> net_machine \<Rightarrow> net_syscall" where
  "sys_net_udp_recv_from env task arg1 s =
     with_slice arg1 40 s (\<lambda>b.
       let a = as_slice (pmem s) b in
       call_net (udp_recv_from env task (from_le (field a 0 4)) (from_le (field a 24 8)) (net s)) other s (\<lambda>(src, port, data) s.
         with_slice (from_le (field a 8 8)) (from_le (field a 16 8)) s (\<lambda>buf.
           let copy_len = min (length data) (unat (us_len buf)); s = put_bytes buf (take copy_len data) s in
           with_slice (from_le (field a 32 8)) 6 s (\<lambda>info. Some (Ok (of_nat copy_len), put_bytes info (src @ le16 port) s)))))"

definition sys_net_udp_close :: "u64 \<Rightarrow> net_machine \<Rightarrow> net_syscall" where
  "sys_net_udp_close arg1 s = call_net (Some (udp_close (ucast arg1) (net s))) other s (\<lambda>_ s. Some (Ok 0, s))"

definition sys_net_ping6 :: "environment \<Rightarrow> u64 \<Rightarrow> u64 \<Rightarrow> u64 \<Rightarrow> u64 \<Rightarrow> net_machine \<Rightarrow> net_syscall" where
  "sys_net_ping6 env task arg1 arg2 arg3 s =
     with_slice arg1 16 s (\<lambda>b.
       call_net (Some (send_icmpv6_echo_request (take 16 (as_slice (pmem s) b)) 0x1234 1 (net s))) other s (\<lambda>_ s.
       call_net (wait_icmpv6_echo_reply env task (ucast (ucast arg2 :: u32)) (net s)) other s (\<lambda>(_, _, src) s.
         with_slice arg3 16 s (\<lambda>d. Some (Ok 0, put_bytes d (take 16 src) s)))))"

section \<open>A short buffer loses data\<close>

text \<open>The whole receive buffer of the connection is taken, and what does not fit the caller's buffer is not kept.\<close>

lemma short_buffer_loses_data:
  assumes c: "has_conn (net s) j d" "tc_id d = ucast arg1" "recv_buffer d \<noteq> []" and b: "user_slice_from_args arg2 arg3 = Ok b" and short: "unat arg3 < length (recv_buffer d)"
  shows "\<exists>s'. sys_net_tcp_recv env task arg1 arg2 arg3 arg4 s = Some (Ok arg3, s') \<and> recv_buffer (tcp_connections (net s') ! j) = [] \<and>
    pmem s' = store_bytes (us_addr b) (take (unat arg3) (recv_buffer d)) (pmem s)"
proof -
  have at: "find_conn_index_by_id (net s) (ucast arg1) = Some j" "tcp_connections (net s) ! j = d" "j < length (tcp_connections (net s))"
    using c(1,2) by (simp_all add: has_conn_def)
  let ?n = "(net s)\<lparr>tcp_connections := (tcp_connections (net s))[j := d\<lparr>recv_buffer := []\<rparr>]\<rparr>"
  have "tcp_recv env task (ucast arg1) arg4 (net s) = Some (Ok (recv_buffer d), ?n)"
    using at c(3) by (simp add: tcp_recv_def wait_result_def wait_net_condition_def recv_check_def)
  then show ?thesis
    using b short at(3) by (simp add: sys_net_tcp_recv_def with_slice_def call_net_def put_bytes_def min_absorb2)
qed

end
