(* ===== verification/Spec2Isabelle.thy ===== *)
theory Spec2Isabelle
  imports Sabos_Prelude User_Ptr Pipe Vma Frames Vfs Handle Syscall_Fs Scheduler Ipc Syscall_Proc Textutil Fat32_Vfs Syscall_Net
begin

text \<open>
  \<^bold>\<open>SABOS\<close> is a small operating system in Rust: a kernel with a system call interface, user programs on top of it and libraries that both share. This development models
  the parts of the kernel that decide what a program can do and see, and the libraries whose code is shared, and proves what makes each of them correct.

  \<^bold>\<open>How the parts interact.\<close> A system call arrives with six machine words. Pointers and lengths among them are checked (\<^verbatim>\<open>user_ptr.rs\<close>), handles are looked up in the
  handle table (\<^verbatim>\<open>handle.rs\<close>), and the call is carried out by the virtual file system (\<^verbatim>\<open>vfs.rs\<close>, with the FAT32 driver of \<^verbatim>\<open>libs/fat32\<close> below it), a pipe (\<^verbatim>\<open>pipe.rs\<close>), the
  scheduler (\<^verbatim>\<open>scheduler.rs\<close>), the message queues (\<^verbatim>\<open>ipc.rs\<close>, \<^verbatim>\<open>futex.rs\<close>) or the memory areas of the process (\<^verbatim>\<open>vma.rs\<close>), which take frames from the physical
  allocator (\<^verbatim>\<open>memory.rs\<close>). The result is one word, a value or a negative error number.

  \<^bold>\<open>Conventions.\<close> A function of the source is a function of the same name. Its state is an argument and a result, a record with the fields of the struct. \<open>res\<close> is the outcome of a Rust
  computation: \<open>Ok\<close>, \<open>Err\<close> with the source's error, or \<open>Panic\<close>, which stands for every panic of a build with overflow checks: overflow, division by zero, an index out of range,
  \<^verbatim>\<open>unwrap\<close>. Lengths and indices are natural numbers, values that are stored, sent or computed with at a width are words of that width with checked arithmetic
  (\<open>cadd\<close>, \<open>csub\<close>, \<open>cmul\<close>). A Rust string is the list of its UTF-8 bytes. A loop that may wait for ever is a \<open>partial_function\<close> to an option, and the other tasks are a parameter, a function
  that changes the state between two rounds; no fuel is used. Code that is not in the repository (the processor, devices, the RAM behind a user pointer) is a parameter or a map.

  \<^bold>\<open>Theories.\<close>
  \<^item> \<open>Sabos_Prelude\<close>: results, checked arithmetic, byte orders, slot tables; locale \<open>slot_store\<close>, the contract of a table with first-free insertion.
  \<^item> \<open>Rust_Str\<close>, \<open>Rust_Utf\<close>: the string operations of the standard library, UTF-8 and UTF-16 with their round trips.
  \<^item> \<open>User_Ptr\<close> (\<^verbatim>\<open>kernel/src/user_ptr.rs\<close>): a buffer is accepted exactly when it lies in user space; the result word tells errors from values.
  \<^item> \<open>Pipe\<close> (\<^verbatim>\<open>kernel/src/pipe.rs\<close>): every history of the pipe table refines a queue of bytes per pipe.
  \<^item> \<open>Vma\<close> (\<^verbatim>\<open>kernel/src/vma.rs\<close>, \<^verbatim>\<open>sys_mmap\<close> and \<^verbatim>\<open>sys_munmap\<close> of \<^verbatim>\<open>syscall/misc.rs\<close>): the sorted list of areas implements a map from addresses to attributes (locale
    \<open>area_map\<close>); free regions are found first fit, a mapping is fresh, an unmapping exact.
  \<^item> \<open>Buddy_Tiling\<close>, \<open>Buddy\<close>, \<open>Frames\<close> (\<^verbatim>\<open>kernel/src/memory.rs\<close>): the buddy allocator per region and over all regions. Its free lists tile the free frames; no history of calls
    hands out overlapping blocks, loses a frame or panics (locale \<open>block_allocator\<close>).
  \<^item> \<open>Vfs\<close> (\<^verbatim>\<open>kernel/src/vfs.rs\<close>): normalisation is canonical, the longest mount wins, the default read loop returns the whole file.
  \<^item> \<open>Handle\<close> (\<^verbatim>\<open>kernel/src/handle.rs\<close>): a closed handle stays closed, rights never grow, a written file reads back.
  \<^item> \<open>Syscall_Fs\<close> (\<^verbatim>\<open>syscall/handle.rs\<close>, \<^verbatim>\<open>syscall/filesystem.rs\<close>): calls on a directory handle stay below the directory and within its rights.
  \<^item> \<open>Scheduler\<close> (\<^verbatim>\<open>kernel/src/scheduler.rs\<close>): the invariant of the task table over all steps, finished tasks, reported exit codes, fairness, waiting.
  \<^item> \<open>Ipc\<close> (\<^verbatim>\<open>kernel/src/ipc.rs\<close>, \<^verbatim>\<open>kernel/src/futex.rs\<close>, task termination of \<^verbatim>\<open>scheduler.rs\<close>): order of messages, no lost wake-up, receives that return (locale \<open>receiver\<close>, interpreted
    on the four receive loops), futexes, and what is left of a killed task.
  \<^item> \<open>Syscall_Proc\<close> (\<^verbatim>\<open>syscall/process.rs\<close>, \<^verbatim>\<open>syscall/ipc.rs\<close>, threads and futexes of \<^verbatim>\<open>syscall/misc.rs\<close>, argument packing of \<^verbatim>\<open>user/src/syscall.rs\<close>): argument lists survive the
    packing; a message goes from one process's memory to another's.
  \<^item> \<open>Textutil\<close> (\<^verbatim>\<open>libs/textutil\<close>): literal search and replacement.
  \<^item> \<open>Fat_Core\<close> (\<^verbatim>\<open>libs/fat-core\<close>), \<open>Fat32\<close>, \<open>Fat32_Table\<close>, \<open>Fat32_Files\<close> (\<^verbatim>\<open>libs/fat32\<close>): records on disk, the whole driver, freeing a chain ends even on a damaged table,
    file data read back is what was written and no other cluster in use changes.

  \<^bold>\<open>Bounds.\<close> Handle tokens are 64-bit and never repeat below \<open>2 ^ 64\<close> of them; task ids likewise. The geometry of a FAT32 volume (\<open>geometry\<close>) is an assumption, stated where
  it is used; the driver does not check it.

  \<^bold>\<open>Not modelled.\<close> Device drivers and boot code talk to hardware through registers, ports and DMA, whose behaviour is not in the repository. Page tables and the change to user mode are
  assembly and processor state. The shells, the GUI, games and demo programs are user interfaces over the system calls. The Rust standard library port and the scripts
  are glue for tools outside the repository.
\<close>

end
